(* ===== verification/Prelude.thy ===== *)
theory Prelude
  imports Main "HOL-Library.AList" "HOL-Library.Char_ord" "HOL-Library.List_Lexorder"
begin

text \<open>
  Shared vocabulary of the development: the names of the model's basic types, the result
  type of fallible Go functions (a pair \<open>(v, err)\<close> becomes \<open>Inl err\<close> or \<open>Inr v\<close>), and the
  generic facts on lists, association lists and results that the component theories share.
  A Go \<open>string\<close> and a Go \<open>[]byte\<close> are both sequences of bytes, so both are Isabelle's
  \<open>string\<close>, a list of 8-bit characters; text beyond ASCII is its UTF-8 encoding.
\<close>

named_theorems result_simps \<open>unfolding of the result combinators\<close>
named_theorems db_simps \<open>what a statement of the store does to each table\<close>

type_synonym bytes = string

subsection \<open>Results\<close>

text \<open>Go's \<open>if err != nil { return err }\<close> after a call.\<close>

definition rbind :: "'e + 'a \<Rightarrow> ('a \<Rightarrow> 'e + 'b) \<Rightarrow> 'e + 'b" where
  "rbind r f = (case r of Inl e \<Rightarrow> Inl e | Inr v \<Rightarrow> f v)"

lemma rbind_simps [simp, result_simps]:
  "rbind (Inl e) f = Inl e"
  "rbind (Inr v) f = f v"
  by (simp_all add: rbind_def)

lemma rbind_eq_Inr: "rbind r f = Inr b \<longleftrightarrow> (\<exists>v. r = Inr v \<and> f v = Inr b)"
  by (cases r) auto

lemma rbind_eq_Inl: "rbind r f = Inl e \<longleftrightarrow> r = Inl e \<or> (\<exists>v. r = Inr v \<and> f v = Inl e)"
  by (cases r) auto

definition of_option :: "'e \<Rightarrow> 'a option \<Rightarrow> 'e + 'a" where
  "of_option e x = (case x of None \<Rightarrow> Inl e | Some v \<Rightarrow> Inr v)"

lemma of_option_simps [simp, result_simps]:
  "of_option e None = Inl e"
  "of_option e (Some v) = Inr v"
  by (simp_all add: of_option_def)

lemma of_option_eq_Inr [simp]: "of_option e x = Inr v \<longleftrightarrow> x = Some v"
  by (cases x) auto

subsection \<open>Lists\<close>

lemma length_dropWhile_less:
  assumes "dropWhile P xs = y # ys"
  shows "length ys < length xs"
proof -
  have "length (y # ys) \<le> length xs"
    unfolding assms [symmetric] by (rule length_dropWhile_le)
  then show ?thesis by simp
qed

lemma find_Some_in: "List.find P xs = Some x \<Longrightarrow> x \<in> set xs \<and> P x"
  by (auto simp: find_Some_iff)

lemma find_None: "List.find P xs = None \<longleftrightarrow> (\<forall>x \<in> set xs. \<not> P x)"
  by (auto simp: find_None_iff)

lemma find_Cons: "List.find P (x # xs) = (if P x then Some x else List.find P xs)"
  by simp

lemma map_of_update [simp]: "map_of (AList.update k v al) = (map_of al)(k \<mapsto> v)"
  by (rule update_conv')

text \<open>Lists separated by a byte that no element contains are read back uniquely.\<close>

lemma append_sep_inj:
  assumes "c \<notin> set a" and "c \<notin> set a'"
  shows "a @ c # b = a' @ c # b' \<longleftrightarrow> a = a' \<and> b = b'"
proof
  assume eq: "a @ c # b = a' @ c # b'"
  have "takeWhile (\<lambda>x. x \<noteq> c) (a @ c # b) = a"
    using assms(1) by (subst takeWhile_append2) auto
  moreover have "takeWhile (\<lambda>x. x \<noteq> c) (a' @ c # b') = a'"
    using assms(2) by (subst takeWhile_append2) auto
  ultimately show "a = a' \<and> b = b'" using eq by simp
qed simp

end
