(* ===== verification/GoStrings.thy ===== *)
theory GoStrings
  imports Prelude
begin

text \<open>
  The functions of Go's \<open>strings\<close>, \<open>encoding/hex\<close> and \<open>unicode\<close> packages the program calls,
  on byte strings. White space is Unicode's \<open>White_Space\<close> property, given by the UTF-8
  encodings of its code points: a Go string is trimmed rune by rune, and the encodings
  below are exactly the runes \<open>unicode.IsSpace\<close> accepts.
\<close>

subsection \<open>Prefixes, suffixes, joining\<close>

definition HasPrefix :: "string \<Rightarrow> string \<Rightarrow> bool" where
  "HasPrefix s p \<longleftrightarrow> take (length p) s = p"

definition TrimPrefix :: "string \<Rightarrow> string \<Rightarrow> string" where
  "TrimPrefix s p = (if HasPrefix s p then drop (length p) s else s)"

definition HasSuffix :: "string \<Rightarrow> string \<Rightarrow> bool" where
  "HasSuffix s p \<longleftrightarrow> HasPrefix (rev s) (rev p)"

definition TrimSuffix :: "string \<Rightarrow> string \<Rightarrow> string" where
  "TrimSuffix s p = (if HasSuffix s p then take (length s - length p) s else s)"

fun Join :: "string list \<Rightarrow> string \<Rightarrow> string" where
  "Join [] sep = []"
| "Join [x] sep = x"
| "Join (x # y # xs) sep = x @ sep @ Join (y # xs) sep"

text \<open>\<open>strings.IndexByte\<close>: the index of the first occurrence, \<open>-1\<close> if there is none.\<close>

fun IndexByte :: "string \<Rightarrow> char \<Rightarrow> int" where
  "IndexByte [] c = -1"
| "IndexByte (x # xs) c =
     (if x = c then 0 else (let i = IndexByte xs c in if i < 0 then -1 else i + 1))"

lemma HasPrefix_iff: "HasPrefix s p \<longleftrightarrow> (\<exists>t. s = p @ t)"
  unfolding HasPrefix_def by (metis append_eq_conv_conj append_take_drop_id)

lemma HasPrefix_append [simp]: "HasPrefix (p @ s) p"
  by (simp add: HasPrefix_def)

lemma HasPrefix_Nil [simp]: "HasPrefix s []"
  by (simp add: HasPrefix_def)

lemma TrimPrefix_append [simp]: "TrimPrefix (p @ s) p = s"
  by (simp add: TrimPrefix_def)

lemma HasSuffix_append [simp]: "HasSuffix (s @ p) p"
  by (simp add: HasSuffix_def)

lemma TrimSuffix_append [simp]: "TrimSuffix (s @ p) p = s"
  by (simp add: TrimSuffix_def)

lemma IndexByte_ge: "-1 \<le> IndexByte s c"
  by (induction s) (auto simp: Let_def)

lemma IndexByte_neg: "IndexByte s c < 0 \<longleftrightarrow> c \<notin> set s"
  by (induction s) (auto simp: Let_def)

lemma IndexByte_take:
  "take (nat (IndexByte s c)) s = takeWhile (\<lambda>x. x \<noteq> c) s" if "c \<in> set s"
  using that
proof (induction s)
  case (Cons x s)
  show ?case
  proof (cases "x = c")
    case False
    with Cons.prems have "c \<in> set s" by simp
    then have "0 \<le> IndexByte s c" using IndexByte_neg [of s c] by linarith
    with False Cons.IH \<open>c \<in> set s\<close> show ?thesis by (simp add: Let_def nat_add_distrib)
  qed simp
qed simp

lemma Join_Cons: "Join (x # xs) sep = x @ (if xs = [] then [] else sep @ Join xs sep)"
  by (cases xs) auto

text \<open>Joining non-empty lists of strings without the separator byte is injective.\<close>

lemma Join_inj:
  assumes "\<forall>x \<in> set xs. c \<notin> set x" and "\<forall>y \<in> set ys. c \<notin> set y"
    and "xs \<noteq> []" and "ys \<noteq> []" and "Join xs [c] = Join ys [c]"
  shows "xs = ys"
  using assms
proof (induction xs arbitrary: ys)
  case (Cons x xs)
  from Cons.prems obtain y ys' where ys: "ys = y # ys'" by (cases ys) auto
  show ?case
  proof (cases "xs = []")
    case True
    have "ys' = []"
    proof (rule ccontr)
      assume "ys' \<noteq> []"
      with True ys Cons.prems have "c \<in> set x" by (auto simp: Join_Cons)
      with Cons.prems show False by simp
    qed
    with True ys Cons.prems show ?thesis by simp
  next
    case False
    have "ys' \<noteq> []"
    proof
      assume "ys' = []"
      with False ys Cons.prems have "c \<in> set y" by (auto simp: Join_Cons)
      with ys Cons.prems show False by simp
    qed
    with False ys Cons.prems have "x = y" "Join xs [c] = Join ys' [c]"
      by (auto simp: Join_Cons append_sep_inj)
    with Cons.IH [of ys'] False \<open>ys' \<noteq> []\<close> ys Cons.prems show ?thesis by auto
  qed
qed simp

subsection \<open>Replacing and splitting\<close>

text \<open>\<open>strings.ReplaceAll(s, old, new)\<close> for a non-empty \<open>old\<close>, as every call has it.\<close>

function ReplaceAll :: "string \<Rightarrow> string \<Rightarrow> string \<Rightarrow> string" where
  "ReplaceAll [] old new = []"
| "ReplaceAll (c # s) old new =
     (if old \<noteq> [] \<and> HasPrefix (c # s) old
      then new @ ReplaceAll (drop (length old) (c # s)) old new
      else c # ReplaceAll s old new)"
  by pat_completeness auto
termination
  by (relation "measure (\<lambda>(s, _, _). length s)") auto

text \<open>\<open>strings.Split(s, sep)\<close> for a one-byte separator.\<close>

fun SplitByte :: "string \<Rightarrow> char \<Rightarrow> string list" where
  "SplitByte [] sep = [[]]"
| "SplitByte (c # s) sep =
     (if c = sep then [] # SplitByte s sep
      else (case SplitByte s sep of [] \<Rightarrow> [[c]] | l # ls \<Rightarrow> (c # l) # ls))"

lemma SplitByte_neq_Nil [simp]: "SplitByte s sep \<noteq> []"
  by (cases s) (auto split: list.splits)

lemma Join_SplitByte: "Join (SplitByte s sep) [sep] = s"
proof (induction s)
  case (Cons c s)
  then show ?case by (cases "SplitByte s sep") (auto simp: Join_Cons)
qed simp

lemma SplitByte_no_sep: "\<forall>l \<in> set (SplitByte s sep). sep \<notin> set l"
  by (induction s) (auto split: list.splits)

subsection \<open>White space\<close>

text \<open>The UTF-8 encodings of the runes of \<open>unicode.IsSpace\<close>.\<close>

definition space_runes :: "string list" where
  "space_runes =
     [[CHR 0x09], [CHR 0x0A], [CHR 0x0B], [CHR 0x0C], [CHR 0x0D], [CHR 0x20],
      [CHR 0xC2, CHR 0x85], [CHR 0xC2, CHR 0xA0], [CHR 0xE1, CHR 0x9A, CHR 0x80],
      [CHR 0xE2, CHR 0x80, CHR 0x80], [CHR 0xE2, CHR 0x80, CHR 0x81],
      [CHR 0xE2, CHR 0x80, CHR 0x82], [CHR 0xE2, CHR 0x80, CHR 0x83],
      [CHR 0xE2, CHR 0x80, CHR 0x84], [CHR 0xE2, CHR 0x80, CHR 0x85],
      [CHR 0xE2, CHR 0x80, CHR 0x86], [CHR 0xE2, CHR 0x80, CHR 0x87],
      [CHR 0xE2, CHR 0x80, CHR 0x88], [CHR 0xE2, CHR 0x80, CHR 0x89],
      [CHR 0xE2, CHR 0x80, CHR 0x8A], [CHR 0xE2, CHR 0x80, CHR 0xA8],
      [CHR 0xE2, CHR 0x80, CHR 0xA9], [CHR 0xE2, CHR 0x80, CHR 0xAF],
      [CHR 0xE2, CHR 0x81, CHR 0x9F], [CHR 0xE3, CHR 0x80, CHR 0x80]]"

text \<open>The length of the white-space rune at the head of \<open>s\<close>, 0 if there is none.\<close>

definition space_len :: "string list \<Rightarrow> string \<Rightarrow> nat" where
  "space_len ws s = (case List.find (HasPrefix s) ws of None \<Rightarrow> 0 | Some w \<Rightarrow> length w)"

lemma space_len_le: "space_len ws s \<le> length s"
  by (auto simp: space_len_def HasPrefix_def find_Some_iff split: option.splits)
    (metis length_take min.bounded_iff nle_le)

function trim_left :: "string list \<Rightarrow> string \<Rightarrow> string" where
  "trim_left ws s = (let n = space_len ws s in if n = 0 then s else trim_left ws (drop n s))"
  by pat_completeness auto
termination
proof (relation "measure (\<lambda>(_, s). length s)", goal_cases)
  case (2 ws s n)
  then show ?case using space_len_le [of ws s] by simp
qed simp

declare trim_left.simps [simp del]

definition TrimSpace :: "string \<Rightarrow> string" where
  "TrimSpace s = rev (trim_left (map rev space_runes) (rev (trim_left space_runes s)))"

text \<open>\<open>strings.TrimSpace(s) == ""\<close>, the test the program makes: \<open>s\<close> is blank.\<close>

abbreviation blank :: "string \<Rightarrow> bool" where
  "blank s \<equiv> TrimSpace s = []"

definition is_space_head :: "string \<Rightarrow> bool" where
  "is_space_head s \<longleftrightarrow> space_len space_runes s \<noteq> 0"

lemma space_len_pos: "\<forall>w \<in> set ws. w \<noteq> [] \<Longrightarrow>
    space_len ws s = 0 \<longleftrightarrow> (\<forall>w \<in> set ws. \<not> HasPrefix s w)"
  by (auto simp: space_len_def find_None_iff find_Some_iff split: option.splits)

lemma space_runes_nonempty: "\<forall>w \<in> set space_runes. w \<noteq> []"
  by (simp add: space_runes_def)

text \<open>A string whose first byte starts no white-space rune is not blank.\<close>

definition space_leads :: "char set" where
  "space_leads = hd ` set space_runes"

lemma space_len_lead: "c \<notin> space_leads \<Longrightarrow> space_len space_runes (c # s) = 0"
  unfolding space_len_pos [OF space_runes_nonempty]
proof (intro ballI notI)
  fix w
  assume c: "c \<notin> space_leads" and w: "w \<in> set space_runes" and "HasPrefix (c # s) w"
  then obtain d w' where "w = d # w'" using space_runes_nonempty by (cases w) auto
  moreover from this \<open>HasPrefix (c # s) w\<close> have "d = c" by (auto simp: HasPrefix_def)
  ultimately show False using c w by (force simp: space_leads_def)
qed

lemma trim_left_Nil [simp]: "trim_left ws [] = []"
  using space_len_le [of ws "[]"] by (subst trim_left.simps) (simp add: Let_def)

subsection \<open>Hexadecimal\<close>

definition hex_digits :: string where
  "hex_digits = ''0123456789abcdef''"

definition hex_byte :: "char \<Rightarrow> string" where
  "hex_byte c = [hex_digits ! (of_char c div 16), hex_digits ! (of_char c mod 16)]"

text \<open>\<open>hex.EncodeToString\<close>.\<close>

definition EncodeToString :: "bytes \<Rightarrow> string" where
  "EncodeToString bs = concat (map hex_byte bs)"

lemma length_EncodeToString [simp]: "length (EncodeToString bs) = 2 * length bs"
  by (induction bs) (auto simp: EncodeToString_def hex_byte_def)

text \<open>Hexadecimal encoding is injective, so equal hexadecimal digests are equal digests.\<close>

lemma hex_digit_inj:
  assumes "a < 16" and "b < 16"
  shows "hex_digits ! a = hex_digits ! b \<longleftrightarrow> a = b"
proof -
  have "distinct hex_digits" and "length hex_digits = 16"
    by (simp_all add: hex_digits_def)
  then show ?thesis using assms by (simp add: nth_eq_iff_index_eq)
qed

lemma hex_byte_inj: "hex_byte c = hex_byte d \<longleftrightarrow> c = d"
proof
  assume eq: "hex_byte c = hex_byte d"
  have "of_char c div 16 < (16::nat)" "of_char d div 16 < (16::nat)"
    by (simp_all add: less_mult_imp_div_less)
  with eq have "of_char c div 16 = (of_char d div 16 :: nat)"
    "of_char c mod 16 = (of_char d mod 16 :: nat)"
    by (simp_all add: hex_byte_def hex_digit_inj)
  then have "of_char c = (of_char d :: nat)" by (metis div_mult_mod_eq)
  then show "c = d" by simp
qed simp

lemma EncodeToString_inj: "EncodeToString a = EncodeToString b \<longleftrightarrow> a = b"
proof (induction a arbitrary: b)
  case Nil
  then show ?case by (cases b) (auto simp: EncodeToString_def hex_byte_def)
next
  case (Cons c a)
  then show ?case
  proof (cases b)
    case (Cons d b')
    have "EncodeToString (c # a) = hex_byte c @ EncodeToString a"
      "EncodeToString (d # b') = hex_byte d @ EncodeToString b'"
      by (simp_all add: EncodeToString_def)
    moreover have "length (hex_byte c) = length (hex_byte d)" by (simp add: hex_byte_def)
    ultimately show ?thesis
      using Cons.IH [of b'] Cons by (simp add: hex_byte_inj)
  qed (simp add: EncodeToString_def hex_byte_def)
qed

text \<open>No byte of a hexadecimal string is NUL or a slash: it is one of the sixteen digits.\<close>

lemma set_EncodeToString: "set (EncodeToString bs) \<subseteq> set hex_digits"
proof -
  have "hex_digits ! k \<in> set hex_digits" if "k < 16" for k
    using that by (intro nth_mem) (simp add: hex_digits_def)
  then have "set (hex_byte c) \<subseteq> set hex_digits" for c
    by (simp add: hex_byte_def less_mult_imp_div_less)
  then show ?thesis by (auto simp: EncodeToString_def)
qed

lemma nul_notin_hex [simp]: "CHR 0x00 \<notin> set (EncodeToString bs)"
  using set_EncodeToString [of bs] by (auto simp: hex_digits_def)

end
