(* ===== verification/Validate.thy ===== *)
theory Validate
  imports GoStrings
begin

text \<open>
  \<^verbatim>\<open>internal/validate/validate.go\<close>: when a prompt is well formed. The regular expression
  \<^verbatim>\<open>\{(\w+)\}\<close> with \<open>FindAllStringSubmatch\<close> is the scanner \<open>placeholders\<close>: it returns the
  captured names of the leftmost non-overlapping matches in order. The theorems give the
  scanner its declarative meaning and say exactly which prompts \<open>Prompt\<close> accepts and what
  each rejection reports.
\<close>

subsection \<open>Placeholders\<close>

text \<open>\<^verbatim>\<open>\w\<close> of Go's RE2: ASCII letters, digits and underscore.\<close>

definition is_word :: "char \<Rightarrow> bool" where
  "is_word c \<longleftrightarrow> (let n = of_char c :: nat in
     48 \<le> n \<and> n \<le> 57 \<or> 65 \<le> n \<and> n \<le> 90 \<or> n = 95 \<or> 97 \<le> n \<and> n \<le> 122)"

text \<open>
  At an opening brace the longest run of word bytes is taken; it is a match if the run is
  not empty and a closing brace follows, and scanning goes on behind the match. Otherwise
  it goes on at the next byte. (A shorter run cannot be followed by a brace, so the
  expression never backtracks into it.)
\<close>

function placeholders :: "string \<Rightarrow> string list" where
  "placeholders [] = []"
| "placeholders (c # s) =
     (if c = CHR ''{'' then
        (let w = takeWhile is_word s in
         case dropWhile is_word s of
           d # r \<Rightarrow> if w \<noteq> [] \<and> d = CHR ''}'' then w # placeholders r else placeholders s
         | [] \<Rightarrow> placeholders s)
      else placeholders s)"
  by pat_completeness auto
termination
  by (relation "measure length") (auto dest: length_dropWhile_less)

subsection \<open>Validation\<close>

datatype verr =
    UriEmpty
  | TemplateEmpty
  | SlotNameEmpty
  | UndeclaredSlots "string list"
  | UnusedSlots "string list"

text \<open>The text of each error, as \<open>errors.New\<close> and \<open>fmt.Errorf\<close> make it.\<close>

fun verr_text :: "verr \<Rightarrow> string" where
  "verr_text UriEmpty = ''uri is empty''"
| "verr_text TemplateEmpty = ''template is empty''"
| "verr_text SlotNameEmpty = ''slot name is empty''"
| "verr_text (UndeclaredSlots ss) = ''template uses undeclared slots: '' @ Join ss '', ''"
| "verr_text (UnusedSlots ss) = ''declared slots never used in template: '' @ Join ss '', ''"

text \<open>
  \<open>validate.Prompt\<close>: \<open>None\<close> is Go's nil error. The two Go maps are the sets of names found
  and declared; both differences are sorted before they are reported.
\<close>

definition validate_Prompt :: "string \<Rightarrow> string \<Rightarrow> string list \<Rightarrow> verr option" where
  "validate_Prompt uri template slots =
     (if blank uri then Some UriEmpty
      else if blank template then Some TemplateEmpty
      else let found = placeholders template in
        if list_ex blank slots then Some SlotNameEmpty
        else let missing = sort (filter (\<lambda>s. s \<notin> set slots) (remdups found));
                 extra = sort (filter (\<lambda>s. s \<notin> set found) (remdups slots)) in
          if missing \<noteq> [] then Some (UndeclaredSlots missing)
          else if extra \<noteq> [] then Some (UnusedSlots extra)
          else None)"

subsection \<open>What the scanner finds\<close>

definition slot_name :: "string \<Rightarrow> bool" where
  "slot_name w \<longleftrightarrow> w \<noteq> [] \<and> list_all is_word w"

definition occurs_in :: "string \<Rightarrow> string \<Rightarrow> bool" where
  "occurs_in w t \<longleftrightarrow> (\<exists>p q. t = p @ ''{'' @ w @ ''}'' @ q)"

lemma is_word_braces [simp]: "\<not> is_word (CHR ''{'')" "\<not> is_word (CHR ''}'')"
  by (simp_all add: is_word_def)

lemma takeWhile_word: "list_all is_word w \<Longrightarrow> takeWhile is_word (w @ CHR ''}'' # q) = w"
  by (induction w) auto

lemma dropWhile_word:
  "list_all is_word w \<Longrightarrow> dropWhile is_word (w @ CHR ''}'' # q) = CHR ''}'' # q"
  by (induction w) auto

lemma takeWhile_split:
  assumes "dropWhile P s = d # r"
  shows "s = takeWhile P s @ d # r"
  using assms by (metis takeWhile_dropWhile_id)

text \<open>One step of the scanner, for the two ways a scan can begin.\<close>

lemma placeholders_match:
  "slot_name w \<Longrightarrow> placeholders (CHR ''{'' # w @ CHR ''}'' # q) = w # placeholders q"
  by (simp add: takeWhile_word dropWhile_word slot_name_def Let_def)

lemma placeholders_step:
  "(\<exists>w q. s = w @ CHR ''}'' # q \<and> c = CHR ''{'' \<and> slot_name w
      \<and> placeholders (c # s) = w # placeholders q)
   \<or> placeholders (c # s) = placeholders s"
proof (cases "dropWhile is_word s")
  case (Cons d r)
  show ?thesis
  proof (cases "c = CHR ''{'' \<and> takeWhile is_word s \<noteq> [] \<and> d = CHR ''}''")
    case True
    then have "s = takeWhile is_word s @ CHR ''}'' # r"
      using Cons takeWhile_split by metis
    moreover have "slot_name (takeWhile is_word s)"
      using True by (auto simp: slot_name_def list_all_iff dest: set_takeWhileD)
    ultimately show ?thesis using True Cons by (auto simp: Let_def)
  qed (use Cons in \<open>auto simp: Let_def\<close>)
next
  case Nil
  then show ?thesis by (simp add: Let_def del: dropWhile_eq_Nil_conv)
qed

declare placeholders.simps(2) [simp del]

lemma placeholders_sound: "w \<in> set (placeholders t) \<Longrightarrow> slot_name w \<and> occurs_in w t"
proof (induction t rule: length_induct)
  case (1 t)
  show ?case
  proof (cases t)
    case (Cons c s)
    from placeholders_step [of s c] show ?thesis
    proof (elim disjE exE conjE)
      fix v q
      assume v: "s = v @ CHR ''}'' # q" "c = CHR ''{''" "slot_name v"
        and eq: "placeholders (c # s) = v # placeholders q"
      show ?thesis
      proof (cases "w = v")
        case True
        have "t = [] @ ''{'' @ w @ ''}'' @ q" using True v Cons by simp
        with True v show ?thesis unfolding occurs_in_def by blast
      next
        case False
        with 1(2) eq Cons have "w \<in> set (placeholders q)" by simp
        moreover have "length q < length t" using v Cons by simp
        ultimately have "slot_name w" "occurs_in w q" using 1(1) by blast+
        moreover from this obtain p q' where "q = p @ ''{'' @ w @ ''}'' @ q'"
          by (auto simp: occurs_in_def)
        then have "t = (''{'' @ v @ ''}'' @ p) @ ''{'' @ w @ ''}'' @ q'"
          using v Cons by simp
        ultimately show ?thesis unfolding occurs_in_def by blast
      qed
    next
      assume "placeholders (c # s) = placeholders s"
      then have "w \<in> set (placeholders s)" using 1(2) Cons by simp
      moreover have "length s < length t" using Cons by simp
      ultimately have "slot_name w" "occurs_in w s" using 1(1) by blast+
      moreover from this obtain p q where "s = p @ ''{'' @ w @ ''}'' @ q"
        by (auto simp: occurs_in_def)
      then have "t = (c # p) @ ''{'' @ w @ ''}'' @ q" using Cons by simp
      ultimately show ?thesis unfolding occurs_in_def by blast
    qed
  qed (use 1 in simp)
qed

text \<open>A match in front holds no opening brace, so it cannot overlap a later one.\<close>

lemma brace_behind_word:
  assumes "slot_name v" and "v @ CHR ''}'' # q = p @ CHR ''{'' # r"
  obtains p' where "q = p' @ CHR ''{'' # r"
proof -
  have no: "CHR ''{'' \<notin> set (v @ ''}'')"
    using assms(1) by (auto simp: slot_name_def list_all_iff)
  from assms(2) have "(v @ ''}'') @ q = p @ (CHR ''{'' # r)" by simp
  then obtain us where "v @ ''}'' = p @ us \<and> us @ q = CHR ''{'' # r
      \<or> (v @ ''}'') @ us = p \<and> q = us @ CHR ''{'' # r"
    by (meson append_eq_append_conv2)
  then show thesis
  proof (elim disjE conjE)
    assume us: "v @ ''}'' = p @ us" "us @ q = CHR ''{'' # r"
    from us(1) no have "CHR ''{'' \<notin> set us"
      by (metis Un_iff set_append)
    with us(2) have "q = [] @ CHR ''{'' # r" by (cases us) auto
    then show thesis by (rule that)
  qed (use that in blast)
qed

lemma placeholders_complete:
  assumes "slot_name w"
  shows "w \<in> set (placeholders (p @ ''{'' @ w @ ''}'' @ q))"
proof (induction "length p" arbitrary: p rule: less_induct)
  case less
  show ?case
  proof (cases p)
    case Nil
    then show ?thesis using placeholders_match [OF assms, of q] by simp
  next
    case (Cons c p1)
    let ?s = "p1 @ ''{'' @ w @ ''}'' @ q"
    from placeholders_step [of ?s c] show ?thesis
    proof (elim disjE exE conjE)
      fix v r
      assume s: "?s = v @ CHR ''}'' # r" "slot_name v"
        and eq: "placeholders (c # ?s) = v # placeholders r"
      from s obtain p2 where "r = p2 @ CHR ''{'' # w @ ''}'' @ q"
        using brace_behind_word [of v r p1 "w @ ''}'' @ q"] by auto
      moreover from this s have "length p2 < length p1"
        by (auto dest: arg_cong [where f = length])
      ultimately show ?thesis using less [of p2] eq Cons by simp
    qed (use less [of p1] Cons in simp)
  qed
qed

lemma set_placeholders: "set (placeholders t) = {w. slot_name w \<and> occurs_in w t}"
  using placeholders_sound placeholders_complete by (auto simp: occurs_in_def)

subsection \<open>Slot names are not blank\<close>

lemma trim_left_id: "space_len ws s = 0 \<Longrightarrow> trim_left ws s = s"
  by (simp add: trim_left.simps)

lemma space_len_word:
  assumes "is_word c"
  shows "space_len space_runes (c # s) = 0" and "space_len (map rev space_runes) (c # s) = 0"
proof -
  from assms have "\<not> HasPrefix (c # s) w" if "w \<in> set space_runes \<union> rev ` set space_runes" for w
    using that by (auto simp: space_runes_def HasPrefix_def is_word_def)
  then show "space_len space_runes (c # s) = 0" "space_len (map rev space_runes) (c # s) = 0"
    by (auto simp: space_len_pos space_runes_nonempty)
qed

lemma slot_name_not_blank: "slot_name w \<Longrightarrow> \<not> blank w"
proof -
  assume w: "slot_name w"
  then obtain c s where cs: "w = c # s" and "is_word c"
    by (cases w) (auto simp: slot_name_def)
  then have l: "trim_left space_runes w = w" by (simp add: trim_left_id space_len_word)
  from w obtain d r where dr: "rev w = d # r" and "is_word d"
    by (cases w rule: rev_cases) (auto simp: slot_name_def)
  then have "trim_left (map rev space_runes) (rev w) = rev w"
    by (simp add: trim_left_id space_len_word)
  with l w show "\<not> blank w" by (simp add: TrimSpace_def slot_name_def)
qed

subsection \<open>What validation accepts and reports\<close>

text \<open>The invariant of every prompt that passes: this is what the server promises to serve.\<close>

definition well_formed :: "string \<Rightarrow> string \<Rightarrow> string list \<Rightarrow> bool" where
  "well_formed uri template slots \<longleftrightarrow>
     \<not> blank uri \<and> \<not> blank template \<and> set slots = {w. slot_name w \<and> occurs_in w template}"

lemma sort_filter_Nil: "sort (filter P (remdups xs)) = [] \<longleftrightarrow> (\<forall>x \<in> set xs. \<not> P x)"
  by (metis filter_empty_conv set_empty set_remdups set_sort)

lemma validate_None_iff:
  "validate_Prompt uri template slots = None \<longleftrightarrow> well_formed uri template slots"
proof -
  have "list_ex blank slots \<Longrightarrow> set slots \<noteq> {w. slot_name w \<and> occurs_in w template}"
    using slot_name_not_blank by (auto simp: list_ex_iff)
  then show ?thesis
    by (auto simp: validate_Prompt_def well_formed_def Let_def sort_filter_Nil set_placeholders
        simp del: set_sort)
qed

lemma validate_undeclared:
  assumes "validate_Prompt uri template slots = Some (UndeclaredSlots ss)"
  shows "ss \<noteq> [] \<and> sorted ss \<and> distinct ss
    \<and> set ss = {w. slot_name w \<and> occurs_in w template} - set slots"
  using assms
  by (auto simp: validate_Prompt_def Let_def set_placeholders split: if_splits)

lemma validate_unused:
  assumes "validate_Prompt uri template slots = Some (UnusedSlots ss)"
  shows "ss \<noteq> [] \<and> sorted ss \<and> distinct ss
    \<and> set ss = set slots - {w. slot_name w \<and> occurs_in w template}"
  using assms
  by (auto simp: validate_Prompt_def Let_def set_placeholders split: if_splits)

lemma well_formed_slot_name: "well_formed uri template slots \<Longrightarrow> s \<in> set slots \<Longrightarrow> slot_name s"
  by (auto simp: well_formed_def)

subsection \<open>The promise of validation\<close>

text \<open>C9: validation accepts exactly the well-formed prompts: URI and template are not blank, and the
  declared slots are the names \<open>w\<close> (one word character or more) for which \<open>{w}\<close> occurs in the
  template, no more and no less.\<close>

theorem accepts_exactly_well_formed:
  "validate_Prompt uri template slots = None \<longleftrightarrow>
     \<not> blank uri \<and> \<not> blank template
     \<and> set slots = {w. w \<noteq> [] \<and> list_all is_word w \<and> (\<exists>p q. template = p @ ''{'' @ w @ ''}'' @ q)}"
  unfolding validate_None_iff well_formed_def slot_name_def occurs_in_def by simp

text \<open>A rejected prompt is told the complete list of offending names, sorted and without
  repetition: the names used and not declared if there are any, otherwise the names declared and not
  used.\<close>

theorem rejection_is_complete:
  assumes "\<not> blank uri" and "\<not> blank template" and "\<forall>s \<in> set slots. \<not> blank s"
    and "validate_Prompt uri template slots = Some er"
  shows "\<exists>ss. sorted ss \<and> distinct ss \<and> ss \<noteq> [] \<and>
    (er = UndeclaredSlots ss \<and> set ss = {w. slot_name w \<and> occurs_in w template} - set slots
     \<or> er = UnusedSlots ss \<and> {w. slot_name w \<and> occurs_in w template} \<subseteq> set slots
       \<and> set ss = set slots - {w. slot_name w \<and> occurs_in w template})"
proof (cases er)
  case (UndeclaredSlots ss)
  with assms(4) validate_undeclared show ?thesis by blast
next
  case (UnusedSlots ss)
  with assms(4) have "{w. slot_name w \<and> occurs_in w template} \<subseteq> set slots"
    by (auto simp: validate_Prompt_def Let_def sort_filter_Nil set_placeholders split: if_splits)
  with UnusedSlots assms(4) validate_unused show ?thesis by blast
qed (use assms in \<open>auto simp: validate_Prompt_def Let_def list_ex_iff split: if_splits\<close>)

theorem rejection_is_complete_witness:
  "validate_Prompt ''u'' ''{b} {a} {b}'' [''c''] = Some (UndeclaredSlots [''a'', ''b''])
   \<and> {w. slot_name w \<and> occurs_in w ''{b} {a} {b}''} - {''c''} = {''a'', ''b''}"
proof -
  have v: "validate_Prompt ''u'' ''{b} {a} {b}'' [''c''] = Some (UndeclaredSlots [''a'', ''b''])"
    and "\<not> blank ''u''" "\<not> blank ''{b} {a} {b}''" "\<forall>s \<in> set [''c'']. \<not> blank s"
    by code_simp+
  then show ?thesis
    using rejection_is_complete [OF _ _ _ v] by auto
qed

lemma example_valid: "validate_Prompt ''promptnet://acme/a'' ''Hi {n}'' [''n''] = None"
  by code_simp

end
