(* ===== verification/Codec.thy ===== *)
theory Codec
  imports GoStrings
begin

text \<open>
  The encoders of Go's standard library that the store's columns go through: UTF-8 runes,
  \<open>encoding/json\<close> on a slice of strings, \<open>encoding/base64\<close>. They share one contract, the
  locale \<open>codec\<close>: decoding what was encoded gives it back.
\<close>

subsection \<open>The contract\<close>

locale codec =
  fixes enc :: "'a \<Rightarrow> string" and dec :: "string \<Rightarrow> 'a option" and ok :: "'a \<Rightarrow> bool"
  assumes roundtrip: "ok x \<Longrightarrow> dec (enc x) = Some x"
begin

lemma enc_inj: "ok x \<Longrightarrow> ok y \<Longrightarrow> enc x = enc y \<longleftrightarrow> x = y"
  by (metis option.inject roundtrip)

lemma dec_Some: "ok x \<Longrightarrow> dec (enc x) = Some y \<Longrightarrow> y = x"
  by (simp add: roundtrip)

end

text \<open>Encoding what another codec produced, as the store seals the JSON of the slots.\<close>

locale codec_chain =
  outer: codec enc dec ok + inner: codec enc' dec' ok'
  for enc :: "string \<Rightarrow> string" and dec ok and enc' :: "'a \<Rightarrow> string" and dec' ok'
begin

lemma chain_roundtrip:
  "ok' x \<Longrightarrow> ok (enc' x) \<Longrightarrow> Option.bind (dec (enc (enc' x))) dec' = Some x"
  by (simp add: outer.roundtrip inner.roundtrip)

end

sublocale codec_chain \<subseteq> chain: codec "\<lambda>x. enc (enc' x)" "\<lambda>s. Option.bind (dec s) dec'"
    "\<lambda>x. ok' x \<and> ok (enc' x)"
  by unfold_locales (simp add: chain_roundtrip)

subsection \<open>UTF-8\<close>

definition byte :: "char \<Rightarrow> int" where
  "byte c = of_char c"

lemma byte_bounds: "0 \<le> byte c" "byte c < 256"
  unfolding byte_def
  by (metis of_nat_0_le_iff of_nat_of_char, metis nat_of_char_less_256 of_nat_less_numeral_iff of_nat_of_char)

lemma byte_char_of [simp]: "0 \<le> n \<Longrightarrow> n < 256 \<Longrightarrow> byte (char_of n) = n"
  by (simp add: byte_def)

lemma char_of_byte [simp]: "char_of (byte c) = c"
  by (simp add: byte_def)

lemma byte_eq_iff: "byte c = byte d \<longleftrightarrow> c = d"
  by (metis char_of_byte)

definition cont_byte :: "char \<Rightarrow> bool" where
  "cont_byte c \<longleftrightarrow> 0x80 \<le> byte c \<and> byte c \<le> 0xBF"

text \<open>The range of the second byte of a sequence, which excludes overlong forms, surrogates
  and code points above \<open>0x10FFFF\<close>.\<close>

definition second_ok :: "int \<Rightarrow> char \<Rightarrow> bool" where
  "second_ok x c \<longleftrightarrow> cont_byte c \<and>
     (x = 0xE0 \<longrightarrow> 0xA0 \<le> byte c) \<and> (x = 0xED \<longrightarrow> byte c \<le> 0x9F) \<and>
     (x = 0xF0 \<longrightarrow> 0x90 \<le> byte c) \<and> (x = 0xF4 \<longrightarrow> byte c \<le> 0x8F)"

text \<open>\<open>utf8.DecodeRune\<close>: the rune at the head and its width, \<open>None\<close> for an invalid
  encoding (which Go reads as \<open>RuneError\<close> of width 1).\<close>

fun decode_rune :: "string \<Rightarrow> (int \<times> nat) option" where
  "decode_rune [] = None"
| "decode_rune (a # s) =
     (let x = byte a in
      if x < 0x80 then Some (x, 1)
      else if 0xC2 \<le> x \<and> x \<le> 0xDF then
        (case s of b # _ \<Rightarrow>
           if cont_byte b then Some ((x - 0xC0) * 64 + (byte b - 0x80), 2) else None
         | _ \<Rightarrow> None)
      else if 0xE0 \<le> x \<and> x \<le> 0xEF then
        (case s of b # c # _ \<Rightarrow>
           if second_ok x b \<and> cont_byte c
           then Some ((x - 0xE0) * 4096 + (byte b - 0x80) * 64 + (byte c - 0x80), 3) else None
         | _ \<Rightarrow> None)
      else if 0xF0 \<le> x \<and> x \<le> 0xF4 then
        (case s of b # c # d # _ \<Rightarrow>
           if second_ok x b \<and> cont_byte c \<and> cont_byte d
           then Some ((x - 0xF0) * 262144 + (byte b - 0x80) * 4096 + (byte c - 0x80) * 64
                        + (byte d - 0x80), 4)
           else None
         | _ \<Rightarrow> None)
      else None)"

lemma decode_rune_width:
  "decode_rune s = Some (r, n) \<Longrightarrow> 0 < n \<and> n \<le> length s"
  by (cases s) (auto simp: Let_def split: if_splits list.splits)

lemma decode_rune_append:
  "decode_rune s = Some (r, n) \<Longrightarrow> decode_rune (take n s @ t) = Some (r, n)"
  by (cases s) (auto simp: Let_def split: if_splits list.splits)

declare decode_rune.simps(2) [simp del]

text \<open>\<open>utf8.EncodeRune\<close>; surrogates and out-of-range values become U+FFFD.\<close>

definition rune_error :: string where
  "rune_error = [CHR 0xEF, CHR 0xBF, CHR 0xBD]"

definition encode_rune :: "int \<Rightarrow> string" where
  "encode_rune r =
     (if 0 \<le> r \<and> r < 0x80 then [char_of r]
      else if 0 \<le> r \<and> r < 0x800 then [char_of (0xC0 + r div 64), char_of (0x80 + r mod 64)]
      else if r < 0 \<or> 0xD800 \<le> r \<and> r \<le> 0xDFFF \<or> 0x10FFFF < r then rune_error
      else if r < 0x10000 then
        [char_of (0xE0 + r div 4096), char_of (0x80 + r div 64 mod 64), char_of (0x80 + r mod 64)]
      else [char_of (0xF0 + r div 262144), char_of (0x80 + r div 4096 mod 64),
            char_of (0x80 + r div 64 mod 64), char_of (0x80 + r mod 64)])"

function valid_utf8 :: "string \<Rightarrow> bool" where
  "valid_utf8 s = (s = [] \<or>
     (case decode_rune s of None \<Rightarrow> False | Some (r, n) \<Rightarrow> valid_utf8 (drop n s)))"
  by pat_completeness auto
termination
  by (relation "measure length") (auto dest: decode_rune_width)

declare valid_utf8.simps [simp del]

lemma valid_utf8_Nil [simp]: "valid_utf8 []"
  by (simp add: valid_utf8.simps)

lemma ascii_valid_utf8: "list_all (\<lambda>c. byte c < 0x80) s \<Longrightarrow> valid_utf8 s"
  by (induction s) (simp_all add: valid_utf8.simps [of "_ # _"] decode_rune.simps Let_def)

subsection \<open>JSON of a slice of strings\<close>

definition quote_char :: char where "quote_char = CHR 0x22"
definition backslash :: char where "backslash = CHR 0x5C"

text \<open>How \<open>json.Marshal\<close> writes a byte below \<open>0x80\<close> (with HTML escaping, its default).\<close>

definition hex_digit :: "int \<Rightarrow> char" where
  "hex_digit n = hex_digits ! nat n"

definition json_escape :: "char \<Rightarrow> string" where
  "json_escape c =
     (if c = quote_char \<or> c = backslash then [backslash, c]
      else if byte c = 8 then [backslash, CHR ''b'']
      else if byte c = 12 then [backslash, CHR ''f'']
      else if byte c = 10 then [backslash, CHR ''n'']
      else if byte c = 13 then [backslash, CHR ''r'']
      else if byte c = 9 then [backslash, CHR ''t'']
      else if byte c < 0x20 \<or> c = CHR ''<'' \<or> c = CHR ''>'' \<or> c = CHR ''&''
      then [backslash, CHR ''u'', CHR ''0'', CHR ''0'', hex_digit (byte c div 16), hex_digit (byte c mod 16)]
      else [c])"

function json_body :: "string \<Rightarrow> string" where
  "json_body [] = []"
| "json_body (c # s) =
     (if byte c < 0x80 then json_escape c @ json_body s
      else case decode_rune (c # s) of
        None \<Rightarrow> backslash # ''ufffd'' @ json_body s
      | Some (r, n) \<Rightarrow>
          (if r = 0x2028 then backslash # ''u2028''
           else if r = 0x2029 then backslash # ''u2029''
           else take n (c # s)) @ json_body (drop n (c # s)))"
  by pat_completeness auto
termination
  by (relation "measure length") (auto dest!: decode_rune_width)

declare json_body.simps(2) [simp del]

definition json_string :: "string \<Rightarrow> string" where
  "json_string s = quote_char # json_body s @ [quote_char]"

text \<open>\<open>json.Marshal\<close> of a \<open>[]string\<close>. The program's empty slices are nil slices (a proto
  field, a flag list, a decoded \<open>null\<close>), which marshal as \<open>null\<close>.\<close>

definition json_marshal :: "string list \<Rightarrow> string" where
  "json_marshal ss =
     (if ss = [] then ''null'' else ''['' @ Join (map json_string ss) '','' @ '']'')"

text \<open>The decoder. White space of JSON, a hexadecimal escape, the one-letter escapes.\<close>

definition json_ws :: "string \<Rightarrow> string" where
  "json_ws s = dropWhile (\<lambda>c. c = CHR '' '' \<or> c = CHR 0x09 \<or> c = CHR 0x0A \<or> c = CHR 0x0D) s"

definition hex_val :: "char \<Rightarrow> int option" where
  "hex_val c = (let x = byte c in
     if 48 \<le> x \<and> x \<le> 57 then Some (x - 48)
     else if 97 \<le> x \<and> x \<le> 102 then Some (x - 87)
     else if 65 \<le> x \<and> x \<le> 70 then Some (x - 55)
     else None)"

fun hex4 :: "string \<Rightarrow> (int \<times> string) option" where
  "hex4 (a # b # c # d # s) =
     (case (hex_val a, hex_val b, hex_val c, hex_val d) of
        (Some x, Some y, Some z, Some w) \<Rightarrow> Some (((x * 16 + y) * 16 + z) * 16 + w, s)
      | _ \<Rightarrow> None)"
| "hex4 _ = None"

definition json_unescape :: "char \<Rightarrow> char option" where
  "json_unescape e =
     (if e = quote_char \<or> e = backslash \<or> e = CHR ''/'' then Some e
      else if e = CHR ''b'' then Some (CHR 0x08)
      else if e = CHR ''f'' then Some (CHR 0x0C)
      else if e = CHR ''n'' then Some (CHR 0x0A)
      else if e = CHR ''r'' then Some (CHR 0x0D)
      else if e = CHR ''t'' then Some (CHR 0x09)
      else None)"

text \<open>After \<open>\uXXXX\<close> with value \<open>r\<close>: a surrogate that starts a valid pair takes the second
  escape with it, a lone one becomes U+FFFD.\<close>

definition json_unicode :: "int \<Rightarrow> string \<Rightarrow> string \<times> string" where
  "json_unicode r s =
     (if r < 0xD800 \<or> 0xE000 \<le> r then (encode_rune r, s)
      else case s of
        b # u # s' \<Rightarrow>
          (case (if b = backslash \<and> u = CHR ''u'' then hex4 s' else None) of
             Some (r1, s'') \<Rightarrow>
               if r < 0xDC00 \<and> 0xDC00 \<le> r1 \<and> r1 < 0xE000
               then (encode_rune ((r - 0xD800) * 1024 + (r1 - 0xDC00) + 0x10000), s'')
               else (rune_error, s)
           | None \<Rightarrow> (rune_error, s))
      | _ \<Rightarrow> (rune_error, s))"

definition json_pre :: "string \<Rightarrow> (string \<times> string) option \<Rightarrow> (string \<times> string) option" where
  "json_pre p r = map_option (\<lambda>(x, s). (p @ x, s)) r"

lemma hex4_length: "hex4 s = Some (r, t) \<Longrightarrow> length t < length s"
  by (cases s rule: hex4.cases) (auto split: option.splits)

lemma json_unicode_length: "length (snd (json_unicode r s)) \<le> length s"
  by (auto simp: json_unicode_def dest!: hex4_length split: list.splits option.splits)

text \<open>One item of a string's content: an escape, a byte or a rune; what it decodes to and
  what follows it. A control byte, a truncated or an unknown escape is an error.\<close>

definition json_item :: "string \<Rightarrow> (string \<times> string) option" where
  "json_item s =
     (case s of [] \<Rightarrow> None
      | c # t \<Rightarrow>
        if c = backslash then
          (case t of [] \<Rightarrow> None
           | e # t' \<Rightarrow>
              (case json_unescape e of
                 Some d \<Rightarrow> Some ([d], t')
               | None \<Rightarrow>
                   if e = CHR ''u''
                   then map_option (\<lambda>(r, t''). json_unicode r t'') (hex4 t')
                   else None))
        else if byte c < 0x20 then None
        else if byte c < 0x80 then Some ([c], t)
        else (case decode_rune s of
                None \<Rightarrow> Some (rune_error, t)
              | Some (r, n) \<Rightarrow> Some (take n s, drop n s)))"

lemma json_item_length: "json_item s = Some (p, r) \<Longrightarrow> length r < length s"
proof (cases s)
  case (Cons c t)
  assume "json_item s = Some (p, r)"
  moreover have "hex4 t' = Some (x, t'') \<Longrightarrow> json_unicode x t'' = (p, r) \<Longrightarrow> length r < length t'"
    for t' x t''
    using hex4_length [of t' x t''] json_unicode_length [of x t''] by simp
  ultimately show ?thesis
    using Cons
    by (auto simp: json_item_def less_Suc_eq dest: decode_rune_width
        split: if_splits list.splits option.splits)
qed (simp add: json_item_def)

text \<open>The content of a string behind its opening quote, and what follows the closing one.\<close>

function json_str :: "string \<Rightarrow> (string \<times> string) option" where
  "json_str s =
     (case s of [] \<Rightarrow> None
      | c # t \<Rightarrow> if c = quote_char then Some ([], t)
         else (case json_item s of None \<Rightarrow> None
               | Some (p, r) \<Rightarrow> json_pre p (json_str r)))"
  by pat_completeness auto
termination
  by (relation "measure length") (auto dest: json_item_length)

declare json_str.simps [simp del]

lemma json_str_length: "json_str s = Some (x, t) \<Longrightarrow> length t < length s"
proof (induction s arbitrary: x t rule: json_str.induct)
  case (1 s)
  show ?case
  proof (cases s)
    case (Cons c u)
    show ?thesis
    proof (cases "c = quote_char")
      case False
      with 1(2) Cons obtain p r y where "json_item s = Some (p, r)" "json_str r = Some (y, t)"
        by (auto simp: json_str.simps [of "c # u"] json_pre_def split: option.splits)
      with 1(1) Cons False json_item_length [of s p r] show ?thesis by fastforce
    qed (use 1(2) Cons in \<open>auto simp: json_str.simps [of "quote_char # u"]\<close>)
  qed (use 1(2) in \<open>simp add: json_str.simps\<close>)
qed

definition json_elem :: "string \<Rightarrow> (string \<times> string) option" where
  "json_elem s =
     (if HasPrefix s ''null'' then Some ([], drop 4 s)
      else case s of c # t \<Rightarrow> if c = quote_char then json_str t else None | [] \<Rightarrow> None)"

lemma json_elem_length: "json_elem s = Some (x, t) \<Longrightarrow> length t < length s"
  by (auto simp: json_elem_def HasPrefix_iff dest: json_str_length split: if_splits list.splits)

lemma json_ws_length: "length (json_ws s) \<le> length s"
  by (simp add: json_ws_def length_dropWhile_le)

text \<open>The elements of an array from the first one on, to the closing bracket and the end.\<close>

function json_elems :: "string \<Rightarrow> string list option" where
  "json_elems s =
     (case json_elem (json_ws s) of None \<Rightarrow> None
      | Some (x, t) \<Rightarrow>
         (case json_ws t of
            [] \<Rightarrow> None
          | c # u \<Rightarrow>
              if c = CHR '','' then map_option (Cons x) (json_elems u)
              else if c = CHR '']'' \<and> json_ws u = [] then Some [x]
              else None))"
  by pat_completeness auto
termination
proof (relation "measure length")
  fix s a x t c u
  assume "json_elem (json_ws s) = Some a" "(x, t) = a" "json_ws t = c # u"
  then show "(u, s) \<in> measure length"
    using json_elem_length [of "json_ws s" x t] json_ws_length [of s] json_ws_length [of t] by auto
qed simp

declare json_elems.simps [simp del]

text \<open>\<open>json.Unmarshal\<close> into a \<open>[]string\<close>: \<open>null\<close> gives the nil slice, a \<open>null\<close> element the
  empty string; a value of any other type is an error (\<open>None\<close>).\<close>

definition json_unmarshal :: "string \<Rightarrow> string list option" where
  "json_unmarshal s =
     (let s = json_ws s in
      if HasPrefix s ''null'' \<and> json_ws (drop 4 s) = [] then Some []
      else case s of
        c # t \<Rightarrow>
          if c = CHR ''['' then
            (case json_ws t of
               d # u \<Rightarrow> if d = CHR '']'' then (if json_ws u = [] then Some [] else None)
                        else json_elems t
             | [] \<Rightarrow> None)
          else None
      | [] \<Rightarrow> None)"

subsection \<open>The JSON round trip\<close>

text \<open>Re-encoding a decoded rune gives the bytes it was read from.\<close>

lemma digits_64:
  fixes a b :: int
  assumes "0 \<le> b" and "b < 64"
  shows "(a * 64 + b) div 64 = a" and "(a * 64 + b) mod 64 = b"
  using assms by (simp_all add: add.commute [of "a * 64"])

lemma add_of_diff: "a = b - c \<Longrightarrow> c + a = b" for a b c :: int
  by simp

text \<open>A rune of two, three or four bytes: its bits are those of its bytes, and the leading byte bounds
  it.\<close>

lemma encode_rune_2:
  assumes "0xC2 \<le> byte a" "byte a \<le> 0xDF" "cont_byte b"
    and r: "r = (byte a - 0xC0) * 64 + (byte b - 0x80)"
  shows "encode_rune r = [a, b]"
proof -
  from assms(3) have "0 \<le> byte b - 0x80" "byte b - 0x80 < 64" by (auto simp: cont_byte_def)
  then have "r div 64 = byte a - 0xC0" "r mod 64 = byte b - 0x80" unfolding r by (simp_all only: digits_64)
  moreover have "0x80 \<le> r" "r < 0x800" using assms(1-3) unfolding r by (auto simp: cont_byte_def)
  ultimately show ?thesis by (simp add: encode_rune_def Let_def)
qed

lemma encode_rune_3:
  assumes "0xE0 \<le> byte a" "byte a \<le> 0xEF" "second_ok (byte a) b" "cont_byte c"
    and r: "r = (byte a - 0xE0) * 4096 + (byte b - 0x80) * 64 + (byte c - 0x80)"
  shows "encode_rune r = [a, b, c]"
proof -
  from assms(3,4) have b: "0 \<le> byte b - 0x80" "byte b - 0x80 < 64" "0 \<le> byte c - 0x80" "byte c - 0x80 < 64"
    by (auto simp: cont_byte_def second_ok_def Let_def)
  have "r = ((byte a - 0xE0) * 64 + (byte b - 0x80)) * 64 + (byte c - 0x80)" unfolding r by simp
  with b have d1: "r div 64 = (byte a - 0xE0) * 64 + (byte b - 0x80)" "r mod 64 = byte c - 0x80"
    by (simp_all only: digits_64)
  from b have "r div 64 div 64 = byte a - 0xE0" and d2: "r div 64 mod 64 = byte b - 0x80"
    unfolding d1 by (simp_all only: digits_64)
  then have d3: "r div 4096 = byte a - 0xE0" by (simp flip: zdiv_zmult2_eq)
  moreover have "0x800 \<le> r \<and> r < 0x10000"
    using assms(1-4) unfolding r by (auto simp: cont_byte_def second_ok_def Let_def)
  moreover have "r < 0xD800 \<or> 0xDFFF < r"
  proof -
    consider "byte a \<le> 0xEC" | "byte a = 0xED" | "0xEE \<le> byte a" by linarith
    then show ?thesis
      using b assms(3,4) unfolding r by cases (auto simp: second_ok_def Let_def)
  qed
  ultimately show ?thesis using d1(2) d2 by (auto simp: encode_rune_def Let_def)
qed

lemma rune_4_bounds:
  assumes "0xF0 \<le> byte a" "byte a \<le> 0xF4" "second_ok (byte a) b" "cont_byte c" "cont_byte d"
    and r: "r = (byte a - 0xF0) * 262144 + (byte b - 0x80) * 4096 + (byte c - 0x80) * 64 + (byte d - 0x80)"
  shows "0x10000 \<le> r" and "r \<le> 0x10FFFF"
proof -
  from assms(3-5) have b: "0 \<le> byte b - 0x80" "byte b - 0x80 < 64" "0 \<le> byte c - 0x80" "byte c - 0x80 < 64"
    "0 \<le> byte d - 0x80" "byte d - 0x80 < 64"
    by (auto simp: cont_byte_def second_ok_def Let_def)
  show "0x10000 \<le> r"
  proof (cases "byte a = 0xF0")
    case True
    with assms(3) b show ?thesis unfolding r by (simp add: second_ok_def Let_def)
  next
    case False
    with assms(1) have "0xF1 \<le> byte a" by linarith
    with b show ?thesis unfolding r by simp
  qed
  show "r \<le> 0x10FFFF"
  proof (cases "byte a = 0xF4")
    case True
    with assms(3) b show ?thesis unfolding r by (simp add: second_ok_def Let_def)
  next
    case False
    with assms(2) have "byte a \<le> 0xF3" by linarith
    with b show ?thesis unfolding r by simp
  qed
qed

lemma encode_rune_4:
  assumes "0xF0 \<le> byte a" "byte a \<le> 0xF4" "second_ok (byte a) b" "cont_byte c" "cont_byte d"
    and r: "r = (byte a - 0xF0) * 262144 + (byte b - 0x80) * 4096 + (byte c - 0x80) * 64 + (byte d - 0x80)"
  shows "encode_rune r = [a, b, c, d]"
proof -
  from assms(3-5) have b: "0 \<le> byte b - 0x80" "byte b - 0x80 < 64" "0 \<le> byte c - 0x80" "byte c - 0x80 < 64"
    "0 \<le> byte d - 0x80" "byte d - 0x80 < 64"
    by (auto simp: cont_byte_def second_ok_def Let_def)
  have "r = (((byte a - 0xF0) * 64 + (byte b - 0x80)) * 64 + (byte c - 0x80)) * 64 + (byte d - 0x80)"
    unfolding r by simp
  with b have d1: "r div 64 = ((byte a - 0xF0) * 64 + (byte b - 0x80)) * 64 + (byte c - 0x80)"
    "r mod 64 = byte d - 0x80" by (simp_all only: digits_64)
  from b have d2: "r div 64 div 64 = (byte a - 0xF0) * 64 + (byte b - 0x80)"
    "r div 64 mod 64 = byte c - 0x80" unfolding d1 by (simp_all only: digits_64)
  from b have "r div 64 div 64 div 64 = byte a - 0xF0" "r div 64 div 64 mod 64 = byte b - 0x80"
    unfolding d2(1) by (simp_all only: digits_64)
  then have d3: "r div 262144 = byte a - 0xF0" "r div 4096 mod 64 = byte b - 0x80"
    by (simp_all flip: zdiv_zmult2_eq)
  note e = add_of_diff [OF d3(1)] add_of_diff [OF d3(2)] add_of_diff [OF d2(2)] add_of_diff [OF d1(2)]
  from rune_4_bounds [OF assms] have "\<not> (0 \<le> r \<and> r < 0x80)" "\<not> (0 \<le> r \<and> r < 0x800)" "\<not> r < 0x10000"
    "\<not> (r < 0 \<or> 0xD800 \<le> r \<and> r \<le> 0xDFFF \<or> 0x10FFFF < r)"
    by linarith+
  then show ?thesis unfolding encode_rune_def Let_def by (simp only: if_False e char_of_byte)
qed

lemma encode_decode_rune:
  assumes "decode_rune s = Some (r, n)"
  shows "take n s = encode_rune r"
proof (cases s)
  case Nil
  with assms show ?thesis by simp
next
  case (Cons a t)
  note [simp] = Let_def
  let ?x = "byte a"
  consider "?x < 0x80" | "0xC2 \<le> ?x" "?x \<le> 0xDF" | "0xE0 \<le> ?x" "?x \<le> 0xEF" | "0xF0 \<le> ?x" "?x \<le> 0xF4"
    using assms Cons by (fastforce simp: decode_rune.simps split: if_splits)
  then show ?thesis
  proof cases
    case 1
    with assms Cons byte_bounds [of a] show ?thesis
      by (auto simp: decode_rune.simps encode_rune_def)
  next
    case 2
    with assms Cons obtain b u where t: "t = b # u" "cont_byte b" "n = 2"
      and r: "r = (?x - 0xC0) * 64 + (byte b - 0x80)"
      by (auto simp: decode_rune.simps split: list.splits if_splits)
    from encode_rune_2 [OF 2 t(2) r] t Cons show ?thesis by simp
  next
    case 3
    with assms Cons obtain b c u where t: "t = b # c # u" "second_ok ?x b" "cont_byte c" "n = 3"
      and r: "r = (?x - 0xE0) * 4096 + (byte b - 0x80) * 64 + (byte c - 0x80)"
      by (auto simp: decode_rune.simps split: list.splits if_splits)
    from encode_rune_3 [OF 3 t(2,3) r] t Cons show ?thesis by simp
  next
    case 4
    with assms Cons obtain b c d u where t: "t = b # c # d # u" "second_ok ?x b" "cont_byte c"
      "cont_byte d" "n = 4"
      and r: "r = (?x - 0xF0) * 262144 + (byte b - 0x80) * 4096 + (byte c - 0x80) * 64 + (byte d - 0x80)"
      by (auto simp: decode_rune.simps split: list.splits if_splits)
    from encode_rune_4 [OF 4 t(2-4) r] t Cons show ?thesis by simp
  qed
qed

text \<open>What \<open>json_body\<close> writes for one byte or rune, \<open>json_item\<close> reads back.\<close>

lemma hex_val_digit:
  assumes "0 \<le> n" and "n < 16"
  shows "hex_val (hex_digit n) = Some n"
proof -
  have "list_all (\<lambda>k. hex_val (hex_digit k) = Some k) [0..15]" by code_simp
  then show ?thesis using assms by (simp add: list_all_iff)
qed

lemma byte_eq_char_of: "byte c = n \<Longrightarrow> c = char_of n"
  by auto

lemma json_item_hex:
  assumes "0 \<le> byte c" and "byte c < 0x80"
  shows "json_item (backslash # ''u00'' @ hex_digit (byte c div 16) # hex_digit (byte c mod 16) # t)
    = Some ([c], t)"
proof -
  have "json_unescape (CHR ''u'') = None"
    by (simp add: json_unescape_def quote_char_def backslash_def)
  moreover have "hex_val (CHR ''0'') = Some 0" by (simp add: hex_val_def byte_def)
  moreover have "hex_val (hex_digit (byte c div 16)) = Some (byte c div 16)"
    "hex_val (hex_digit (byte c mod 16)) = Some (byte c mod 16)"
    using assms by (intro hex_val_digit; simp)+
  moreover have "json_unicode (byte c) t = ([c], t)"
    using assms by (simp add: json_unicode_def encode_rune_def)
  ultimately show ?thesis by (simp add: json_item_def)
qed

lemma json_item_escape:
  assumes "byte c < 0x80"
  shows "json_item (json_escape c @ t) = Some ([c], t)"
proof -
  note [simp] = json_item_def json_escape_def json_unescape_def quote_char_def backslash_def
  consider "c \<in> {quote_char, backslash}" | "byte c \<in> {8, 12, 10, 13, 9}"
    | "c \<notin> {quote_char, backslash}" "byte c \<notin> {8, 12, 10, 13, 9}"
      "byte c < 0x20 \<or> c \<in> {CHR ''<'', CHR ''>'', CHR ''&''}"
    | "c \<noteq> backslash" "c \<noteq> quote_char" "0x20 \<le> byte c" "c \<notin> {CHR ''<'', CHR ''>'', CHR ''&''}"
    by fastforce
  then show ?thesis
  proof cases
    case 2
    then have "byte c \<in> byte ` {CHR 0x08, CHR 0x0C, CHR 0x0A, CHR 0x0D, CHR 0x09}"
      by (simp add: byte_def)
    then have "c \<in> {CHR 0x08, CHR 0x0C, CHR 0x0A, CHR 0x0D, CHR 0x09}"
      by (auto simp: byte_eq_iff)
    then show ?thesis by (elim insertE emptyE; simp add: byte_def)
  next
    case 3
    then have "json_escape c @ t
        = backslash # ''u00'' @ hex_digit (byte c div 16) # hex_digit (byte c mod 16) # t"
      by auto
    then show ?thesis using json_item_hex [OF byte_bounds(1) assms] by metis
  qed (use assms in auto)
qed

lemma json_str_item:
  assumes "json_item s = Some (p, r)" and "hd s \<noteq> quote_char"
  shows "json_str s = json_pre p (json_str r)"
proof -
  from assms(1) obtain c t where "s = c # t" by (cases s) (auto simp: json_item_def)
  with assms show ?thesis by (simp add: json_str.simps [of "c # t"])
qed

lemma hd_json_escape: "json_escape c = d # u \<Longrightarrow> d \<noteq> quote_char"
  by (auto simp: json_escape_def quote_char_def backslash_def split: if_splits)

lemma json_escape_Cons: "\<exists>d u. json_escape c = d # u"
  by (auto simp: json_escape_def)

text \<open>The same for a rune outside ASCII, copied or escaped.\<close>

definition json_rune :: "int \<Rightarrow> string \<Rightarrow> string" where
  "json_rune r w = (if r = 0x2028 then backslash # ''u2028''
     else if r = 0x2029 then backslash # ''u2029'' else w)"

lemma json_item_rune:
  assumes d: "decode_rune (c # s) = Some (r, n)" and c: "\<not> byte c < 0x80"
  shows "json_item (json_rune r (take n (c # s)) @ t) = Some (take n (c # s), t)"
proof -
  have w: "0 < n" "n \<le> length (c # s)" using decode_rune_width [OF d] by auto
  have enc: "take n (c # s) = encode_rune r" by (rule encode_decode_rune [OF d])
  consider "r = 0x2028" | "r = 0x2029" | "r \<noteq> 0x2028" "r \<noteq> 0x2029" by blast
  then show ?thesis
  proof cases
    case 3
    obtain m where m: "n = Suc m" using w by (cases n) auto
    have "c \<noteq> backslash" using c by (auto simp: backslash_def byte_def)
    then show ?thesis
      using 3 c w m decode_rune_append [OF d, of t] by (simp add: json_item_def json_rune_def)
  qed (unfold enc, simp_all add: json_rune_def json_item_def json_unescape_def quote_char_def
      backslash_def hex_val_def byte_def json_unicode_def encode_rune_def)
qed

lemma json_str_body:
  "valid_utf8 s \<Longrightarrow> json_str (json_body s @ quote_char # t) = Some (s, t)"
proof (induction s rule: json_body.induct)
  case 1
  show ?case by (simp add: json_str.simps)
next
  case (2 c s)
  show ?case
  proof (cases "byte c < 0x80")
    case True
    obtain d u where du: "json_escape c = d # u" using json_escape_Cons by blast
    have "valid_utf8 s" using 2(4) True by (simp add: valid_utf8.simps [of "c # s"] decode_rune.simps)
    then have "json_str (json_body s @ quote_char # t) = Some (s, t)" using 2(1) True by blast
    with json_str_item [OF json_item_escape [OF True]] hd_json_escape [OF du] True du
    show ?thesis by (simp add: json_body.simps json_pre_def)
  next
    case False
    obtain r n where d: "decode_rune (c # s) = Some (r, n)" and v: "valid_utf8 (drop n (c # s))"
      using 2(4) by (auto simp: valid_utf8.simps [of "c # s"] split: option.splits)
    let ?w = "json_rune r (take n (c # s))"
    have "hd (?w @ x) \<noteq> quote_char" for x
      using decode_rune_width [OF d] False
      by (cases n) (auto simp: json_rune_def quote_char_def backslash_def byte_def)
    moreover have "json_body (c # s) = ?w @ json_body (drop n (c # s))"
      using False d by (simp add: json_body.simps json_rune_def)
    moreover have "json_str (json_body (drop n (c # s)) @ quote_char # t) = Some (drop n (c # s), t)"
      using 2(3) [OF False d refl v] .
    ultimately show ?thesis
      by (simp add: json_str_item [OF json_item_rune [OF d False]] json_pre_def)
  qed
qed

lemma json_ws_quote [simp]: "json_ws (quote_char # s) = quote_char # s"
  by (simp add: json_ws_def quote_char_def)

lemma json_elem_string: "valid_utf8 s \<Longrightarrow> json_elem (json_string s @ t) = Some (s, t)"
proof -
  assume s: "valid_utf8 s"
  have "quote_char \<noteq> CHR ''n''" by (simp add: quote_char_def)
  with s show ?thesis by (simp add: json_elem_def json_string_def json_str_body HasPrefix_def)
qed

lemma json_elems_Join:
  assumes "ss \<noteq> []" and "list_all valid_utf8 ss"
  shows "json_elems (Join (map json_string ss) '','' @ '']'') = Some ss"
  using assms
proof (induction ss rule: list_nonempty_induct)
  case (single x)
  then have "json_elem (json_string x @ '']'') = Some (x, '']'')" by (simp add: json_elem_string)
  moreover have "json_ws (json_string x @ '']'') = json_string x @ '']''"
    by (simp add: json_string_def)
  ultimately show ?case by (simp add: json_elems.simps json_ws_def)
next
  case (cons x xs)
  let ?t = "CHR '','' # Join (map json_string xs) '','' @ '']''"
  from cons have "json_elem (json_string x @ ?t) = Some (x, ?t)" by (simp add: json_elem_string)
  moreover have "json_ws (json_string x @ ?t) = json_string x @ ?t"
    by (simp add: json_string_def)
  moreover have "json_elems (Join (map json_string xs) '','' @ '']'') = Some xs"
    using cons by simp
  ultimately show ?case
    using cons by (simp add: Join_Cons json_elems.simps [of "json_string x @ _"] json_ws_def)
qed

lemma json_roundtrip: "list_all valid_utf8 ss \<Longrightarrow> json_unmarshal (json_marshal ss) = Some ss"
proof (cases ss)
  case Nil
  then show ?thesis by (simp add: json_marshal_def json_unmarshal_def json_ws_def HasPrefix_def)
next
  case (Cons x xs)
  assume ok: "list_all valid_utf8 ss"
  have "\<exists>u. Join (map json_string ss) '','' @ '']'' = quote_char # u"
    using Cons by (simp add: Join_Cons json_string_def)
  then obtain u where u: "Join (map json_string ss) '','' @ '']'' = quote_char # u" by blast
  have "json_elems (quote_char # u) = Some ss"
    using json_elems_Join [of ss] ok Cons u by simp
  then show ?thesis
    using Cons u by (simp add: json_marshal_def json_unmarshal_def json_ws_def HasPrefix_def Let_def
        quote_char_def)
qed

interpretation json_slots: codec json_marshal json_unmarshal "list_all valid_utf8"
  by unfold_locales (rule json_roundtrip)

subsection \<open>Base64\<close>

definition b64_char :: "int \<Rightarrow> char" where
  "b64_char n = (if n < 26 then char_of (65 + n) else if n < 52 then char_of (71 + n)
     else if n < 62 then char_of (n - 4) else if n = 62 then CHR ''+'' else CHR ''/'')"

definition b64_val :: "char \<Rightarrow> int option" where
  "b64_val c = (let x = byte c in
     if 65 \<le> x \<and> x \<le> 90 then Some (x - 65)
     else if 97 \<le> x \<and> x \<le> 122 then Some (x - 71)
     else if 48 \<le> x \<and> x \<le> 57 then Some (x + 4)
     else if c = CHR ''+'' then Some 62 else if c = CHR ''/'' then Some 63 else None)"

text \<open>\<open>base64.StdEncoding.EncodeToString\<close>: three bytes to four characters, padded.\<close>

fun b64_encode :: "bytes \<Rightarrow> string" where
  "b64_encode [] = []"
| "b64_encode [a] =
     [b64_char (byte a div 4), b64_char (byte a mod 4 * 16), CHR ''='', CHR ''='']"
| "b64_encode [a, b] =
     [b64_char (byte a div 4), b64_char (byte a mod 4 * 16 + byte b div 16),
      b64_char (byte b mod 16 * 4), CHR ''='']"
| "b64_encode (a # b # c # s) =
     b64_char (byte a div 4) # b64_char (byte a mod 4 * 16 + byte b div 16)
       # b64_char (byte b mod 16 * 4 + byte c div 64) # b64_char (byte c mod 64) # b64_encode s"

text \<open>\<open>DecodeString\<close>: newlines are skipped, padding may stand at the end only, and the bits
  a padded group leaves over are not looked at.\<close>

fun b64_groups :: "string \<Rightarrow> bytes option" where
  "b64_groups [] = Some []"
| "b64_groups (a # b # c # d # s) =
     (case (b64_val a, b64_val b) of
        (Some x, Some y) \<Rightarrow>
          if d = CHR ''='' then
            (if s \<noteq> [] then None
             else if c = CHR ''='' then Some [char_of (x * 4 + y div 16)]
             else (case b64_val c of None \<Rightarrow> None
                   | Some z \<Rightarrow> Some [char_of (x * 4 + y div 16), char_of (y mod 16 * 16 + z div 4)]))
          else
            (case (b64_val c, b64_val d) of
               (Some z, Some w) \<Rightarrow>
                 map_option (\<lambda>r. char_of (x * 4 + y div 16) # char_of (y mod 16 * 16 + z div 4)
                                   # char_of (z mod 4 * 64 + w) # r) (b64_groups s)
             | _ \<Rightarrow> None)
      | _ \<Rightarrow> None)"
| "b64_groups s = None"

definition b64_decode :: "string \<Rightarrow> bytes option" where
  "b64_decode s = b64_groups (filter (\<lambda>c. c \<noteq> CHR 0x0A \<and> c \<noteq> CHR 0x0D) s)"

lemma b64_char_range:
  assumes "0 \<le> n" and "n < 64"
  shows "b64_val (b64_char n) = Some n" and "b64_char n \<noteq> CHR ''=''"
    and "b64_char n \<noteq> CHR 0x0A" and "b64_char n \<noteq> CHR 0x0D"
proof -
  consider "n < 26" | "26 \<le> n" "n < 52" | "52 \<le> n" "n < 62" | "n = 62" | "n = 63"
    using assms by linarith
  then have v: "b64_val (b64_char n) = Some n"
    using assms by cases (simp_all add: b64_val_def b64_char_def byte_def)
  have "b64_val (CHR ''='') = None" "b64_val (CHR 0x0A) = None" "b64_val (CHR 0x0D) = None"
    by (simp_all add: b64_val_def byte_def)
  with v show "b64_val (b64_char n) = Some n" "b64_char n \<noteq> CHR ''=''"
    "b64_char n \<noteq> CHR 0x0A" "b64_char n \<noteq> CHR 0x0D" by auto
qed

text \<open>The bytes of a group from its 6-bit digits.\<close>

lemma b64_digits:
  fixes x y z :: int
  assumes "0 \<le> x" "x < 256" "0 \<le> y" "y < 256" "0 \<le> z" "z < 256"
  shows "x div 4 * 4 + (x mod 4 * 16 + y div 16) div 16 = x"
    and "(x mod 4 * 16 + y div 16) mod 16 * 16 + (y mod 16 * 4 + z div 64) div 4 = y"
    and "(y mod 16 * 4 + z div 64) mod 4 * 64 + z mod 64 = z"
    and "x div 4 * 4 + (x mod 4 * 16) div 16 = x"
    and "(x mod 4 * 16 + y div 16) mod 16 * 16 + (y mod 16 * 4) div 4 = y"
    and "x div 4 < 64" "x mod 4 * 16 + y div 16 < 64" "y mod 16 * 4 + z div 64 < 64"
    and "x mod 4 * 16 < 64" "y mod 16 * 4 < 64"
proof -
  define q r where "q = y div 16" and "r = y mod 16"
  then have y: "y = q * 16 + r" "0 \<le> q" "q < 16" "0 \<le> r" "r < 16" using assms by auto
  define u v where "u = z div 64" and "v = z mod 64"
  then have z: "z = u * 64 + v" "0 \<le> u" "u < 4" "0 \<le> v" "v < 64" using assms by auto
  have a: "(x mod 4 * 16 + q) div 16 = x mod 4" "(x mod 4 * 16 + q) mod 16 = q"
    using y by simp_all
  have b: "(r * 4 + u) div 4 = r" "(r * 4 + u) mod 4 = u" using z by simp_all
  show "x div 4 * 4 + (x mod 4 * 16 + y div 16) div 16 = x"
    "(x mod 4 * 16 + y div 16) mod 16 * 16 + (y mod 16 * 4 + z div 64) div 4 = y"
    "(y mod 16 * 4 + z div 64) mod 4 * 64 + z mod 64 = z"
    "(x mod 4 * 16 + y div 16) mod 16 * 16 + (y mod 16 * 4) div 4 = y"
    using y z by (simp_all only: q_def [symmetric] r_def [symmetric] u_def [symmetric]
        v_def [symmetric] a b) simp_all
  show "x div 4 * 4 + (x mod 4 * 16) div 16 = x" by simp
  have "x mod 4 < 4" by simp
  show "x div 4 < 64" using assms by simp
  show "x mod 4 * 16 + y div 16 < 64" "x mod 4 * 16 < 64"
    using \<open>x mod 4 < 4\<close> y unfolding q_def [symmetric] by linarith+
  show "y mod 16 * 4 + z div 64 < 64" "y mod 16 * 4 < 64"
    using y z unfolding r_def [symmetric] u_def [symmetric] by linarith+
qed

lemma b64_no_newline: "\<forall>c \<in> set (b64_encode s). c \<noteq> CHR 0x0A \<and> c \<noteq> CHR 0x0D"
proof (induction s rule: b64_encode.induct)
  case (2 a)
  show ?case using byte_bounds [of a] by (simp add: b64_char_range b64_digits [where y = 0 and z = 0])
next
  case (3 a b)
  show ?case
    using byte_bounds [of a] byte_bounds [of b]
    by (simp add: b64_char_range b64_digits [where z = 0])
next
  case (4 a b c s)
  then show ?case
    using byte_bounds [of a] byte_bounds [of b] byte_bounds [of c]
    by (simp add: b64_char_range b64_digits)
qed simp

lemma b64_groups_encode: "b64_groups (b64_encode s) = Some s"
proof (induction s rule: b64_encode.induct)
  case (2 a)
  show ?case using byte_bounds [of a] by (simp add: b64_char_range b64_digits [where y = 0 and z = 0])
next
  case (3 a b)
  show ?case
    using byte_bounds [of a] byte_bounds [of b]
    by (simp add: b64_char_range b64_digits [where z = 0])
next
  case (4 a b c s)
  then show ?case
    using byte_bounds [of a] byte_bounds [of b] byte_bounds [of c]
    by (simp add: b64_char_range b64_digits)
qed simp

lemma b64_roundtrip: "b64_decode (b64_encode s) = Some s"
proof -
  have "filter (\<lambda>c. c \<noteq> CHR 0x0A \<and> c \<noteq> CHR 0x0D) (b64_encode s) = b64_encode s"
    using b64_no_newline [of s] by (simp add: filter_id_conv)
  then show ?thesis by (simp only: b64_decode_def b64_groups_encode)
qed

interpretation base64: codec b64_encode b64_decode "\<lambda>_. True"
  by unfold_locales (rule b64_roundtrip)

end
