(* ===== verification/Sha256.thy ===== *)
theory Sha256
  imports GoStrings "HOL-Library.Word"
begin

text \<open>
  Go's \<open>crypto/sha256\<close>, executable on 32-bit words: padding, message schedule, compression.
  The store only needs a digest of fixed length whose hexadecimal form can serve as a
  primary key, so its interface is the locale \<open>digest\<close>, which \<open>sha256\<close> provides. The
  store's definitions take the digest as an argument; no theorem needs its bits.
\<close>

unbundle bit_operations_syntax

subsection \<open>The interface\<close>

locale digest =
  fixes H :: "bytes \<Rightarrow> bytes"
  assumes digest_length: "length (H m) = 32"
begin

lemma hex_digest_length: "length (EncodeToString (H m)) = 64"
  by (simp add: digest_length)

lemma hex_digest_nonempty: "EncodeToString (H m) \<noteq> []"
  using hex_digest_length [of m] by force

lemma hex_digest_inj: "EncodeToString (H m) = EncodeToString (H m') \<longleftrightarrow> H m = H m'"
  by (rule EncodeToString_inj)

end

subsection \<open>The round function\<close>

type_synonym u32 = "32 word"

definition Ch :: "u32 \<Rightarrow> u32 \<Rightarrow> u32 \<Rightarrow> u32" where
  "Ch x y z = (x AND y) XOR (NOT x AND z)"

definition Maj :: "u32 \<Rightarrow> u32 \<Rightarrow> u32 \<Rightarrow> u32" where
  "Maj x y z = (x AND y) XOR (x AND z) XOR (y AND z)"

definition BSig0 :: "u32 \<Rightarrow> u32" where
  "BSig0 x = word_rotr 2 x XOR word_rotr 13 x XOR word_rotr 22 x"

definition BSig1 :: "u32 \<Rightarrow> u32" where
  "BSig1 x = word_rotr 6 x XOR word_rotr 11 x XOR word_rotr 25 x"

definition SSig0 :: "u32 \<Rightarrow> u32" where
  "SSig0 x = word_rotr 7 x XOR word_rotr 18 x XOR drop_bit 3 x"

definition SSig1 :: "u32 \<Rightarrow> u32" where
  "SSig1 x = word_rotr 17 x XOR word_rotr 19 x XOR drop_bit 10 x"

definition sha_K :: "u32 list" where
  "sha_K =
    [1116352408, 1899447441, 3049323471, 3921009573, 961987163, 1508970993, 2453635748, 2870763221,
     3624381080, 310598401, 607225278, 1426881987, 1925078388, 2162078206, 2614888103, 3248222580,
     3835390401, 4022224774, 264347078, 604807628, 770255983, 1249150122, 1555081692, 1996064986,
     2554220882, 2821834349, 2952996808, 3210313671, 3336571891, 3584528711, 113926993, 338241895,
     666307205, 773529912, 1294757372, 1396182291, 1695183700, 1986661051, 2177026350, 2456956037,
     2730485921, 2820302411, 3259730800, 3345764771, 3516065817, 3600352804, 4094571909, 275423344,
     430227734, 506948616, 659060556, 883997877, 958139571, 1322822218, 1537002063, 1747873779,
     1955562222, 2024104815, 2227730452, 2361852424, 2428436474, 2756734187, 3204031479, 3329325298]"

record sha_state =
  sa :: u32
  sb :: u32
  sc :: u32
  sd :: u32
  se :: u32
  sf :: u32
  sg :: u32
  sh :: u32

definition sha_init :: sha_state where
  "sha_init = \<lparr>sa = 0x6a09e667, sb = 0xbb67ae85, sc = 0x3c6ef372, sd = 0xa54ff53a,
     se = 0x510e527f, sf = 0x9b05688c, sg = 0x1f83d9ab, sh = 0x5be0cd19\<rparr>"

definition sha_round :: "sha_state \<Rightarrow> u32 \<times> u32 \<Rightarrow> sha_state" where
  "sha_round s kw =
     (let t1 = sh s + BSig1 (se s) + Ch (se s) (sf s) (sg s) + fst kw + snd kw;
          t2 = BSig0 (sa s) + Maj (sa s) (sb s) (sc s)
      in \<lparr>sa = t1 + t2, sb = sa s, sc = sb s, sd = sc s,
          se = sd s + t1, sf = se s, sg = sf s, sh = sg s\<rparr>)"

text \<open>The schedule, newest word first: word \<open>t\<close> is made from words \<open>t-2\<close>, \<open>t-7\<close>, \<open>t-15\<close>, \<open>t-16\<close>.\<close>

fun sha_extend :: "nat \<Rightarrow> u32 list \<Rightarrow> u32 list" where
  "sha_extend 0 ws = ws"
| "sha_extend (Suc n) ws =
     sha_extend n ((SSig1 (ws ! 1) + ws ! 6 + SSig0 (ws ! 14) + ws ! 15) # ws)"

definition sha_schedule :: "u32 list \<Rightarrow> u32 list" where
  "sha_schedule block = rev (sha_extend 48 (rev block))"

definition sha_add :: "sha_state \<Rightarrow> sha_state \<Rightarrow> sha_state" where
  "sha_add s t = \<lparr>sa = sa s + sa t, sb = sb s + sb t, sc = sc s + sc t, sd = sd s + sd t,
     se = se s + se t, sf = sf s + sf t, sg = sg s + sg t, sh = sh s + sh t\<rparr>"

definition sha_compress :: "sha_state \<Rightarrow> u32 list \<Rightarrow> sha_state" where
  "sha_compress s block = sha_add s (foldl sha_round s (zip sha_K (sha_schedule block)))"

subsection \<open>Bytes and words\<close>

definition be_word :: "char \<Rightarrow> char \<Rightarrow> char \<Rightarrow> char \<Rightarrow> u32" where
  "be_word a b c d = word_of_int (((of_char a * 256 + of_char b) * 256 + of_char c) * 256 + of_char d)"

fun words_of :: "bytes \<Rightarrow> u32 list" where
  "words_of (a # b # c # d # bs) = be_word a b c d # words_of bs"
| "words_of bs = []"

definition be_bytes :: "nat \<Rightarrow> int \<Rightarrow> bytes" where
  "be_bytes n x = rev (map (\<lambda>i. char_of (x div 256 ^ i)) [0..<n])"

definition sha_pad :: "bytes \<Rightarrow> bytes" where
  "sha_pad m = m @ [CHR 0x80] @ replicate ((119 - length m mod 64) mod 64) (CHR 0x00)
     @ be_bytes 8 (8 * int (length m))"

fun sha_blocks :: "nat \<Rightarrow> sha_state \<Rightarrow> u32 list \<Rightarrow> sha_state" where
  "sha_blocks 0 s ws = s"
| "sha_blocks (Suc n) s ws = sha_blocks n (sha_compress s (take 16 ws)) (drop 16 ws)"

definition sha_out :: "sha_state \<Rightarrow> bytes" where
  "sha_out s = concat (map (be_bytes 4 \<circ> uint)
     [sa s, sb s, sc s, sd s, se s, sf s, sg s, sh s])"

definition sha256 :: "bytes \<Rightarrow> bytes" where
  "sha256 m = (let p = sha_pad m in sha_out (sha_blocks (length p div 64) sha_init (words_of p)))"

lemma length_be_bytes [simp]: "length (be_bytes n x) = n"
  by (simp add: be_bytes_def)

lemma length_sha_pad: "64 dvd length (sha_pad m)"
proof -
  define q r where "q = length m div 64" and "r = length m mod 64"
  then have len: "length m = 64 * q + r" and "r < 64" by simp_all
  have "length (sha_pad m) = 64 * (q + (if r \<le> 55 then 1 else 2))"
  proof (cases "r \<le> 55")
    case True
    then have "(119 - r) mod 64 = ((55 - r) + 64) mod 64" by (intro arg_cong2 [where f = "(mod)"]) auto
    also have "\<dots> = 55 - r" using True by (simp only: mod_add_self2) simp
    finally show ?thesis using True len by (simp add: sha_pad_def flip: r_def)
  next
    case False
    then have "(119 - r) mod 64 = 119 - r" by (intro mod_less) simp
    then show ?thesis using False len \<open>r < 64\<close> by (simp add: sha_pad_def flip: r_def)
  qed
  then show ?thesis by simp
qed

lemma length_sha256: "length (sha256 m) = 32"
  by (simp add: sha256_def sha_out_def Let_def)

interpretation sha256: digest sha256
  by unfold_locales (rule length_sha256)

end
