(* ===== verification/AesGcm.thy ===== *)
theory AesGcm
  imports Codec Sha256
begin

text \<open>
  Go's \<open>crypto/aes\<close> and \<open>crypto/cipher\<close> as the store uses them: AES-256 in Galois/counter
  mode with a 12-byte nonce, no additional data and a 16-byte tag. The store sees an
  authenticated cipher through the record \<open>aead\<close> (Go's \<open>cipher.AEAD\<close>); the locale \<open>aead_scheme\<close>
  is what it relies on, and \<open>NewGCM\<close> provides it for every key.
\<close>

unbundle bit_operations_syntax

subsection \<open>The interface\<close>

record aead =
  NonceSize :: nat
  aead_Seal :: "bytes \<Rightarrow> bytes \<Rightarrow> bytes"
  aead_Open :: "bytes \<Rightarrow> bytes \<Rightarrow> bytes option"

text \<open>\<open>aead_Seal a nonce plain\<close> is \<open>a.Seal(nil, nonce, plain, nil)\<close>, and \<open>aead_Open a nonce ct\<close> is
  \<open>a.Open(nil, nonce, ct, nil)\<close> with \<open>None\<close> for its error. \<open>ok\<close> holds of the usable nonces.\<close>

locale aead_scheme =
  fixes a :: aead and ok :: "bytes \<Rightarrow> bool"
  assumes open_seal: "ok n \<Longrightarrow> aead_Open a n (aead_Seal a n p) = Some p"
    and nonce_size: "ok n \<Longrightarrow> length n = NonceSize a"
begin

lemma seal_inj: "ok n \<Longrightarrow> aead_Seal a n p = aead_Seal a n q \<longleftrightarrow> p = q"
  by (metis open_seal option.inject)

text \<open>A nonce put in front of its ciphertext is found again by its length.\<close>

lemma open_prefixed:
  assumes "ok n"
  shows "aead_Open a (take (NonceSize a) (n @ aead_Seal a n p)) (drop (NonceSize a) (n @ aead_Seal a n p))
    = Some p"
  using assms by (simp add: nonce_size open_seal flip: nonce_size)

end

subsection \<open>AES-256\<close>

type_synonym u8 = "8 word"

definition aes_sbox :: "u8 list" where
  "aes_sbox =
    [99, 124, 119, 123, 242, 107, 111, 197, 48, 1, 103, 43, 254, 215, 171, 118,
     202, 130, 201, 125, 250, 89, 71, 240, 173, 212, 162, 175, 156, 164, 114, 192,
     183, 253, 147, 38, 54, 63, 247, 204, 52, 165, 229, 241, 113, 216, 49, 21,
     4, 199, 35, 195, 24, 150, 5, 154, 7, 18, 128, 226, 235, 39, 178, 117,
     9, 131, 44, 26, 27, 110, 90, 160, 82, 59, 214, 179, 41, 227, 47, 132,
     83, 209, 0, 237, 32, 252, 177, 91, 106, 203, 190, 57, 74, 76, 88, 207,
     208, 239, 170, 251, 67, 77, 51, 133, 69, 249, 2, 127, 80, 60, 159, 168,
     81, 163, 64, 143, 146, 157, 56, 245, 188, 182, 218, 33, 16, 255, 243, 210,
     205, 12, 19, 236, 95, 151, 68, 23, 196, 167, 126, 61, 100, 93, 25, 115,
     96, 129, 79, 220, 34, 42, 144, 136, 70, 238, 184, 20, 222, 94, 11, 219,
     224, 50, 58, 10, 73, 6, 36, 92, 194, 211, 172, 98, 145, 149, 228, 121,
     231, 200, 55, 109, 141, 213, 78, 169, 108, 86, 244, 234, 101, 122, 174, 8,
     186, 120, 37, 46, 28, 166, 180, 198, 232, 221, 116, 31, 75, 189, 139, 138,
     112, 62, 181, 102, 72, 3, 246, 14, 97, 53, 87, 185, 134, 193, 29, 158,
     225, 248, 152, 17, 105, 217, 142, 148, 155, 30, 135, 233, 206, 85, 40, 223,
     140, 161, 137, 13, 191, 230, 66, 104, 65, 153, 45, 15, 176, 84, 187, 22]"

definition aes_sub :: "u8 \<Rightarrow> u8" where
  "aes_sub b = aes_sbox ! unat b"

definition xtime :: "u8 \<Rightarrow> u8" where
  "xtime b = push_bit 1 b XOR (if bit b 7 then 0x1b else 0)"

definition xor_bytes :: "u8 list \<Rightarrow> u8 list \<Rightarrow> u8 list" where
  "xor_bytes xs ys = map2 (\<lambda>x y. x XOR y) xs ys"

text \<open>The key schedule, newest word first: word \<open>i\<close> from words \<open>i-1\<close> and \<open>i-8\<close>.\<close>

definition aes_next_word :: "nat \<Rightarrow> u8 list list \<Rightarrow> u8 list" where
  "aes_next_word i ws =
     (let t = ws ! 0;
          t' = (if i mod 8 = 0
                then xor_bytes (map aes_sub (rotate1 t)) [push_bit (i div 8 - 1) 1, 0, 0, 0]
                else if i mod 8 = 4 then map aes_sub t else t)
      in xor_bytes (ws ! 7) t')"

fun chunks :: "nat \<Rightarrow> nat \<Rightarrow> 'a list \<Rightarrow> 'a list list" where
  "chunks 0 k xs = []"
| "chunks (Suc n) k xs = take k xs # chunks n k (drop k xs)"

definition aes_round_keys :: "u8 list \<Rightarrow> u8 list list" where
  "aes_round_keys key =
     chunks 15 16 (concat (rev (fold (\<lambda>i ws. aes_next_word i ws # ws) [8..<60] (rev (chunks 8 4 key)))))"

definition shift_rows :: "u8 list \<Rightarrow> u8 list" where
  "shift_rows s = map (\<lambda>i. s ! (i mod 4 + 4 * ((i div 4 + i mod 4) mod 4))) [0..<16]"

definition mix_column :: "u8 list \<Rightarrow> u8 list" where
  "mix_column c =
     (let f = (\<lambda>w x y z. xtime w XOR (xtime x XOR x) XOR y XOR z) in
      [f (c ! 0) (c ! 1) (c ! 2) (c ! 3), f (c ! 1) (c ! 2) (c ! 3) (c ! 0),
       f (c ! 2) (c ! 3) (c ! 0) (c ! 1), f (c ! 3) (c ! 0) (c ! 1) (c ! 2)])"

definition mix_columns :: "u8 list \<Rightarrow> u8 list" where
  "mix_columns s = concat (map mix_column (chunks 4 4 s))"

definition aes_encrypt :: "u8 list \<Rightarrow> u8 list \<Rightarrow> u8 list" where
  "aes_encrypt key block =
     (let ks = aes_round_keys key;
          s = xor_bytes block (ks ! 0);
          s = fold (\<lambda>i s. xor_bytes (mix_columns (shift_rows (map aes_sub s))) (ks ! i)) [1..<14] s
      in xor_bytes (shift_rows (map aes_sub s)) (ks ! 14))"

subsection \<open>Galois/counter mode\<close>

definition of_bytes :: "bytes \<Rightarrow> u8 list" where
  "of_bytes bs = map (\<lambda>c. word_of_int (byte c)) bs"

definition to_bytes :: "u8 list \<Rightarrow> bytes" where
  "to_bytes ws = map (\<lambda>w. char_of (uint w)) ws"

definition be_128 :: "u8 list \<Rightarrow> 128 word" where
  "be_128 ws = word_of_int (foldl (\<lambda>n w. n * 256 + uint w) 0 ws)"

definition ghash_mul :: "128 word \<Rightarrow> 128 word \<Rightarrow> 128 word" where
  "ghash_mul x h =
     fst (foldl (\<lambda>(z, v) i.
            (if bit x i then z XOR v else z,
             drop_bit 1 v XOR (if bit v 0 then push_bit 120 0xe1 else 0)))
          (0, h) (rev [0..<128]))"

definition ghash :: "128 word \<Rightarrow> u8 list list \<Rightarrow> 128 word" where
  "ghash h blocks = foldl (\<lambda>y b. ghash_mul (y XOR be_128 b) h) 0 blocks"

definition pad16 :: "u8 list \<Rightarrow> u8 list" where
  "pad16 ws = ws @ replicate ((16 - length ws mod 16) mod 16) 0"

definition gcm_block :: "u8 list \<Rightarrow> bytes \<Rightarrow> nat \<Rightarrow> u8 list" where
  "gcm_block key nonce ctr = aes_encrypt key (of_bytes (nonce @ be_bytes 4 (int ctr)))"

definition gcm_stream :: "u8 list \<Rightarrow> bytes \<Rightarrow> nat \<Rightarrow> u8 list" where
  "gcm_stream key nonce n =
     take n (concat (map (\<lambda>i. gcm_block key nonce (i + 2)) [0..<n div 16 + 1]))"

definition gcm_xor :: "u8 list \<Rightarrow> bytes \<Rightarrow> u8 list \<Rightarrow> u8 list" where
  "gcm_xor key nonce ws = xor_bytes ws (gcm_stream key nonce (length ws))"

definition gcm_tag :: "u8 list \<Rightarrow> bytes \<Rightarrow> u8 list \<Rightarrow> u8 list" where
  "gcm_tag key nonce ct =
     (let h = be_128 (aes_encrypt key (replicate 16 0));
          text = pad16 ct @ of_bytes (be_bytes 8 0 @ be_bytes 8 (8 * int (length ct)));
          s = ghash h (chunks (length text div 16) 16 text)
      in xor_bytes (gcm_block key nonce 1) (of_bytes (be_bytes 16 (uint s))))"

definition gcm_seal :: "u8 list \<Rightarrow> bytes \<Rightarrow> bytes \<Rightarrow> bytes" where
  "gcm_seal key nonce plain =
     (let ct = gcm_xor key nonce (of_bytes plain) in to_bytes (ct @ gcm_tag key nonce ct))"

definition gcm_open :: "u8 list \<Rightarrow> bytes \<Rightarrow> bytes \<Rightarrow> bytes option" where
  "gcm_open key nonce sealed =
     (if length sealed < 16 then None
      else let n = length sealed - 16; ct = take n (of_bytes sealed); tag = drop n (of_bytes sealed) in
        if tag = gcm_tag key nonce ct then Some (to_bytes (gcm_xor key nonce ct)) else None)"

text \<open>\<open>cipher.NewGCM(aes.NewCipher(key))\<close>.\<close>

definition NewGCM :: "bytes \<Rightarrow> aead" where
  "NewGCM key = \<lparr>NonceSize = 12, aead_Seal = gcm_seal (of_bytes key), aead_Open = gcm_open (of_bytes key)\<rparr>"

subsection \<open>Opening what was sealed\<close>

lemma length_xor_bytes [simp]: "length (xor_bytes xs ys) = min (length xs) (length ys)"
  by (simp add: xor_bytes_def)

lemma length_shift_rows [simp]: "length (shift_rows s) = 16"
  by (simp add: shift_rows_def)

lemma length_to_bytes [simp]: "length (to_bytes ws) = length ws"
  by (simp add: to_bytes_def)

lemma length_of_bytes [simp]: "length (of_bytes bs) = length bs"
  by (simp add: of_bytes_def)

lemma to_of_bytes [simp]: "to_bytes (of_bytes bs) = bs"
proof -
  have "char_of (uint (word_of_int (byte c) :: u8)) = c" for c
    using byte_bounds [of c] by (simp add: unsigned_of_int take_bit_int_eq_self)
  then show ?thesis by (simp add: to_bytes_def of_bytes_def comp_def)
qed

lemma of_to_bytes [simp]: "of_bytes (to_bytes ws) = ws"
proof -
  have "word_of_int (byte (char_of (uint w))) = w" for w :: u8
    using uint_lt2p [of w] by simp
  then show ?thesis by (simp add: to_bytes_def of_bytes_def comp_def)
qed

text \<open>The key schedule has 15 round keys of 16 bytes, so a block always fills 16 bytes.\<close>

lemma length_chunks: "length (chunks n k xs) = n"
  by (induction n arbitrary: xs) auto

lemma chunks_lengths:
  "n * k \<le> length xs \<Longrightarrow> c \<in> set (chunks n k xs) \<Longrightarrow> length c = k"
proof (induction n arbitrary: xs)
  case (Suc n)
  then show ?case using Suc.IH [of "drop k xs"] by auto
qed simp

lemma length_concat_const:
  "\<forall>x \<in> set xss. length x = k \<Longrightarrow> length (concat xss) = length xss * k"
  by (induction xss) auto

lemma length_aes_next_word:
  assumes "\<forall>w \<in> set ws. length w = 4" and "8 \<le> length ws"
  shows "length (aes_next_word i ws) = 4"
proof -
  have "ws ! i \<in> set ws" if "i < 8" for i using assms(2) that by (intro nth_mem) simp
  then have "length (ws ! 0) = 4" "length (ws ! 7) = 4" using assms(1) by auto
  then show ?thesis by (simp add: aes_next_word_def Let_def)
qed

lemma aes_expand_lengths:
  assumes "\<forall>w \<in> set ws. length w = 4" and "8 \<le> length ws"
  shows "(\<forall>w \<in> set (fold (\<lambda>i ws. aes_next_word i ws # ws) is ws). length w = 4)
    \<and> length (fold (\<lambda>i ws. aes_next_word i ws # ws) is ws) = length ws + length is"
  using assms
proof (induction "is" arbitrary: ws)
  case (Cons i "is")
  let ?ws = "aes_next_word i ws # ws"
  have "\<forall>w \<in> set ?ws. length w = 4" "8 \<le> length ?ws"
    using Cons.prems length_aes_next_word [of ws i] by simp_all
  from Cons.IH [OF this] show ?case by simp
qed simp

lemma aes_round_key_length:
  assumes "length key = 32" and "i < 15"
  shows "length (aes_round_keys key ! i) = 16"
proof -
  define ks where "ks = [8..<60::nat]"
  then have "length ks = 52" by simp
  let ?ws = "fold (\<lambda>i ws. aes_next_word i ws # ws) ks (rev (chunks 8 4 key))"
  have "\<forall>w \<in> set (rev (chunks 8 4 key)). length w = 4"
    using assms(1) chunks_lengths [of 8 4 key] by auto
  then have "(\<forall>w \<in> set ?ws. length w = 4) \<and> length ?ws = 60"
    using aes_expand_lengths [of "rev (chunks 8 4 key)" ks] \<open>length ks = 52\<close> by (simp add: length_chunks)
  then have "length (concat (rev ?ws)) = 240"
    using length_concat_const [of "rev ?ws" 4] by simp
  then have "15 * 16 \<le> length (concat (rev ?ws))" by linarith
  then have "length c = 16" if "c \<in> set (chunks 15 16 (concat (rev ?ws)))" for c
    using that by (rule chunks_lengths)
  moreover have "aes_round_keys key = chunks 15 16 (concat (rev ?ws))"
    by (simp only: aes_round_keys_def ks_def)
  ultimately show ?thesis using assms(2) by (simp add: length_chunks)
qed

lemma length_aes_encrypt: "length key = 32 \<Longrightarrow> length (aes_encrypt key block) = 16"
proof -
  assume "length key = 32"
  then have "length (aes_round_keys key ! 14) = 16" by (simp add: aes_round_key_length)
  then show ?thesis
    by (simp only: aes_encrypt_def Let_def length_xor_bytes length_shift_rows min.idem)
qed

lemma length_gcm_stream: "length key = 32 \<Longrightarrow> length (gcm_stream key nonce n) = n"
proof -
  assume key: "length key = 32"
  have "length (concat (map (\<lambda>i. gcm_block key nonce (i + 2)) [0..<n div 16 + 1])) = (n div 16 + 1) * 16"
    by (subst length_concat_const [where k = 16]) (auto simp: gcm_block_def length_aes_encrypt key)
  moreover have "n \<le> (n div 16 + 1) * 16" using div_mult_mod_eq [of n 16] mod_less_divisor [of 16 n] by simp
  ultimately show ?thesis by (simp add: gcm_stream_def)
qed

lemma xor_bytes_twice: "length xs \<le> length ys \<Longrightarrow> xor_bytes (xor_bytes xs ys) ys = xs"
proof (induction xs arbitrary: ys)
  case (Cons x xs)
  then show ?case by (cases ys) (auto simp: xor_bytes_def xor.assoc)
qed (simp add: xor_bytes_def)

lemma gcm_xor_twice:
  assumes "length key = 32"
  shows "length (gcm_xor key nonce ws) = length ws"
    and "gcm_xor key nonce (gcm_xor key nonce ws) = ws"
  using assms by (simp_all add: gcm_xor_def length_gcm_stream xor_bytes_twice)

lemma gcm_open_seal:
  assumes "length key = 32"
  shows "gcm_open key nonce (gcm_seal key nonce plain) = Some plain"
proof -
  have "length (gcm_tag key nonce ct) = 16" for ct
    using assms by (simp add: gcm_tag_def Let_def gcm_block_def length_aes_encrypt)
  then show ?thesis
    by (simp add: gcm_open_def gcm_seal_def Let_def gcm_xor_twice [OF assms])
qed

interpretation gcm: aead_scheme "NewGCM key" "\<lambda>n. length key = 32 \<and> length n = 12" for key
  by unfold_locales (auto simp: NewGCM_def gcm_open_seal)

end
