(* ===== verification/Crypt.thy ===== *)
theory Crypt
  imports AesGcm
begin

text \<open>
  \<^verbatim>\<open>internal/store/crypt.go\<close>: column encryption. A stored column is either the plaintext
  or the marker \<open>enc1:\<close> followed by the base64 of nonce and ciphertext. The value of the
  environment variable and the random nonce are arguments; \<open>None\<close> is the nil cipher of a
  store without a key.
\<close>

definition encPrefix :: string where
  "encPrefix = ''enc1:''"

datatype crypt_err =
    KeyNotBase64
  | KeyLength nat
  | ColumnNotBase64
  | ColumnTooShort
  | DecryptFailed

text \<open>\<open>loadCipher\<close>, given the value of \<^verbatim>\<open>PROMPTNET_ENCRYPTION_KEY\<close>.\<close>

definition loadCipher :: "string \<Rightarrow> crypt_err + aead option" where
  "loadCipher raw =
     (if raw = [] then Inr None
      else case b64_decode (TrimSpace raw) of
        None \<Rightarrow> Inl KeyNotBase64
      | Some key \<Rightarrow>
          if length key \<noteq> 32 then Inl (KeyLength (length key)) else Inr (Some (NewGCM key)))"

definition seal :: "aead option \<Rightarrow> bytes \<Rightarrow> string \<Rightarrow> string" where
  "seal c nonce plain =
     (case c of None \<Rightarrow> plain
      | Some a \<Rightarrow> encPrefix @ b64_encode (nonce @ aead_Seal a nonce plain))"

definition open_column :: "aead option \<Rightarrow> string \<Rightarrow> crypt_err + string" where
  "open_column c stored =
     (case c of None \<Rightarrow> Inr stored
      | Some a \<Rightarrow>
          if \<not> HasPrefix stored encPrefix then Inr stored
          else case b64_decode (drop (length encPrefix) stored) of
            None \<Rightarrow> Inl ColumnNotBase64
          | Some ct \<Rightarrow>
              let n = NonceSize a in
              if length ct < n then Inl ColumnTooShort
              else case aead_Open a (take n ct) (drop n ct) of
                None \<Rightarrow> Inl DecryptFailed
              | Some plain \<Rightarrow> Inr plain)"

subsection \<open>Sealed columns open again\<close>

text \<open>
  What a store needs of its cipher and nonces, for any cipher: under it every value comes
  back. \<open>cipher_ok c n\<close> holds for a store without a key and for the AES-256-GCM of a 32-byte
  key with a 12-byte nonce.
\<close>

definition cipher_ok :: "aead option \<Rightarrow> bytes \<Rightarrow> bool" where
  "cipher_ok c n \<longleftrightarrow>
     (case c of None \<Rightarrow> True
      | Some a \<Rightarrow> length n = NonceSize a \<and> (\<forall>p. aead_Open a n (aead_Seal a n p) = Some p))"

lemma open_seal: "cipher_ok c n \<Longrightarrow> open_column c (seal c n p) = Inr p"
  by (cases c)
    (auto simp: cipher_ok_def open_column_def seal_def b64_roundtrip Let_def)

text \<open>Rows written before a key was configured stay readable, unless they look sealed.\<close>

lemma open_plain: "\<not> HasPrefix p encPrefix \<Longrightarrow> open_column c p = Inr p"
  by (auto simp: open_column_def split: option.splits)

lemma loadCipher_ok:
  assumes "loadCipher raw = Inr c" and "length n = 12"
  shows "cipher_ok c n"
  using assms gcm.open_seal
  by (auto simp: loadCipher_def cipher_ok_def NewGCM_def gcm_open_seal split: if_splits option.splits)

text \<open>An operator who asked for encryption never gets a plaintext store.\<close>

lemma loadCipher_set: "raw \<noteq> [] \<Longrightarrow> loadCipher raw \<noteq> Inr None"
  by (auto simp: loadCipher_def split: option.splits)

definition column_value :: "crypt_err + string \<Rightarrow> string option" where
  "column_value r = (case r of Inl _ \<Rightarrow> None | Inr p \<Rightarrow> Some p)"

interpretation plain_column: codec "seal None n" "\<lambda>s. column_value (open_column None s)" "\<lambda>_. True"
  for n
  by unfold_locales (simp add: open_seal cipher_ok_def column_value_def)

interpretation gcm_column: codec "seal (Some (NewGCM key)) n"
    "\<lambda>s. column_value (open_column (Some (NewGCM key)) s)" "\<lambda>_. length key = 32 \<and> length n = 12"
  for key n
  by unfold_locales
    (simp add: open_seal cipher_ok_def column_value_def NewGCM_def gcm_open_seal)

text \<open>The slots column: the JSON of the slots, sealed.\<close>

interpretation slots_column: codec_chain "seal (Some (NewGCM key)) n"
    "\<lambda>s. column_value (open_column (Some (NewGCM key)) s)" "\<lambda>_. length key = 32 \<and> length n = 12"
    json_marshal json_unmarshal "list_all valid_utf8"
  for key n
  by unfold_locales

end
