(* ===== verification/Store.thy ===== *)
theory Store
  imports Crypt
begin

text \<open>
  \<^verbatim>\<open>internal/store/store.go\<close>: the prompt store over its SQL database. The three tables are
  lists of rows with their primary keys; a statement either does what its SQL says or fails,
  as the environment of the operation decides (\<open>fails\<close>), and a failed transaction leaves the
  tables as they were. Every operation takes the store handle, the environment and the
  database, and returns its result or error, with the new database where it can write.
\<close>

subsection \<open>Rows, values, errors\<close>

text \<open>The columns hold stored text: \<open>template\<close> and \<open>slots\<close> may be sealed, \<open>slots\<close> is JSON.\<close>

record prompt_row =
  pr_template :: string
  pr_slots :: string
  pr_vhash :: string

record commit_row =
  cr_hash :: string
  cr_uri :: string
  cr_template :: string
  cr_slots :: string
  cr_vhash :: string
  cr_parent :: "string option"
  cr_parent2 :: "string option"
  cr_author :: string
  cr_message :: string
  cr_created :: int

record db =
  prompts :: "(string \<times> prompt_row) list"
  commits :: "commit_row list"
  refs :: "((string \<times> string) \<times> string) list"

definition empty_db :: db where
  "empty_db = \<lparr>prompts = [], commits = [], refs = []\<rparr>"

text \<open>Go's \<open>Prompt\<close> and \<open>Commit\<close> structs. \<open>Parent\<close> is \<open>""\<close> for a root commit.\<close>

record prompt =
  URI :: string
  Template :: string
  Slots :: "string list"
  VersionHash :: string

record commit =
  c_Hash :: string
  c_URI :: string
  c_Template :: string
  c_Slots :: "string list"
  c_VersionHash :: string
  c_Parent :: string
  c_Parent2 :: string
  c_Author :: string
  c_Message :: string
  c_CreatedAt :: int

text \<open>The statements an operation sends to the database, so that each can fail on its own.\<close>

datatype dbcall =
    QTip string string
  | QCommit string
  | QPrompt string
  | QDump
  | QList
  | BeginTx
  | InsCommit
  | UpsertRef
  | InsRef
  | UpsertPrompt
  | CommitTx

datatype err =
    ErrNotFound
  | ErrBranchNotFound
  | DbErr dbcall
  | UniqueErr
  | ColumnErr crypt_err
  | JsonErr

text \<open>
  What one operation meets: the statements that fail, the clock (nanoseconds), and the two
  random nonces of the template and slots columns it writes.
\<close>

record env =
  fails :: "dbcall \<Rightarrow> bool"
  now :: int
  nonceT :: bytes
  nonceS :: bytes

datatype driver = Sqlite | Pgx

text \<open>
  Go's \<open>Store\<close> handle: the driver, the cipher, and the two primitives it is built on that the
  model takes as given: SHA-256, and the order of the engine's \<open>ORDER BY\<close> on text, as a sort key
  (the identity for SQLite's binary collation).
\<close>

record store =
  st_driver :: driver
  aead :: "aead option"
  sha :: "bytes \<Rightarrow> bytes"
  order_key :: "string \<Rightarrow> string"

definition DefaultBranch :: string where
  "DefaultBranch = ''main''"

subsection \<open>Placeholders, prefixes, hashes\<close>

text \<open>\<open>rebind\<close>: \<open>?\<close> placeholders become \<open>$1\<close>, \<open>$2\<close>, \<open>\<dots>\<close> for PostgreSQL.\<close>

fun decimal :: "nat \<Rightarrow> string" where
  "decimal n = (if n < 10 then [char_of (48 + n)] else decimal (n div 10) @ [char_of (48 + n mod 10)])"

declare decimal.simps [simp del]

fun rebind_from :: "nat \<Rightarrow> string \<Rightarrow> string" where
  "rebind_from n [] = []"
| "rebind_from n (c # q) =
     (if c = CHR ''?'' then CHR ''$'' # decimal (n + 1) @ rebind_from (n + 1) q
      else c # rebind_from n q)"

definition rebind :: "store \<Rightarrow> string \<Rightarrow> string" where
  "rebind s q = (if st_driver s = Pgx then rebind_from 0 q else q)"

text \<open>The driver \<open>Open\<close> picks from the data source name.\<close>

definition driver_of :: "string \<Rightarrow> driver" where
  "driver_of dsn =
     (if HasPrefix dsn ''postgres://'' \<or> HasPrefix dsn ''postgresql://'' then Pgx else Sqlite)"

definition escapeLike :: "string \<Rightarrow> string" where
  "escapeLike s =
     concat (map (\<lambda>c. if c = backslash \<or> c = CHR ''%'' \<or> c = CHR ''_'' then [backslash, c] else [c]) s)"

definition Hash :: "(bytes \<Rightarrow> bytes) \<Rightarrow> string \<Rightarrow> string list \<Rightarrow> string" where
  "Hash H template slots =
     EncodeToString (H (template @ [CHR 0x00] @ Join slots [CHR 0x00]))"

definition CommitHash ::
    "(bytes \<Rightarrow> bytes) \<Rightarrow> string \<Rightarrow> string \<Rightarrow> string \<Rightarrow> string \<Rightarrow> string \<Rightarrow> string" where
  "CommitHash H versionHash parent parent2 author message =
     EncodeToString (H (concat (map (\<lambda>p. p @ [CHR 0x00])
       [versionHash, parent, parent2, author, message])))"

subsection \<open>Statements\<close>

text \<open>\<open>INSERT INTO commits \<dots> ON CONFLICT(hash) DO NOTHING\<close>; the newest row comes first.\<close>

definition insert_commit :: "commit_row \<Rightarrow> db \<Rightarrow> db" where
  "insert_commit r d =
     (if list_ex (\<lambda>r'. cr_hash r' = cr_hash r) (commits d) then d
      else d\<lparr>commits := r # commits d\<rparr>)"

text \<open>\<open>INSERT INTO refs \<dots> ON CONFLICT(uri,branch) DO UPDATE\<close>, and the plain \<open>INSERT\<close>.\<close>

definition upsert_ref :: "string \<Rightarrow> string \<Rightarrow> string \<Rightarrow> db \<Rightarrow> db" where
  "upsert_ref uri branch h d = d\<lparr>refs := AList.update (uri, branch) h (refs d)\<rparr>"

definition insert_ref :: "string \<Rightarrow> string \<Rightarrow> string \<Rightarrow> db \<Rightarrow> err + db" where
  "insert_ref uri branch h d =
     (if map_of (refs d) (uri, branch) \<noteq> None then Inl UniqueErr
      else Inr (d\<lparr>refs := AList.update (uri, branch) h (refs d)\<rparr>))"

text \<open>\<open>putQuery\<close>: upsert of the served row of a URI.\<close>

definition upsert_prompt :: "string \<Rightarrow> prompt_row \<Rightarrow> db \<Rightarrow> db" where
  "upsert_prompt uri r d = d\<lparr>prompts := AList.update uri r (prompts d)\<rparr>"

text \<open>A statement of a transaction: its failure ends the operation (and rolls back).\<close>

definition stmt :: "env \<Rightarrow> dbcall \<Rightarrow> (db \<Rightarrow> db) \<Rightarrow> db \<Rightarrow> err + db" where
  "stmt e q f d = (if fails e q then Inl (DbErr q) else Inr (f d))"

text \<open>
  \<open>BeginTx\<close>, the body, \<open>tx.Commit()\<close>, with \<open>defer tx.Rollback()\<close>: the tables change only if
  everything succeeds.
\<close>

definition transaction :: "env \<Rightarrow> (db \<Rightarrow> err + db) \<Rightarrow> 'a \<Rightarrow> db \<Rightarrow> (err + 'a) \<times> db" where
  "transaction e body v d =
     (case rbind (stmt e BeginTx id d) (\<lambda>d'. rbind (body d') (stmt e CommitTx id)) of
        Inl er \<Rightarrow> (Inl er, d)
      | Inr d' \<Rightarrow> (Inr v, d'))"

subsection \<open>Reading\<close>

definition open_col :: "store \<Rightarrow> string \<Rightarrow> err + string" where
  "open_col s stored = (case open_column (aead s) stored of Inl c \<Rightarrow> Inl (ColumnErr c) | Inr p \<Rightarrow> Inr p)"

text \<open>The two content columns of a row, opened and decoded.\<close>

definition read_columns :: "store \<Rightarrow> string \<Rightarrow> string \<Rightarrow> err + string \<times> string list" where
  "read_columns s t sl =
     rbind (open_col s t) (\<lambda>t'. rbind (open_col s sl) (\<lambda>sl'.
       rbind (of_option JsonErr (json_unmarshal sl')) (\<lambda>ss. Inr (t', ss))))"

definition tip :: "env \<Rightarrow> db \<Rightarrow> string \<Rightarrow> string \<Rightarrow> err + string" where
  "tip e d uri branch =
     (if fails e (QTip uri branch) then Inl (DbErr (QTip uri branch))
      else of_option ErrBranchNotFound (map_of (refs d) (uri, branch)))"

definition null_string :: "string option \<Rightarrow> string" where
  "null_string x = (case x of None \<Rightarrow> [] | Some p \<Rightarrow> p)"

definition scanCommit :: "store \<Rightarrow> commit_row \<Rightarrow> err + commit" where
  "scanCommit s r =
     rbind (read_columns s (cr_template r) (cr_slots r)) (\<lambda>(t, sl).
       Inr \<lparr>c_Hash = cr_hash r, c_URI = cr_uri r, c_Template = t, c_Slots = sl,
            c_VersionHash = cr_vhash r, c_Parent = null_string (cr_parent r),
            c_Parent2 = null_string (cr_parent2 r), c_Author = cr_author r,
            c_Message = cr_message r, c_CreatedAt = cr_created r\<rparr>)"

definition commit_row_of :: "db \<Rightarrow> string \<Rightarrow> commit_row option" where
  "commit_row_of d h = List.find (\<lambda>r. cr_hash r = h) (commits d)"

definition GetCommit :: "store \<Rightarrow> env \<Rightarrow> db \<Rightarrow> string \<Rightarrow> err + commit" where
  "GetCommit s e d h =
     (if fails e (QCommit h) then Inl (DbErr (QCommit h))
      else rbind (of_option ErrNotFound (commit_row_of d h)) (scanCommit s))"

definition Get :: "store \<Rightarrow> env \<Rightarrow> db \<Rightarrow> string \<Rightarrow> err + prompt" where
  "Get s e d uri =
     (if fails e (QPrompt uri) then Inl (DbErr (QPrompt uri))
      else rbind (of_option ErrNotFound (map_of (prompts d) uri)) (\<lambda>r.
        rbind (read_columns s (pr_template r) (pr_slots r)) (\<lambda>(t, sl).
          Inr \<lparr>URI = uri, Template = t, Slots = sl, VersionHash = pr_vhash r\<rparr>)))"

text \<open>\<open>Log\<close>: follow first parents from the tip. The loop has no bound in the code, so \<open>None\<close> is
  a walk that does not end.\<close>

partial_function (option) log_loop ::
    "store \<Rightarrow> env \<Rightarrow> db \<Rightarrow> string \<Rightarrow> commit list \<Rightarrow> (err + commit list) option" where
  "log_loop s e d h out =
     (if h = [] then Some (Inr out)
      else case GetCommit s e d h of
        Inl er \<Rightarrow> Some (Inl er)
      | Inr c \<Rightarrow> log_loop s e d (c_Parent c) (out @ [c]))"

declare log_loop.simps [code]

definition Log :: "store \<Rightarrow> env \<Rightarrow> db \<Rightarrow> string \<Rightarrow> string \<Rightarrow> (err + commit list) option" where
  "Log s e d uri branch =
     (case tip e d uri branch of Inl er \<Rightarrow> Some (Inl er) | Inr h \<Rightarrow> log_loop s e d h [])"

text \<open>\<open>Resolve\<close>: a branch name first, then a commit hash of the same prompt.\<close>

definition Resolve :: "store \<Rightarrow> env \<Rightarrow> db \<Rightarrow> string \<Rightarrow> string \<Rightarrow> err + commit" where
  "Resolve s e d uri ref =
     (case tip e d uri ref of
        Inr h \<Rightarrow> GetCommit s e d h
      | Inl er \<Rightarrow>
          if er \<noteq> ErrBranchNotFound then Inl er
          else rbind (GetCommit s e d ref) (\<lambda>c.
            if c_URI c \<noteq> uri then Inl ErrNotFound else Inr c))"

subsection \<open>Writing\<close>

text \<open>\<open>Put\<close>: the upsert of the served row alone, with the hash recomputed.\<close>

definition Put :: "store \<Rightarrow> env \<Rightarrow> prompt \<Rightarrow> db \<Rightarrow> (err + unit) \<times> db" where
  "Put s e p d =
     (let slots = json_marshal (Slots p);
          vh = Hash (sha s) (Template p) (Slots p);
          r = \<lparr>pr_template = seal (aead s) (nonceT e) (Template p),
               pr_slots = seal (aead s) (nonceS e) slots, pr_vhash = vh\<rparr>
      in case stmt e UpsertPrompt (upsert_prompt (URI p) r) d of
           Inl er \<Rightarrow> (Inl er, d) | Inr d' \<Rightarrow> (Inr (), d'))"

definition to_null :: "string \<Rightarrow> string option" where
  "to_null p = (if p \<noteq> [] then Some p else None)"

text \<open>\<open>commit\<close>: insert the node, move the branch, keep the served row of \<open>main\<close> in step.\<close>

definition commitTx :: "store \<Rightarrow> env \<Rightarrow> string \<Rightarrow> string \<Rightarrow> string \<Rightarrow> string list \<Rightarrow> string \<Rightarrow> string
    \<Rightarrow> string \<Rightarrow> string \<Rightarrow> db \<Rightarrow> (err + string) \<times> db" where
  "commitTx s e uri branch template slots parent parent2 author message d =
     (let vh = Hash (sha s) template slots;
          hash = CommitHash (sha s) vh parent parent2 author message;
          encT = seal (aead s) (nonceT e) template;
          encS = seal (aead s) (nonceS e) (json_marshal slots);
          row = \<lparr>cr_hash = hash, cr_uri = uri, cr_template = encT, cr_slots = encS, cr_vhash = vh,
                 cr_parent = to_null parent, cr_parent2 = to_null parent2, cr_author = author,
                 cr_message = message, cr_created = now e\<rparr>
      in transaction e (\<lambda>d. rbind (stmt e InsCommit (insert_commit row) d) (\<lambda>d.
           rbind (stmt e UpsertRef (upsert_ref uri branch hash) d) (\<lambda>d.
             if branch = DefaultBranch
             then stmt e UpsertPrompt
                    (upsert_prompt uri \<lparr>pr_template = encT, pr_slots = encS, pr_vhash = vh\<rparr>) d
             else Inr d))) hash d)"

text \<open>\<open>Commit\<close>: onto the branch's tip, or as its root if there is no such branch.\<close>

definition Commit :: "store \<Rightarrow> env \<Rightarrow> string \<Rightarrow> string \<Rightarrow> string \<Rightarrow> string list \<Rightarrow> string \<Rightarrow> string
    \<Rightarrow> db \<Rightarrow> (err + string) \<times> db" where
  "Commit s e uri branch template slots author message d =
     (case tip e d uri branch of
        Inr parent \<Rightarrow> commitTx s e uri branch template slots parent [] author message d
      | Inl er \<Rightarrow>
          if er \<noteq> ErrBranchNotFound then (Inl er, d)
          else commitTx s e uri branch template slots [] [] author message d)"

definition Branch :: "env \<Rightarrow> string \<Rightarrow> string \<Rightarrow> string \<Rightarrow> db \<Rightarrow> (err + unit) \<times> db" where
  "Branch e uri name from d =
     (case tip e d uri from of
        Inl er \<Rightarrow> (Inl er, d)
      | Inr src \<Rightarrow>
          if fails e InsRef then (Inl (DbErr InsRef), d)
          else case insert_ref uri name src d of
            Inl er \<Rightarrow> (Inl er, d) | Inr d' \<Rightarrow> (Inr (), d'))"

text \<open>\<open>Merge\<close>: a commit on \<open>into\<close> with the content of \<open>from\<close>'s tip and both tips as parents.\<close>

definition Merge :: "store \<Rightarrow> env \<Rightarrow> string \<Rightarrow> string \<Rightarrow> string \<Rightarrow> string \<Rightarrow> string
    \<Rightarrow> db \<Rightarrow> (err + string) \<times> db" where
  "Merge s e uri into from author message d =
     (case rbind (tip e d uri into) (\<lambda>dst. rbind (tip e d uri from) (\<lambda>srcHash.
             rbind (GetCommit s e d srcHash) (\<lambda>src. Inr (dst, srcHash, src)))) of
        Inl er \<Rightarrow> (Inl er, d)
      | Inr (dst, srcHash, src) \<Rightarrow>
          let message' = (if message = [] then ''merge '' @ from @ '' into '' @ into else message)
          in commitTx s e uri into (c_Template src) (c_Slots src) dst srcHash author message' d)"

text \<open>\<open>SetBranch\<close>: point a branch at an existing commit of the same prompt.\<close>

definition SetBranch :: "store \<Rightarrow> env \<Rightarrow> string \<Rightarrow> string \<Rightarrow> string \<Rightarrow> db \<Rightarrow> (err + commit) \<times> db" where
  "SetBranch s e uri branch commitHash d =
     (case GetCommit s e d commitHash of
        Inl er \<Rightarrow> (Inl er, d)
      | Inr c \<Rightarrow>
          if c_URI c \<noteq> uri then (Inl ErrNotFound, d)
          else transaction e (\<lambda>d.
            rbind (stmt e UpsertRef (upsert_ref uri branch commitHash) d) (\<lambda>d.
              if branch = DefaultBranch
              then stmt e UpsertPrompt (upsert_prompt uri
                     \<lparr>pr_template = seal (aead s) (nonceT e) (c_Template c),
                      pr_slots = seal (aead s) (nonceS e) (json_marshal (c_Slots c)),
                      pr_vhash = c_VersionHash c\<rparr>) d
              else Inr d)) c d)"

subsection \<open>Listing and dumping\<close>

text \<open>
  SQL's \<open>LIKE \<dots> ESCAPE '\'\<close> on one engine: \<open>%\<close> matches any run, \<open>_\<close> one character, the escape
  takes the next character literally. SQLite compares ASCII letters without case,
  PostgreSQL exactly.
\<close>

definition ascii_lower :: "char \<Rightarrow> char" where
  "ascii_lower c = (if 65 \<le> byte c \<and> byte c \<le> 90 then char_of (byte c + 32) else c)"

definition like_char :: "driver \<Rightarrow> char \<Rightarrow> char \<Rightarrow> bool" where
  "like_char dr p c = (case dr of Sqlite \<Rightarrow> ascii_lower p = ascii_lower c | Pgx \<Rightarrow> p = c)"

definition rune_width :: "string \<Rightarrow> nat" where
  "rune_width s = (case decode_rune s of None \<Rightarrow> 1 | Some (_, n) \<Rightarrow> n)"

lemma rune_width_pos: "0 < rune_width s"
  by (auto simp: rune_width_def dest: decode_rune_width split: option.splits)

function sql_like :: "driver \<Rightarrow> string \<Rightarrow> string \<Rightarrow> bool" where
  "sql_like dr [] s = (s = [])"
| "sql_like dr (p # ps) s =
     (if p = backslash then
        (case (ps, s) of (q # qs, c # cs) \<Rightarrow> like_char dr q c \<and> sql_like dr qs cs | _ \<Rightarrow> False)
      else if p = CHR ''%'' then
        sql_like dr ps s \<or> (case s of [] \<Rightarrow> False | c # cs \<Rightarrow> sql_like dr (p # ps) cs)
      else if p = CHR ''_'' then s \<noteq> [] \<and> sql_like dr ps (drop (rune_width s) s)
      else (case s of [] \<Rightarrow> False | c # cs \<Rightarrow> like_char dr p c \<and> sql_like dr ps cs))"
  by pat_completeness auto
termination
  by (relation "measure (\<lambda>(_, ps, s). length ps + length s)") auto

declare sql_like.simps(2) [simp del]

text \<open>\<open>List\<close>: URI and version hash of the matching rows; the other fields stay empty.\<close>

definition List :: "store \<Rightarrow> env \<Rightarrow> db \<Rightarrow> string \<Rightarrow> err + prompt list" where
  "List s e d prefix =
     (if fails e QList then Inl (DbErr QList)
      else Inr (map (\<lambda>(u, r). \<lparr>URI = u, Template = [], Slots = [], VersionHash = pr_vhash r\<rparr>)
        (sort_key (\<lambda>(u, r). order_key s u)
          (filter (\<lambda>(u, r). sql_like (st_driver s) (escapeLike prefix @ ''%'') u) (prompts d)))))"

fun read_prompts :: "store \<Rightarrow> (string \<times> prompt_row) list \<Rightarrow> err + prompt list" where
  "read_prompts s [] = Inr []"
| "read_prompts s ((u, r) # rs) =
     rbind (read_columns s (pr_template r) (pr_slots r)) (\<lambda>(t, sl).
       rbind (read_prompts s rs) (\<lambda>ps.
         Inr (\<lparr>URI = u, Template = t, Slots = sl, VersionHash = pr_vhash r\<rparr> # ps)))"

definition Dump :: "store \<Rightarrow> env \<Rightarrow> db \<Rightarrow> err + prompt list" where
  "Dump s e d =
     (if fails e QDump then Inl (DbErr QDump)
      else read_prompts s (sort_key (\<lambda>(u, r). order_key s u) (prompts d)))"

end
