(* ===== verification/StoreInv.thy ===== *)
theory StoreInv
  imports Store
begin

text \<open>
  What the store keeps true. Every operation is atomic: it fails and leaves the tables as
  they were, or succeeds with a known effect (\<open>transaction_cases\<close>, \<open>commitTx_cases\<close>,
  \<open>SetBranch_cases\<close>). The well-formedness invariant \<open>wf_db\<close> (primary keys, refs that point at
  commits, parents that were inserted earlier) holds of the empty database and is kept by
  every operation under every failure; it makes the walk of \<open>Log\<close> terminate.
\<close>

subsection \<open>Effects\<close>

lemma stmt_simps [simp]:
  "fails e q \<Longrightarrow> stmt e q f d = Inl (DbErr q)"
  "\<not> fails e q \<Longrightarrow> stmt e q f d = Inr (f d)"
  by (simp_all add: stmt_def)

lemma stmt_eq_Inr: "stmt e q f d = Inr d' \<longleftrightarrow> \<not> fails e q \<and> d' = f d"
  by (auto simp: stmt_def)

lemma transaction_cases:
  assumes "transaction e body v d = (r, d')"
  obtains (failed) er where "r = Inl er" "d' = d"
    | (succeeded) "r = Inr v" "body d = Inr d'" "\<not> fails e BeginTx" "\<not> fails e CommitTx"
  using assms
  by (auto simp: transaction_def stmt_def rbind_def split: sum.splits if_splits)

lemma transaction_ok:
  "\<not> fails e BeginTx \<Longrightarrow> \<not> fails e CommitTx \<Longrightarrow> body d = Inr d' \<Longrightarrow>
     transaction e body v d = (Inr v, d')"
  by (simp add: transaction_def)

text \<open>The row, the hash and the effect of a commit that succeeds.\<close>

definition commit_hash_of :: "store \<Rightarrow> string \<Rightarrow> string list \<Rightarrow> string \<Rightarrow> string \<Rightarrow> string \<Rightarrow> string \<Rightarrow> string" where
  "commit_hash_of s template slots parent parent2 author message =
     CommitHash (sha s) (Hash (sha s) template slots) parent parent2 author message"

definition new_row :: "store \<Rightarrow> env \<Rightarrow> string \<Rightarrow> string \<Rightarrow> string list \<Rightarrow> string \<Rightarrow> string \<Rightarrow> string
    \<Rightarrow> string \<Rightarrow> commit_row" where
  "new_row s e uri template slots parent parent2 author message =
     \<lparr>cr_hash = commit_hash_of s template slots parent parent2 author message, cr_uri = uri,
      cr_template = seal (aead s) (nonceT e) template,
      cr_slots = seal (aead s) (nonceS e) (json_marshal slots),
      cr_vhash = Hash (sha s) template slots, cr_parent = to_null parent,
      cr_parent2 = to_null parent2, cr_author = author, cr_message = message, cr_created = now e\<rparr>"

definition served_row :: "store \<Rightarrow> env \<Rightarrow> string \<Rightarrow> string list \<Rightarrow> string \<Rightarrow> prompt_row" where
  "served_row s e template slots vh =
     \<lparr>pr_template = seal (aead s) (nonceT e) template,
      pr_slots = seal (aead s) (nonceS e) (json_marshal slots), pr_vhash = vh\<rparr>"

text \<open>Moving a branch, with the served row of \<open>main\<close>: the common end of all writes to a branch.\<close>

definition move_branch :: "string \<Rightarrow> string \<Rightarrow> string \<Rightarrow> prompt_row \<Rightarrow> db \<Rightarrow> db" where
  "move_branch uri branch h r d =
     (let d' = upsert_ref uri branch h d
      in if branch = DefaultBranch then upsert_prompt uri r d' else d')"

lemma commitTx_cases:
  assumes "commitTx s e uri branch template slots parent parent2 author message d = (r, d')"
  obtains (failed) er where "r = Inl er" "d' = d"
    | (succeeded) "r = Inr (commit_hash_of s template slots parent parent2 author message)"
        "d' = move_branch uri branch (commit_hash_of s template slots parent parent2 author message)
           (served_row s e template slots (Hash (sha s) template slots))
           (insert_commit (new_row s e uri template slots parent parent2 author message) d)"
  using assms unfolding commitTx_def Let_def
  by (cases rule: transaction_cases)
    (auto simp: rbind_eq_Inr stmt_eq_Inr commit_hash_of_def new_row_def served_row_def
      move_branch_def Let_def split: if_splits)

lemma SetBranch_cases:
  assumes "SetBranch s e uri branch h d = (r, d')"
  obtains (failed) er where "r = Inl er" "d' = d"
    | (succeeded) c where "r = Inr c" "GetCommit s e d h = Inr c" "c_URI c = uri"
        "d' = move_branch uri branch h (served_row s e (c_Template c) (c_Slots c) (c_VersionHash c)) d"
proof (cases "GetCommit s e d h")
  case (Inl er)
  with assms have "r = Inl er" "d' = d" by (simp_all add: SetBranch_def)
  then show ?thesis by (rule failed)
next
  case (Inr c)
  show ?thesis
  proof (cases "c_URI c = uri")
    case False
    with Inr assms that(1) show ?thesis by (auto simp: SetBranch_def)
  next
    case True
    from assms Inr True have "transaction e (\<lambda>d.
            rbind (stmt e UpsertRef (upsert_ref uri branch h) d) (\<lambda>d.
              if branch = DefaultBranch
              then stmt e UpsertPrompt (upsert_prompt uri (served_row s e (c_Template c) (c_Slots c) (c_VersionHash c))) d
              else Inr d)) c d = (r, d')"
      unfolding served_row_def by (simp add: SetBranch_def)
    then show ?thesis
      by (cases rule: transaction_cases)
        (use that True Inr in \<open>auto simp: rbind_eq_Inr stmt_eq_Inr move_branch_def Let_def split: if_splits\<close>)
  qed
qed

lemma Commit_cases:
  assumes "Commit s e uri branch template slots author message d = (r, d')"
  obtains (failed) er where "r = Inl er" "d' = d"
    | (succeeded) parent where "parent = null_string (map_of (refs d) (uri, branch))"
        "r = Inr (commit_hash_of s template slots parent [] author message)"
        "d' = move_branch uri branch (commit_hash_of s template slots parent [] author message)
           (served_row s e template slots (Hash (sha s) template slots))
           (insert_commit (new_row s e uri template slots parent [] author message) d)"
proof (cases "tip e d uri branch")
  case (Inl er)
  show ?thesis
  proof (cases "er = ErrBranchNotFound")
    case True
    with Inl have "map_of (refs d) (uri, branch) = None"
      by (auto simp: tip_def of_option_def split: if_splits option.splits)
    moreover from assms Inl True
    have "commitTx s e uri branch template slots [] [] author message d = (r, d')"
      by (simp add: Commit_def)
    ultimately show ?thesis
      using that by (elim commitTx_cases) (auto simp: null_string_def)
  next
    case False
    with assms Inl have "r = Inl er" "d' = d" by (simp_all add: Commit_def)
    then show ?thesis by (rule failed)
  qed
next
  case (Inr p)
  then have "map_of (refs d) (uri, branch) = Some p"
    by (auto simp: tip_def split: if_splits)
  moreover from assms Inr
  have "commitTx s e uri branch template slots p [] author message d = (r, d')"
    by (simp add: Commit_def)
  ultimately show ?thesis
    using that by (elim commitTx_cases) (auto simp: null_string_def)
qed

lemma Merge_cases:
  assumes "Merge s e uri into from author message d = (r, d')"
  obtains (failed) er where "r = Inl er" "d' = d"
    | (succeeded) dst src c msg where "map_of (refs d) (uri, into) = Some dst"
        "map_of (refs d) (uri, from) = Some src" "GetCommit s e d src = Inr c"
        "msg = (if message = [] then ''merge '' @ from @ '' into '' @ into else message)"
        "r = Inr (commit_hash_of s (c_Template c) (c_Slots c) dst src author msg)"
        "d' = move_branch uri into (commit_hash_of s (c_Template c) (c_Slots c) dst src author msg)
           (served_row s e (c_Template c) (c_Slots c) (Hash (sha s) (c_Template c) (c_Slots c)))
           (insert_commit (new_row s e uri (c_Template c) (c_Slots c) dst src author msg) d)"
proof (cases "rbind (tip e d uri into) (\<lambda>dst. rbind (tip e d uri from) (\<lambda>srcHash.
             rbind (GetCommit s e d srcHash) (\<lambda>src. Inr (dst, srcHash, src))))")
  case (Inl er)
  with assms that(1) show ?thesis by (auto simp: Merge_def)
next
  case (Inr x)
  then obtain dst src c where x: "x = (dst, src, c)" "tip e d uri into = Inr dst"
    "tip e d uri from = Inr src" "GetCommit s e d src = Inr c"
    by (auto simp: rbind_eq_Inr)
  then have "map_of (refs d) (uri, into) = Some dst" "map_of (refs d) (uri, from) = Some src"
    by (auto simp: tip_def split: if_splits)
  with assms Inr x that show ?thesis
    by (auto simp: Merge_def Let_def elim!: commitTx_cases)
qed

lemma Branch_cases:
  assumes "Branch e uri name from d = (r, d')"
  obtains (failed) er where "r = Inl er" "d' = d"
    | (succeeded) h where "r = Inr ()" "map_of (refs d) (uri, from) = Some h"
        "map_of (refs d) (uri, name) = None" "d' = upsert_ref uri name h d"
proof (cases "tip e d uri from")
  case (Inl er)
  with assms that(1) show ?thesis by (auto simp: Branch_def)
next
  case (Inr h)
  then have "map_of (refs d) (uri, from) = Some h"
    by (auto simp: tip_def split: if_splits)
  with assms Inr that show ?thesis
    by (cases "map_of (refs d) (uri, name)")
      (auto simp: Branch_def insert_ref_def upsert_ref_def split: if_splits)
qed

lemma Put_cases:
  assumes "Put s e p d = (r, d')"
  obtains (failed) er where "r = Inl er" "d' = d"
    | (succeeded) "r = Inr ()"
        "d' = upsert_prompt (URI p) (served_row s e (Template p) (Slots p) (Hash (sha s) (Template p) (Slots p))) d"
  using assms
  by (auto simp: Put_def Let_def stmt_def served_row_def split: if_splits)

subsection \<open>Atomicity\<close>

text \<open>One write of the store, as a client issues it.\<close>

datatype store_op =
    OpPut prompt
  | OpCommit string string string "string list" string string
  | OpBranch string string string
  | OpMerge string string string string string
  | OpSetBranch string string string

text \<open>The error it returns (\<open>None\<close> for success) and the database behind it.\<close>

definition err_of :: "(err + 'a) \<times> db \<Rightarrow> err option \<times> db" where
  "err_of x = (case x of (Inl er, d) \<Rightarrow> (Some er, d) | (Inr _, d) \<Rightarrow> (None, d))"

fun apply_op :: "store \<Rightarrow> env \<Rightarrow> store_op \<Rightarrow> db \<Rightarrow> err option \<times> db" where
  "apply_op s e (OpPut p) d = err_of (Put s e p d)"
| "apply_op s e (OpCommit uri branch template slots author message) d =
     err_of (Commit s e uri branch template slots author message d)"
| "apply_op s e (OpBranch uri name from) d = err_of (Branch e uri name from d)"
| "apply_op s e (OpMerge uri into from author message) d =
     err_of (Merge s e uri into from author message d)"
| "apply_op s e (OpSetBranch uri branch h) d = err_of (SetBranch s e uri branch h d)"

lemma err_of_Some: "err_of x = (Some er, d) \<longleftrightarrow> x = (Inl er, d)"
  by (auto simp: err_of_def split: prod.splits sum.splits)

lemma err_of_None: "err_of x = (None, d) \<longleftrightarrow> (\<exists>v. x = (Inr v, d))"
  by (auto simp: err_of_def split: prod.splits sum.splits)

lemma apply_op_atomic: "apply_op s e opn d = (Some er, d') \<Longrightarrow> d' = d"
  by (cases opn)
    (auto simp: err_of_Some elim: Put_cases Commit_cases Branch_cases Merge_cases SetBranch_cases)

subsection \<open>Well-formed tables\<close>

abbreviation hashes :: "commit_row list \<Rightarrow> string set" where
  "hashes rs \<equiv> cr_hash ` set rs"

text \<open>Hashes are a primary key, and a row's parents are older rows (the newest is first).\<close>

fun rows_ok :: "commit_row list \<Rightarrow> bool" where
  "rows_ok [] = True"
| "rows_ok (r # rs) \<longleftrightarrow>
     cr_hash r \<noteq> [] \<and> cr_hash r \<notin> hashes rs
     \<and> (case cr_parent r of None \<Rightarrow> True | Some p \<Rightarrow> p \<in> hashes rs)
     \<and> (case cr_parent2 r of None \<Rightarrow> True | Some p \<Rightarrow> p \<in> hashes rs)
     \<and> rows_ok rs"

definition refs_ok :: "db \<Rightarrow> bool" where
  "refs_ok d \<longleftrightarrow> snd ` set (refs d) \<subseteq> hashes (commits d)"

definition wf_db :: "db \<Rightarrow> bool" where
  "wf_db d \<longleftrightarrow> rows_ok (commits d) \<and> refs_ok d
     \<and> distinct (map fst (refs d)) \<and> distinct (map fst (prompts d))"

lemma wf_empty: "wf_db empty_db"
  by (simp add: wf_db_def empty_db_def refs_ok_def)

lemma hashes_insert_commit:
  "hashes (commits (insert_commit r d)) = insert (cr_hash r) (hashes (commits d))"
  by (auto simp: insert_commit_def list_ex_iff intro: image_eqI [OF sym])

lemma insert_commit_frame [simp]:
  "refs (insert_commit r d) = refs d" "prompts (insert_commit r d) = prompts d"
  by (simp_all add: insert_commit_def)

lemma move_branch_frame [simp]:
  "commits (move_branch uri branch h r d) = commits d"
  "refs (move_branch uri branch h r d) = AList.update (uri, branch) h (refs d)"
  "prompts (move_branch uri branch h r d) =
     (if branch = DefaultBranch then AList.update uri r (prompts d) else prompts d)"
  by (simp_all add: move_branch_def Let_def upsert_ref_def upsert_prompt_def)

lemma upsert_frame [simp]:
  "commits (upsert_ref uri branch h d) = commits d"
  "refs (upsert_ref uri branch h d) = AList.update (uri, branch) h (refs d)"
  "prompts (upsert_ref uri branch h d) = prompts d"
  "commits (upsert_prompt uri r d) = commits d"
  "refs (upsert_prompt uri r d) = refs d"
  "prompts (upsert_prompt uri r d) = AList.update uri r (prompts d)"
  by (simp_all add: upsert_ref_def upsert_prompt_def)

lemma snd_update_subset: "snd ` set (AList.update k v al) \<subseteq> insert v (snd ` set al)"
  by (induction al) (auto split: if_splits)

lemma map_of_snd: "map_of al k = Some v \<Longrightarrow> v \<in> snd ` set al"
  by (force dest: map_of_SomeD)

lemma refs_ok_tip: "refs_ok d \<Longrightarrow> map_of (refs d) k = Some h \<Longrightarrow> h \<in> hashes (commits d)"
  unfolding refs_ok_def by (blast dest: map_of_snd)

lemma rows_ok_insert_commit:
  assumes "rows_ok (commits d)" and "cr_hash r \<noteq> []"
    and "case cr_parent r of None \<Rightarrow> True | Some p \<Rightarrow> p \<in> hashes (commits d)"
    and "case cr_parent2 r of None \<Rightarrow> True | Some p \<Rightarrow> p \<in> hashes (commits d)"
  shows "rows_ok (commits (insert_commit r d))"
  using assms by (auto simp: insert_commit_def list_ex_iff)

lemma wf_move_branch:
  assumes "wf_db d" and "h \<in> hashes (commits d)"
  shows "wf_db (move_branch uri branch h r d)"
  using assms snd_update_subset [of "(uri, branch)" h "refs d"]
  by (auto simp: wf_db_def refs_ok_def distinct_update)

lemma wf_insert_commit:
  assumes "wf_db d" and "cr_hash r \<noteq> []"
    and "case cr_parent r of None \<Rightarrow> True | Some p \<Rightarrow> p \<in> hashes (commits d)"
    and "case cr_parent2 r of None \<Rightarrow> True | Some p \<Rightarrow> p \<in> hashes (commits d)"
  shows "wf_db (insert_commit r d)"
  using assms rows_ok_insert_commit [of d r]
  by (auto simp: wf_db_def refs_ok_def hashes_insert_commit)

text \<open>What is assumed of SHA-256 here: a digest is not empty.\<close>

definition sha_ok :: "store \<Rightarrow> bool" where
  "sha_ok s \<longleftrightarrow> (\<forall>m. length (sha s m) = 32)"

lemma sha256_ok: "sha s = sha256 \<Longrightarrow> sha_ok s"
  by (simp add: sha_ok_def length_sha256)

lemma commit_hash_nonempty: "sha_ok s \<Longrightarrow> commit_hash_of s t sl p p2 a m \<noteq> []"
proof -
  assume "sha_ok s"
  then have "length (commit_hash_of s t sl p p2 a m) = 64"
    by (simp add: sha_ok_def commit_hash_of_def CommitHash_def)
  then show ?thesis by force
qed

lemma new_row_simps [simp]:
  "cr_hash (new_row s e uri t sl p p2 a m) = commit_hash_of s t sl p p2 a m"
  "cr_uri (new_row s e uri t sl p p2 a m) = uri"
  "cr_parent (new_row s e uri t sl p p2 a m) = to_null p"
  "cr_parent2 (new_row s e uri t sl p p2 a m) = to_null p2"
  "cr_vhash (new_row s e uri t sl p p2 a m) = Hash (sha s) t sl"
  by (simp_all add: new_row_def)

lemma wf_commit:
  assumes "wf_db d" and "sha_ok s" and "p = [] \<or> p \<in> hashes (commits d)"
    and "p2 = [] \<or> p2 \<in> hashes (commits d)"
  shows "wf_db (move_branch uri branch (commit_hash_of s t sl p p2 a m) r
    (insert_commit (new_row s e uri t sl p p2 a m) d))"
  using assms
  by (intro wf_move_branch wf_insert_commit)
    (auto simp: commit_hash_nonempty to_null_def hashes_insert_commit)

lemma apply_op_wf:
  assumes "apply_op s e opn d = (r, d')" and "wf_db d" and "sha_ok s"
  shows "wf_db d'"
proof (cases r)
  case (Some er)
  with assms show ?thesis using apply_op_atomic by blast
next
  case None
  note tip = refs_ok_tip [of d]
  have refs: "refs_ok d" using assms(2) by (simp add: wf_db_def)
  show ?thesis
  proof (cases opn)
    case (OpPut p)
    with None assms have "Put s e p d = (Inr (), d')" by (auto simp: err_of_None)
    then show ?thesis
      by (cases rule: Put_cases) (use assms(2) in \<open>simp_all add: wf_db_def refs_ok_def distinct_update\<close>)
  next
    case (OpCommit uri branch t sl a m)
    with None assms obtain h where "Commit s e uri branch t sl a m d = (Inr h, d')"
      by (auto simp: err_of_None)
    then show ?thesis
      by (cases rule: Commit_cases)
        (use assms refs tip in \<open>auto intro!: wf_commit simp: null_string_def split: option.splits\<close>)
  next
    case (OpBranch uri name src)
    with None assms have "Branch e uri name src d = (Inr (), d')" by (auto simp: err_of_None)
    then show ?thesis
    proof (cases rule: Branch_cases)
      case (succeeded h)
      then have "h \<in> hashes (commits d)" using refs tip by blast
      then show ?thesis
        using succeeded assms(2) snd_update_subset [of "(uri, name)" h "refs d"]
        by (auto simp: wf_db_def refs_ok_def distinct_update)
    qed simp
  next
    case (OpMerge uri into src a m)
    with None assms obtain h where "Merge s e uri into src a m d = (Inr h, d')"
      by (auto simp: err_of_None)
    then show ?thesis
      by (cases rule: Merge_cases) (use assms refs tip in \<open>auto intro!: wf_commit\<close>)
  next
    case (OpSetBranch uri branch h)
    with None assms obtain c where "SetBranch s e uri branch h d = (Inr c, d')"
      by (auto simp: err_of_None)
    then show ?thesis
      by (cases rule: SetBranch_cases)
        (use assms in \<open>auto intro!: wf_move_branch simp: GetCommit_def commit_row_of_def rbind_eq_Inr
          find_Some_iff split: if_splits\<close>)
  qed
qed

text \<open>The databases a store can reach, whatever its clients do and whatever fails.\<close>

inductive reachable :: "store \<Rightarrow> db \<Rightarrow> bool" for s where
  start: "reachable s empty_db"
| step: "reachable s d \<Longrightarrow> apply_op s e opn d = (r, d') \<Longrightarrow> reachable s d'"

lemma reachable_wf: "reachable s d \<Longrightarrow> sha_ok s \<Longrightarrow> wf_db d"
  by (induction rule: reachable.induct) (auto intro: wf_empty apply_op_wf)

end
