(* ===== verification/StoreLog.thy ===== *)
theory StoreLog
  imports StoreInv
begin

text \<open>
  \<open>Log\<close> walks first parents with no bound of its own. Over a well-formed database a parent is
  always an older row, so the walk ends; what it returns is the mainline of the branch:
  \<open>mainline\<close> is the specification, a chain from the tip to a root commit.
\<close>

lemma rows_ok_split:
  assumes "rows_ok (xs @ r # ys)"
  shows "cr_hash r \<noteq> []" and "cr_hash r \<notin> hashes xs \<union> hashes ys"
    and "cr_parent r = Some p \<Longrightarrow> p \<in> hashes ys" and "cr_parent2 r = Some p \<Longrightarrow> p \<in> hashes ys"
    and "rows_ok (r # ys)"
  using assms by (induction xs) (auto split: option.splits)

lemma find_row:
  assumes "rows_ok (xs @ r # ys)"
  shows "List.find (\<lambda>r'. cr_hash r' = cr_hash r) (xs @ r # ys) = Some r"
proof -
  have "cr_hash r \<notin> hashes xs" using rows_ok_split(2) [OF assms] by simp
  then show ?thesis by (induction xs) auto
qed

lemma commit_row_of_iff:
  assumes "rows_ok (commits d)"
  shows "commit_row_of d h = Some r \<longleftrightarrow> r \<in> set (commits d) \<and> cr_hash r = h"
proof
  assume "r \<in> set (commits d) \<and> cr_hash r = h"
  moreover from this obtain xs ys where "commits d = xs @ r # ys" by (meson split_list)
  ultimately show "commit_row_of d h = Some r"
    using assms find_row [of xs r ys] by (simp add: commit_row_of_def)
qed (auto simp: commit_row_of_def dest: find_Some_in)

lemma scanCommit_fields:
  assumes "scanCommit s r = Inr c"
  shows "c_Hash c = cr_hash r" and "c_URI c = cr_uri r" and "c_VersionHash c = cr_vhash r"
    and "c_Parent c = null_string (cr_parent r)" and "c_Parent2 c = null_string (cr_parent2 r)"
    and "c_Author c = cr_author r" and "c_Message c = cr_message r"
    and "read_columns s (cr_template r) (cr_slots r) = Inr (c_Template c, c_Slots c)"
  using assms by (auto simp: scanCommit_def rbind_eq_Inr)

lemma GetCommit_Inr:
  assumes "GetCommit s e d h = Inr c"
  obtains r where "commit_row_of d h = Some r" "scanCommit s r = Inr c" "c_Hash c = h"
proof -
  from assms obtain r where r: "commit_row_of d h = Some r" "scanCommit s r = Inr c"
    by (auto simp: GetCommit_def rbind_eq_Inr split: if_splits)
  moreover from r have "cr_hash r = h" by (auto simp: commit_row_of_def dest: find_Some_in)
  ultimately show thesis using that scanCommit_fields(1) by metis
qed

subsection \<open>The walk ends\<close>

lemma log_loop_returns:
  assumes "rows_ok (commits d)"
  shows "commits d = xs @ ys \<Longrightarrow> h \<in> hashes ys \<Longrightarrow> \<exists>r. log_loop s e d h out = Some r"
proof (induction "length ys" arbitrary: xs ys h out rule: less_induct)
  case less
  show ?case
  proof (cases "h = [] \<or> (\<exists>er. GetCommit s e d h = Inl er)")
    case True
    then show ?thesis by (auto simp: log_loop.simps [of s e d h])
  next
    case False
    then obtain c where c: "GetCommit s e d h = Inr c" by (cases "GetCommit s e d h") auto
    then obtain r where r: "commit_row_of d h = Some r" "scanCommit s r = Inr c"
      by (rule GetCommit_Inr)
    from less.prems(2) obtain us r' vs where ys: "ys = us @ r' # vs" "cr_hash r' = h"
      by (metis imageE split_list)
    have "rows_ok ((xs @ us) @ r' # vs)" using assms less.prems(1) ys by simp
    note older = rows_ok_split [OF this]
    have "r = r'"
      using r(1) commit_row_of_iff [OF assms, of h r'] less.prems(1) ys by simp
    have step: "log_loop s e d h out = log_loop s e d (c_Parent c) (out @ [c])"
      using False c by (simp add: log_loop.simps [of s e d h])
    show ?thesis
    proof (cases "cr_parent r'")
      case None
      then have "c_Parent c = []" using scanCommit_fields(4) [OF r(2)] \<open>r = r'\<close> by (simp add: null_string_def)
      with step show ?thesis by (simp add: log_loop.simps)
    next
      case (Some p)
      then have "c_Parent c = p" using scanCommit_fields(4) [OF r(2)] \<open>r = r'\<close> by (simp add: null_string_def)
      moreover have "p \<in> hashes vs" using older(3) [OF Some] .
      ultimately show ?thesis
        unfolding step using less.hyps [of vs "(xs @ us) @ [r']" p] less.prems(1) ys by simp
    qed
  qed
qed

lemma Log_returns:
  assumes "wf_db d"
  shows "\<exists>r. Log s e d uri branch = Some r"
proof (cases "tip e d uri branch")
  case (Inr h)
  then have "h \<in> hashes (commits d)"
    using assms refs_ok_tip by (auto simp: wf_db_def tip_def split: if_splits)
  then show ?thesis
    using Inr assms log_loop_returns [of d "[]" "commits d" h] by (simp add: Log_def wf_db_def)
qed (simp add: Log_def)

subsection \<open>What the walk returns\<close>

fun mainline :: "store \<Rightarrow> env \<Rightarrow> db \<Rightarrow> string \<Rightarrow> commit list \<Rightarrow> bool" where
  "mainline s e d h [] \<longleftrightarrow> h = []"
| "mainline s e d h (c # cs) \<longleftrightarrow>
     h \<noteq> [] \<and> GetCommit s e d h = Inr c \<and> mainline s e d (c_Parent c) cs"

lemma mainline_unique: "mainline s e d h cs \<Longrightarrow> mainline s e d h cs' \<Longrightarrow> cs = cs'"
  by (induction cs arbitrary: h cs') (case_tac cs'; auto)+

lemma log_loop_sound:
  assumes "log_loop s e d h out = Some (Inr res)"
  shows "\<exists>cs. res = out @ cs \<and> mainline s e d h cs"
proof -
  have "\<forall>res. r = Inr res \<longrightarrow> (\<exists>cs. res = out @ cs \<and> mainline s e d h cs)"
    if "log_loop s e d h out = Some r" for r
    using that
  proof (induction rule: log_loop.raw_induct [rotated, consumes 1])
    case (1 f s e d h out r)
    show ?case
    proof (intro allI impI, cases "h = []")
      fix res
      assume "r = Inr res" "h = []"
      with 1(2) show "\<exists>cs. res = out @ cs \<and> mainline s e d h cs" by simp
    next
      fix res
      assume r: "r = Inr res" and h: "h \<noteq> []"
      then obtain c where c: "GetCommit s e d h = Inr c"
        using 1(2) by (cases "GetCommit s e d h") auto
      with 1(2) h have "f s e d (c_Parent c) (out @ [c]) = Some r" by simp
      from 1(1) [OF this] r obtain cs where "res = (out @ [c]) @ cs" "mainline s e d (c_Parent c) cs"
        by blast
      then have "res = out @ (c # cs) \<and> mainline s e d h (c # cs)" using c h by simp
      then show "\<exists>cs. res = out @ cs \<and> mainline s e d h cs" by blast
    qed
  qed
  with assms show ?thesis by blast
qed

lemma log_loop_complete:
  "mainline s e d h cs \<Longrightarrow> log_loop s e d h out = Some (Inr (out @ cs))"
  by (induction cs arbitrary: h out) (simp_all add: log_loop.simps)

lemma Log_iff:
  "Log s e d uri branch = Some (Inr cs) \<longleftrightarrow>
     (\<exists>h. tip e d uri branch = Inr h \<and> mainline s e d h cs)"
  by (auto simp: Log_def log_loop_complete dest: log_loop_sound split: sum.splits)

text \<open>The mainline visits rows in the order of their age, so none twice.\<close>

lemma mainline_older:
  assumes "rows_ok (commits d)"
  shows "commits d = xs @ ys \<Longrightarrow> h = [] \<or> h \<in> hashes ys \<Longrightarrow> mainline s e d h cs \<Longrightarrow>
    distinct (map c_Hash cs) \<and> set (map c_Hash cs) \<subseteq> hashes ys"
proof (induction cs arbitrary: xs ys h)
  case (Cons c cs)
  then obtain r where r: "commit_row_of d h = Some r" "scanCommit s r = Inr c" "c_Hash c = h"
    by (auto elim: GetCommit_Inr)
  from Cons.prems obtain us r' vs where ys: "ys = us @ r' # vs" "cr_hash r' = h"
    by (metis imageE mainline.simps(2) split_list)
  have ok: "rows_ok ((xs @ us) @ r' # vs)" using assms Cons.prems(1) ys by simp
  note older = rows_ok_split [OF ok]
  have "r = r'" using r(1) commit_row_of_iff [OF assms, of h r'] Cons.prems(1) ys by simp
  have "c_Parent c = [] \<or> c_Parent c \<in> hashes vs"
    using older(3) scanCommit_fields(4) [OF r(2)] \<open>r = r'\<close>
    by (cases "cr_parent r'") (simp_all add: null_string_def)
  moreover have "commits d = ((xs @ us) @ [r']) @ vs" using Cons.prems(1) ys by simp
  ultimately have "distinct (map c_Hash cs) \<and> set (map c_Hash cs) \<subseteq> hashes vs"
    using Cons.IH [of "(xs @ us) @ [r']" vs "c_Parent c"] Cons.prems(3) by simp
  with older(2) r(3) ys show ?case by auto
qed simp

lemma mainline_bound:
  assumes "wf_db d" and "tip e d uri branch = Inr h" and "mainline s e d h cs"
  shows "distinct (map c_Hash cs)" and "length cs \<le> length (commits d)"
    and "set (map c_Hash cs) \<subseteq> hashes (commits d)"
proof -
  have "h \<in> hashes (commits d)"
    using assms(1,2) refs_ok_tip by (auto simp: wf_db_def tip_def split: if_splits)
  then have m: "distinct (map c_Hash cs) \<and> set (map c_Hash cs) \<subseteq> hashes (commits d)"
    using mainline_older [of d "[]" "commits d" h] assms by (simp add: wf_db_def)
  then show "distinct (map c_Hash cs)" "set (map c_Hash cs) \<subseteq> hashes (commits d)" by simp_all
  from m have "card (set (map c_Hash cs)) \<le> card (hashes (commits d))"
    by (intro card_mono) simp_all
  also have "\<dots> \<le> length (commits d)"
    by (metis card_length length_map set_map)
  finally show "length cs \<le> length (commits d)"
    using m by (simp only: distinct_card length_map)
qed

end
