(* ===== verification/StoreContent.thy ===== *)
theory StoreContent
  imports StoreLog
begin

text \<open>
  What the store serves. Its rows always decode and carry the hash of what they hold
  (\<open>content_ok\<close>), under any cipher that opens what it sealed. On the operations of the server,
  and as long as SHA-256 does not collide on the messages hashed, a served row is the content of
  the prompt's \<open>main\<close> tip (\<open>head_sync\<close>): what \<open>Get\<close> answers, \<open>Resolve\<close> of \<open>main\<close> does.
\<close>

subsection \<open>What is hashed\<close>

definition hash_input :: "string \<Rightarrow> string list \<Rightarrow> bytes" where
  "hash_input template slots = template @ [CHR 0x00] @ Join slots [CHR 0x00]"

definition commit_input :: "string \<Rightarrow> string \<Rightarrow> string \<Rightarrow> string \<Rightarrow> string \<Rightarrow> bytes" where
  "commit_input vh parent parent2 author message =
     concat (map (\<lambda>p. p @ [CHR 0x00]) [vh, parent, parent2, author, message])"

lemma Hash_alt: "Hash H t sl = EncodeToString (H (hash_input t sl))"
  by (simp add: Hash_def hash_input_def)

lemma CommitHash_alt: "CommitHash H vh p p2 a m = EncodeToString (H (commit_input vh p p2 a m))"
  by (simp add: CommitHash_def commit_input_def)

text \<open>Text and slots without NUL bytes are recovered from what is hashed, and so is the lineage
  of a commit, whatever the author and the message are.\<close>

definition plain :: "string \<Rightarrow> string list \<Rightarrow> bool" where
  "plain template slots \<longleftrightarrow> CHR 0x00 \<notin> set template \<and> (\<forall>s \<in> set slots. s \<noteq> [] \<and> CHR 0x00 \<notin> set s)"

lemma Join_plain_inj:
  assumes "\<forall>x \<in> set xs. x \<noteq> [] \<and> c \<notin> set x" and "\<forall>y \<in> set ys. y \<noteq> [] \<and> c \<notin> set y"
    and "Join xs [c] = Join ys [c]"
  shows "xs = ys"
proof (cases "xs = [] \<or> ys = []")
  case True
  have "zs = []" if "Join zs [c] = []" "\<forall>z \<in> set zs. z \<noteq> [] \<and> c \<notin> set z" for zs
    using that by (cases zs) (auto simp: Join_Cons)
  with True assms show ?thesis by (metis Join.simps(1))
next
  case False
  with assms Join_inj [of xs c ys] show ?thesis by blast
qed

lemma hash_input_inj:
  assumes "plain t sl" and "plain t' sl'" and "hash_input t sl = hash_input t' sl'"
  shows "t = t' \<and> sl = sl'"
proof -
  have "t = t' \<and> Join sl [CHR 0x00] = Join sl' [CHR 0x00]"
    using assms append_sep_inj [of "CHR 0x00" t t'] by (simp add: hash_input_def plain_def)
  with assms Join_plain_inj [of sl "CHR 0x00" sl'] show ?thesis by (simp add: plain_def)
qed

lemma commit_input_inj:
  assumes "CHR 0x00 \<notin> set vh" "CHR 0x00 \<notin> set vh'" "CHR 0x00 \<notin> set p" "CHR 0x00 \<notin> set p'"
    and "CHR 0x00 \<notin> set p2" "CHR 0x00 \<notin> set p2'"
    and "commit_input vh p p2 a m = commit_input vh' p' p2' a' m'"
  shows "vh = vh' \<and> p = p' \<and> p2 = p2' \<and> a @ CHR 0x00 # m = a' @ CHR 0x00 # m'"
  using assms by (simp add: commit_input_def append_sep_inj)

lemma nul_notin_Hash [simp]: "CHR 0x00 \<notin> set (Hash H t sl)"
  by (simp add: Hash_def)

lemma nul_notin_commit_hash [simp]: "CHR 0x00 \<notin> set (commit_hash_of s t sl p p2 a m)"
  by (simp add: commit_hash_of_def CommitHash_def)

subsection \<open>Columns come back\<close>

definition env_ok :: "store \<Rightarrow> env \<Rightarrow> bool" where
  "env_ok s e \<longleftrightarrow> cipher_ok (aead s) (nonceT e) \<and> cipher_ok (aead s) (nonceS e)"

lemma open_col_seal: "cipher_ok (aead s) n \<Longrightarrow> open_col s (seal (aead s) n p) = Inr p"
  by (simp add: open_col_def open_seal)

lemma read_sealed:
  assumes "env_ok s e" and "list_all valid_utf8 sl"
  shows "read_columns s (seal (aead s) (nonceT e) t) (seal (aead s) (nonceS e) (json_marshal sl)) = Inr (t, sl)"
  using assms by (simp add: read_columns_def env_ok_def open_col_seal json_roundtrip)

lemma read_served [simp]:
  "env_ok s e \<Longrightarrow> list_all valid_utf8 sl \<Longrightarrow>
     read_columns s (pr_template (served_row s e t sl vh)) (pr_slots (served_row s e t sl vh)) = Inr (t, sl)"
  by (simp add: served_row_def read_sealed)

lemma served_vhash [simp]: "pr_vhash (served_row s e t sl vh) = vh"
  by (simp add: served_row_def)

lemma read_new_row [simp]:
  "env_ok s e \<Longrightarrow> list_all valid_utf8 sl \<Longrightarrow>
     read_columns s (cr_template (new_row s e uri t sl p p2 a m)) (cr_slots (new_row s e uri t sl p p2 a m))
       = Inr (t, sl)"
  by (simp add: new_row_def read_sealed)

lemma new_row_meta [simp]:
  "cr_author (new_row s e uri t sl p p2 a m) = a" "cr_message (new_row s e uri t sl p p2 a m) = m"
  by (simp_all add: new_row_def)

lemma null_to_null [simp]: "null_string (to_null p) = p"
  by (simp add: null_string_def to_null_def)

subsection \<open>Rows hold what their hashes say\<close>

definition row_content :: "store \<Rightarrow> commit_row \<Rightarrow> string \<Rightarrow> string list \<Rightarrow> bool" where
  "row_content s r t sl \<longleftrightarrow>
     read_columns s (cr_template r) (cr_slots r) = Inr (t, sl) \<and> list_all valid_utf8 sl
     \<and> cr_vhash r = Hash (sha s) t sl
     \<and> cr_hash r = commit_hash_of s t sl (null_string (cr_parent r)) (null_string (cr_parent2 r))
         (cr_author r) (cr_message r)"

definition served_content :: "store \<Rightarrow> prompt_row \<Rightarrow> string \<Rightarrow> string list \<Rightarrow> bool" where
  "served_content s r t sl \<longleftrightarrow>
     read_columns s (pr_template r) (pr_slots r) = Inr (t, sl) \<and> list_all valid_utf8 sl
     \<and> pr_vhash r = Hash (sha s) t sl"

definition content_ok :: "store \<Rightarrow> db \<Rightarrow> bool" where
  "content_ok s d \<longleftrightarrow>
     (\<forall>r \<in> set (commits d). \<exists>t sl. row_content s r t sl)
     \<and> (\<forall>r \<in> snd ` set (prompts d). \<exists>t sl. served_content s r t sl)"

lemma content_ok_empty: "content_ok s empty_db"
  by (simp add: content_ok_def empty_db_def)

lemma row_content_new:
  "env_ok s e \<Longrightarrow> list_all valid_utf8 sl \<Longrightarrow> row_content s (new_row s e uri t sl p p2 a m) t sl"
  by (simp add: row_content_def)

lemma served_content_new:
  "env_ok s e \<Longrightarrow> list_all valid_utf8 sl \<Longrightarrow> vh = Hash (sha s) t sl \<Longrightarrow>
     served_content s (served_row s e t sl vh) t sl"
  by (simp add: served_content_def)

lemma set_insert_commit: "set (commits (insert_commit r d)) \<subseteq> insert r (set (commits d))"
  by (auto simp: insert_commit_def)

lemma content_ok_insert_commit:
  assumes "content_ok s d" and "row_content s r t sl"
  shows "content_ok s (insert_commit r d)"
  using assms set_insert_commit [of r d] by (auto simp: content_ok_def)

lemma content_ok_upsert:
  assumes "content_ok s d" and "served_content s r t sl"
  shows "content_ok s (upsert_prompt uri r d)"
proof -
  have "snd ` set (AList.update uri r (prompts d)) \<subseteq> insert r (snd ` set (prompts d))"
    by (rule snd_update_subset)
  then have "\<forall>r' \<in> snd ` set (AList.update uri r (prompts d)). r' = r \<or> r' \<in> snd ` set (prompts d)"
    by blast
  with assms show ?thesis unfolding content_ok_def upsert_frame by metis
qed

lemma content_ok_refs: "content_ok s (upsert_ref uri branch h d) = content_ok s d"
  by (simp add: content_ok_def)

lemma content_ok_move:
  assumes "content_ok s d" and "served_content s r t sl"
  shows "content_ok s (move_branch uri branch h r d)"
  using assms by (simp add: move_branch_def Let_def content_ok_upsert content_ok_refs)

lemma content_ok_commit:
  assumes "content_ok s d" and "env_ok s e" and "list_all valid_utf8 sl"
  shows "content_ok s (move_branch uri branch h (served_row s e t sl (Hash (sha s) t sl))
    (insert_commit (new_row s e uri t sl p p2 a m) d))"
  by (rule content_ok_move [OF content_ok_insert_commit [OF assms(1) row_content_new]
        served_content_new]) (use assms in simp_all)

lemma GetCommit_content:
  assumes "content_ok s d" and "GetCommit s e d h = Inr c"
  obtains r where "commit_row_of d h = Some r" "r \<in> set (commits d)" "c_Hash c = h"
    "row_content s r (c_Template c) (c_Slots c)" "scanCommit s r = Inr c"
proof -
  from assms(2) obtain r where r: "commit_row_of d h = Some r" "scanCommit s r = Inr c" "c_Hash c = h"
    by (rule GetCommit_Inr)
  then have "r \<in> set (commits d)" by (auto simp: commit_row_of_def dest: find_Some_in)
  moreover from this assms(1) obtain t sl where "row_content s r t sl"
    by (auto simp: content_ok_def)
  moreover from this scanCommit_fields(8) [OF r(2)] have "t = c_Template c" "sl = c_Slots c"
    by (simp_all add: row_content_def)
  ultimately show thesis using that r by blast
qed

lemma GetCommit_hashes:
  assumes "content_ok s d" and "GetCommit s e d h = Inr c"
  shows "c_VersionHash c = Hash (sha s) (c_Template c) (c_Slots c)"
    and "h = CommitHash (sha s) (c_VersionHash c) (c_Parent c) (c_Parent2 c) (c_Author c) (c_Message c)"
    and "list_all valid_utf8 (c_Slots c)"
proof -
  from assms obtain r where r: "commit_row_of d h = Some r"
    "row_content s r (c_Template c) (c_Slots c)" "scanCommit s r = Inr c" "c_Hash c = h"
    by (rule GetCommit_content)
  note f = scanCommit_fields [OF r(3)]
  from r(2) f show "c_VersionHash c = Hash (sha s) (c_Template c) (c_Slots c)"
    and "list_all valid_utf8 (c_Slots c)"
    and "h = CommitHash (sha s) (c_VersionHash c) (c_Parent c) (c_Parent2 c) (c_Author c) (c_Message c)"
    using r(4) by (simp_all add: row_content_def commit_hash_of_def)
qed

text \<open>The strings of a request are valid UTF-8 (gRPC refuses others).\<close>

fun op_utf8 :: "store_op \<Rightarrow> bool" where
  "op_utf8 (OpPut p) = list_all valid_utf8 (Slots p)"
| "op_utf8 (OpCommit uri branch template slots author message) = list_all valid_utf8 slots"
| "op_utf8 _ = True"

lemma apply_op_content:
  assumes "apply_op s e opn d = (r, d')" and "content_ok s d" and "env_ok s e" and "op_utf8 opn"
  shows "content_ok s d'"
proof (cases r)
  case (Some er)
  with assms show ?thesis using apply_op_atomic by blast
next
  case None
  show ?thesis
  proof (cases opn)
    case (OpPut p)
    with None assms have "Put s e p d = (Inr (), d')" by (auto simp: err_of_None)
    then show ?thesis
    proof (cases rule: Put_cases)
      case succeeded
      with OpPut assms show ?thesis
        by (auto intro!: content_ok_upsert served_content_new)
    qed simp
  next
    case (OpCommit uri branch t sl a m)
    with None assms obtain h where "Commit s e uri branch t sl a m d = (Inr h, d')"
      by (auto simp: err_of_None)
    then show ?thesis
      by (cases rule: Commit_cases) (use OpCommit assms content_ok_commit in auto)
  next
    case (OpBranch uri name src)
    with None assms have "Branch e uri name src d = (Inr (), d')" by (auto simp: err_of_None)
    then show ?thesis
      by (cases rule: Branch_cases) (use assms content_ok_refs in auto)
  next
    case (OpMerge uri into src a m)
    with None assms obtain h where "Merge s e uri into src a m d = (Inr h, d')"
      by (auto simp: err_of_None)
    then show ?thesis
      by (cases rule: Merge_cases)
        (use assms content_ok_commit GetCommit_hashes(3) [OF assms(2)] in auto)
  next
    case (OpSetBranch uri branch h)
    with None assms obtain c where "SetBranch s e uri branch h d = (Inr c, d')"
      by (auto simp: err_of_None)
    then show ?thesis
    proof (cases rule: SetBranch_cases)
      case (succeeded c')
      then show ?thesis
        using assms GetCommit_hashes [OF assms(2) succeeded(2)]
        by (auto intro!: content_ok_move served_content_new)
    qed simp
  qed
qed

end
