(* ===== verification/StoreHead.thy ===== *)
theory StoreHead
  imports StoreContent
begin

text \<open>
  The served row and the branch \<open>main\<close>. \<open>run s M d\<close> are the databases the server's own
  operations reach, hashing only messages of \<open>M\<close>; as long as the digest has no collision on
  \<open>M\<close>, a served row is the content of the tip of the prompt's \<open>main\<close> (\<open>head_sync\<close>), and
  so \<open>Get\<close> answers what \<open>Resolve\<close> of \<open>main\<close> answers. History only grows (\<open>history_grows\<close>),
  and what a commit, merge or rollback serves is stated operation by operation.
\<close>

subsection \<open>History only grows\<close>

lemma commit_row_insert_other:
  "commit_row_of d h = Some r \<Longrightarrow> commit_row_of (insert_commit r' d) h = Some r"
  by (auto simp: commit_row_of_def insert_commit_def list_ex_iff dest: find_Some_in)

lemma commit_row_insert_new:
  "commit_row_of d (cr_hash r) = None \<Longrightarrow> commit_row_of (insert_commit r d) (cr_hash r) = Some r"
  by (auto simp: commit_row_of_def insert_commit_def list_ex_iff find_None_iff)

lemma commit_row_frame [simp]:
  "commit_row_of (move_branch uri branch h r d) = commit_row_of d"
  "commit_row_of (upsert_ref uri branch h d) = commit_row_of d"
  "commit_row_of (upsert_prompt uri r d) = commit_row_of d"
  by (simp_all add: commit_row_of_def fun_eq_iff)

lemma apply_op_commits:
  assumes "apply_op s e opn d = (r, d')"
  shows "\<exists>new. commits d' = new @ commits d \<and> length new \<le> 1"
proof (cases r)
  case (Some er)
  with assms show ?thesis using apply_op_atomic by fastforce
next
  case None
  have ins: "\<exists>new. commits (insert_commit x d) = new @ commits d \<and> length new \<le> 1" for x
    by (auto simp: insert_commit_def intro: exI [of _ "[x]"])
  show ?thesis
    using assms None ins
    by (cases opn)
      (auto simp: err_of_None elim!: Put_cases Commit_cases Branch_cases Merge_cases SetBranch_cases)
qed

lemma find_append:
  "List.find P (xs @ ys) = (case List.find P xs of None \<Rightarrow> List.find P ys | Some x \<Rightarrow> Some x)"
  by (induction xs) auto

lemma history_grows:
  assumes "apply_op s e opn d = (r, d')" and "commit_row_of d h = Some x" and "wf_db d'"
  shows "commit_row_of d' h = Some x"
proof -
  from assms(1) obtain new where new: "commits d' = new @ commits d"
    using apply_op_commits by blast
  have x: "x \<in> set (commits d)" "cr_hash x = h"
    using assms(2) by (auto simp: commit_row_of_def dest: find_Some_in)
  with assms(3) new commit_row_of_iff [of d' h x] show ?thesis
    by (simp add: wf_db_def)
qed

lemma GetCommit_row: "commit_row_of d h = commit_row_of d' h \<Longrightarrow> GetCommit s e d h = GetCommit s e d' h"
  by (simp add: GetCommit_def)

subsection \<open>What the server does\<close>

definition commit_msgs :: "store \<Rightarrow> string \<Rightarrow> string list \<Rightarrow> string \<Rightarrow> string \<Rightarrow> string \<Rightarrow> string \<Rightarrow> bytes set" where
  "commit_msgs s t sl p p2 a m = {hash_input t sl, commit_input (Hash (sha s) t sl) p p2 a m}"

text \<open>The messages an operation hashes over \<open>d\<close>.\<close>

fun op_msgs :: "store \<Rightarrow> env \<Rightarrow> store_op \<Rightarrow> db \<Rightarrow> bytes set" where
  "op_msgs s e (OpCommit uri branch t sl a m) d =
     commit_msgs s t sl (null_string (map_of (refs d) (uri, branch))) [] a m"
| "op_msgs s e (OpMerge uri into src a m) d =
     (case (map_of (refs d) (uri, into), map_of (refs d) (uri, src)) of
        (Some dst, Some h) \<Rightarrow>
          (case GetCommit s e d h of
             Inl er \<Rightarrow> {}
           | Inr c \<Rightarrow> commit_msgs s (c_Template c) (c_Slots c) dst h a
               (if m = [] then ''merge '' @ src @ '' into '' @ into else m))
      | _ \<Rightarrow> {})"
| "op_msgs s e _ d = {}"

text \<open>The operations of the server: it never calls \<open>Put\<close>, gRPC carries valid UTF-8 only, and validation
  leaves no slot name empty or with a NUL byte. That the template has none is asked for (see
  \<open>nul_bytes_confuse_versions\<close>). A branch may have any name, \<open>main\<close> too.\<close>

fun server_op :: "store_op \<Rightarrow> bool" where
  "server_op (OpPut p) = False"
| "server_op (OpCommit uri branch t sl a m) = (list_all valid_utf8 sl \<and> plain t sl)"
| "server_op _ = True"

inductive run :: "store \<Rightarrow> bytes set \<Rightarrow> db \<Rightarrow> bool" for s M where
  run_start: "run s M empty_db"
| run_step: "run s M d \<Longrightarrow> apply_op s e opn d = (r, d') \<Longrightarrow> env_ok s e \<Longrightarrow> server_op opn \<Longrightarrow>
    op_msgs s e opn d \<subseteq> M \<Longrightarrow> run s M d'"

inductive_cases run_stepE: "run s M d"

definition hashed_ok :: "store \<Rightarrow> bytes set \<Rightarrow> commit_row \<Rightarrow> bool" where
  "hashed_ok s M r \<longleftrightarrow> (\<forall>t sl. row_content s r t sl \<longrightarrow> plain t sl \<and>
     commit_msgs s t sl (null_string (cr_parent r)) (null_string (cr_parent2 r)) (cr_author r) (cr_message r) \<subseteq> M)"

text \<open>A served row is that of the tip of \<open>main\<close>. There may be a \<open>main\<close> and no served row, if the branch
  was created under that name.\<close>

definition head_row :: "store \<Rightarrow> db \<Rightarrow> prompt_row \<Rightarrow> string option \<Rightarrow> bool" where
  "head_row s d p tip_hash \<longleftrightarrow> (\<exists>h r. tip_hash = Some h \<and> commit_row_of d h = Some r \<and> pr_vhash p = cr_vhash r
     \<and> read_columns s (pr_template p) (pr_slots p) = read_columns s (cr_template r) (cr_slots r))"

definition head_sync :: "store \<Rightarrow> db \<Rightarrow> bool" where
  "head_sync s d \<longleftrightarrow>
     (\<forall>uri p. map_of (prompts d) uri = Some p \<longrightarrow> head_row s d p (map_of (refs d) (uri, DefaultBranch)))"

definition synced :: "store \<Rightarrow> bytes set \<Rightarrow> db \<Rightarrow> bool" where
  "synced s M d \<longleftrightarrow> wf_db d \<and> content_ok s d \<and> (\<forall>r \<in> set (commits d). hashed_ok s M r) \<and> head_sync s d"

lemma row_content_unique:
  "row_content s r t sl \<Longrightarrow> row_content s r t' sl' \<Longrightarrow> t = t' \<and> sl = sl'"
  by (simp add: row_content_def)

lemma parents_older:
  assumes "rows_ok rs" and "r \<in> set rs"
  shows "cr_parent r = Some p \<Longrightarrow> p \<in> hashes rs" and "cr_parent2 r = Some p \<Longrightarrow> p \<in> hashes rs"
proof -
  from assms(2) obtain xs ys where "rs = xs @ r # ys" by (meson split_list)
  with assms(1) rows_ok_split [of xs r ys]
  show "cr_parent r = Some p \<Longrightarrow> p \<in> hashes rs" and "cr_parent2 r = Some p \<Longrightarrow> p \<in> hashes rs"
    by auto
qed

lemma hashes_plain:
  assumes "content_ok s d" and "h \<in> hashes (commits d)"
  shows "CHR 0x00 \<notin> set h"
  using assms by (auto simp: content_ok_def row_content_def commit_hash_of_def CommitHash_def)

lemma parents_plain:
  assumes "wf_db d" and "content_ok s d" and "r \<in> set (commits d)"
  shows "CHR 0x00 \<notin> set (null_string (cr_parent r))" and "CHR 0x00 \<notin> set (null_string (cr_parent2 r))"
proof -
  have ok: "rows_ok (commits d)" using assms(1) by (simp add: wf_db_def)
  show "CHR 0x00 \<notin> set (null_string (cr_parent r))"
    using parents_older(1) [OF ok assms(3)] hashes_plain [OF assms(2)]
    by (cases "cr_parent r") (simp_all add: null_string_def)
  show "CHR 0x00 \<notin> set (null_string (cr_parent2 r))"
    using parents_older(2) [OF ok assms(3)] hashes_plain [OF assms(2)]
    by (cases "cr_parent2 r") (simp_all add: null_string_def)
qed

text \<open>Without collisions, a row under the hash of a new commit has its content already.\<close>

lemma same_hash_same_content:
  assumes "inj_on (sha s) M" and "wf_db d" and "content_ok s d" and "r \<in> set (commits d)"
    and "hashed_ok s M r" and "cr_hash r = commit_hash_of s t sl p p2 a m"
    and "plain t sl" and "CHR 0x00 \<notin> set p" and "CHR 0x00 \<notin> set p2"
    and "commit_msgs s t sl p p2 a m \<subseteq> M"
  shows "row_content s r t sl" and "null_string (cr_parent r) = p" and "null_string (cr_parent2 r) = p2"
proof -
  from assms(3,4) obtain t' sl' where rc: "row_content s r t' sl'" by (auto simp: content_ok_def)
  with assms(5) have pl: "plain t' sl'" and inM: "commit_msgs s t' sl' (null_string (cr_parent r))
      (null_string (cr_parent2 r)) (cr_author r) (cr_message r) \<subseteq> M"
    by (auto simp: hashed_ok_def)
  from rc assms(6) have "sha s (commit_input (Hash (sha s) t' sl') (null_string (cr_parent r))
      (null_string (cr_parent2 r)) (cr_author r) (cr_message r))
    = sha s (commit_input (Hash (sha s) t sl) p p2 a m)"
    by (simp add: row_content_def commit_hash_of_def CommitHash_alt EncodeToString_inj)
  then have "commit_input (Hash (sha s) t' sl') (null_string (cr_parent r))
      (null_string (cr_parent2 r)) (cr_author r) (cr_message r)
    = commit_input (Hash (sha s) t sl) p p2 a m"
    using assms(1,10) inM by (auto simp: commit_msgs_def dest: inj_onD)
  from commit_input_inj [OF _ _ _ _ _ _ this]
  have eq: "Hash (sha s) t' sl' = Hash (sha s) t sl" "null_string (cr_parent r) = p"
    "null_string (cr_parent2 r) = p2"
    using parents_plain [OF assms(2-4)] assms(8,9) by simp_all
  from eq(1) have "sha s (hash_input t' sl') = sha s (hash_input t sl)"
    by (simp add: Hash_alt EncodeToString_inj)
  then have "hash_input t' sl' = hash_input t sl"
    using assms(1,10) inM by (auto simp: commit_msgs_def dest: inj_onD)
  with pl assms(7) have "t' = t \<and> sl' = sl" by (rule hash_input_inj)
  with rc eq show "row_content s r t sl" "null_string (cr_parent r) = p" "null_string (cr_parent2 r) = p2"
    by simp_all
qed

subsection \<open>The served row is the tip of main\<close>

lemma head_row_newer:
  "head_row s d p tip_hash \<Longrightarrow> (\<And>h r. commit_row_of d h = Some r \<Longrightarrow> commit_row_of d' h = Some r) \<Longrightarrow> head_row s d' p tip_hash"
  by (auto simp: head_row_def)

text \<open>A new branch, whatever its name, and a branch other than \<open>main\<close> that moves.\<close>

lemma head_sync_other:
  assumes "head_sync s d" and "branch \<noteq> DefaultBranch \<or> map_of (refs d) (uri, branch) = None"
    and "\<And>h r. commit_row_of d h = Some r \<Longrightarrow> commit_row_of d' h = Some r"
    and "refs d' = AList.update (uri, branch) h (refs d)" and "prompts d' = prompts d"
  shows "head_sync s d'"
  unfolding head_sync_def
proof (intro allI impI)
  fix u p
  assume "map_of (prompts d') u = Some p"
  then have old: "head_row s d p (map_of (refs d) (u, DefaultBranch))"
    using assms(1,5) by (simp add: head_sync_def)
  then have "map_of (refs d) (u, DefaultBranch) \<noteq> None" by (auto simp: head_row_def)
  with assms(2) have "map_of (refs d') (u, DefaultBranch) = map_of (refs d) (u, DefaultBranch)"
    by (auto simp: assms(4) update_conv')
  with head_row_newer [OF old assms(3)] show "head_row s d' p (map_of (refs d') (u, DefaultBranch))" by simp
qed

lemma head_sync_main:
  assumes "head_sync s d" and "commit_row_of d' h = Some r"
    and "\<And>h r. commit_row_of d h = Some r \<Longrightarrow> commit_row_of d' h = Some r"
    and "refs d' = AList.update (uri, DefaultBranch) h (refs d)"
    and "prompts d' = AList.update uri p (prompts d)" and "pr_vhash p = cr_vhash r"
    and "read_columns s (pr_template p) (pr_slots p) = read_columns s (cr_template r) (cr_slots r)"
  shows "head_sync s d'"
  unfolding head_sync_def
proof (intro allI impI)
  fix u q
  assume q: "map_of (prompts d') u = Some q"
  show "head_row s d' q (map_of (refs d') (u, DefaultBranch))"
  proof (cases "u = uri")
    case True
    with q assms(2,4-7) show ?thesis by (auto simp: head_row_def update_conv')
  next
    case False
    with q assms(1,5) have "head_row s d q (map_of (refs d) (u, DefaultBranch))"
      by (simp add: head_sync_def update_conv')
    with head_row_newer [OF this assms(3)] False show ?thesis by (simp add: assms(4) update_conv')
  qed
qed

lemma head_sync_move:
  assumes "head_sync s d" and "commit_row_of d' h = Some r"
    and "\<And>h r. commit_row_of d h = Some r \<Longrightarrow> commit_row_of d' h = Some r"
    and "refs d' = refs d" and "prompts d' = prompts d"
    and "pr_vhash p = cr_vhash r"
    and "read_columns s (pr_template p) (pr_slots p) = read_columns s (cr_template r) (cr_slots r)"
  shows "head_sync s (move_branch uri branch h p d')"
proof (cases "branch = DefaultBranch")
  case True
  show ?thesis
    by (rule head_sync_main [OF assms(1), of _ h r uri p]) (use assms True in simp_all)
next
  case False
  show ?thesis
    by (rule head_sync_other [OF assms(1) disjI1 [OF False], of _ uri h]) (use assms False in simp_all)
qed

text \<open>The row found under a new commit's hash, inserted now or there already.\<close>

lemma row_after_insert:
  assumes "inj_on (sha s) M" and "synced s M d" and "env_ok s e" and "list_all valid_utf8 sl"
    and "plain t sl" and "p = [] \<or> p \<in> hashes (commits d)" and "p2 = [] \<or> p2 \<in> hashes (commits d)"
    and "commit_msgs s t sl p p2 a m \<subseteq> M"
  shows "\<exists>r. commit_row_of (insert_commit (new_row s e uri t sl p p2 a m) d) (commit_hash_of s t sl p p2 a m)
      = Some r \<and> row_content s r t sl \<and> null_string (cr_parent r) = p \<and> null_string (cr_parent2 r) = p2"
proof (cases "commit_row_of d (commit_hash_of s t sl p p2 a m)")
  case None
  then show ?thesis
    using commit_row_insert_new [of d "new_row s e uri t sl p p2 a m"] row_content_new [OF assms(3,4)]
    by simp
next
  case (Some r)
  have wf: "wf_db d" "content_ok s d" using assms(2) by (simp_all add: synced_def)
  have r: "r \<in> set (commits d)" "cr_hash r = commit_hash_of s t sl p p2 a m"
    using Some by (auto simp: commit_row_of_def dest: find_Some_in)
  have nul: "CHR 0x00 \<notin> set p" "CHR 0x00 \<notin> set p2"
    using assms(6,7) hashes_plain [OF wf(2)] by auto
  have "hashed_ok s M r" using assms(2) r(1) by (simp add: synced_def)
  note same = same_hash_same_content [OF assms(1) wf r(1) this r(2) assms(5) nul assms(8)]
  with Some show ?thesis by (blast intro: commit_row_insert_other)
qed

lemma hashed_ok_new:
  assumes "env_ok s e" and "list_all valid_utf8 sl" and "plain t sl" and "commit_msgs s t sl p p2 a m \<subseteq> M"
  shows "hashed_ok s M (new_row s e uri t sl p p2 a m)"
  unfolding hashed_ok_def
proof (intro allI impI)
  fix t' sl'
  assume "row_content s (new_row s e uri t sl p p2 a m) t' sl'"
  from row_content_unique [OF this row_content_new [OF assms(1,2)]] have "t' = t \<and> sl' = sl" .
  with assms show "plain t' sl' \<and> commit_msgs s t' sl'
      (null_string (cr_parent (new_row s e uri t sl p p2 a m)))
      (null_string (cr_parent2 (new_row s e uri t sl p p2 a m)))
      (cr_author (new_row s e uri t sl p p2 a m)) (cr_message (new_row s e uri t sl p p2 a m)) \<subseteq> M"
    by simp
qed

lemma synced_commit:
  assumes "inj_on (sha s) M" and "sha_ok s" and "synced s M d" and "env_ok s e" and "list_all valid_utf8 sl"
    and "plain t sl" and "p = [] \<or> p \<in> hashes (commits d)" and "p2 = [] \<or> p2 \<in> hashes (commits d)"
    and "commit_msgs s t sl p p2 a m \<subseteq> M"
  shows "synced s M (move_branch uri branch (commit_hash_of s t sl p p2 a m)
    (served_row s e t sl (Hash (sha s) t sl)) (insert_commit (new_row s e uri t sl p p2 a m) d))"
proof -
  let ?d = "insert_commit (new_row s e uri t sl p p2 a m) d"
  have old: "wf_db d" "content_ok s d" "head_sync s d" "\<forall>r \<in> set (commits d). hashed_ok s M r"
    using assms(3) by (simp_all add: synced_def)
  obtain r where r: "commit_row_of ?d (commit_hash_of s t sl p p2 a m) = Some r" "row_content s r t sl"
    using row_after_insert [OF assms(1,3-9)] by blast
  have "head_sync s (move_branch uri branch (commit_hash_of s t sl p p2 a m)
      (served_row s e t sl (Hash (sha s) t sl)) ?d)"
    by (rule head_sync_move [OF old(3) r(1)])
      (use r(2) assms(4,5) commit_row_insert_other in \<open>simp_all add: row_content_def\<close>)
  moreover have "\<forall>r \<in> set (commits ?d). hashed_ok s M r"
    using old(4) hashed_ok_new [OF assms(4-6,9)] set_insert_commit [of "new_row s e uri t sl p p2 a m" d]
    by blast
  ultimately show ?thesis
    using wf_commit [OF old(1) assms(2,7,8)] content_ok_commit [OF old(2) assms(4,5)]
    by (simp add: synced_def)
qed

text \<open>The two writes that copy an earlier commit: a merge and a rollback.\<close>

lemma synced_merge:
  assumes "inj_on (sha s) M" and "sha_ok s" and "synced s M d" and "env_ok s e"
    and "Merge s e uri into src a m d = (Inr h, d')" and "op_msgs s e (OpMerge uri into src a m) d \<subseteq> M"
  shows "synced s M d'"
  using assms(5)
proof (cases rule: Merge_cases)
  case (succeeded dst h' c msg)
  have old: "wf_db d" "content_ok s d" "\<forall>r \<in> set (commits d). hashed_ok s M r"
    using assms(3) by (simp_all add: synced_def)
  have tip: "map_of (refs d) k = Some h \<Longrightarrow> h \<in> hashes (commits d)" for k h
    using old(1) refs_ok_tip by (auto simp: wf_db_def)
  from old(2) succeeded(3) obtain x where x: "x \<in> set (commits d)" "row_content s x (c_Template c) (c_Slots c)"
    by (rule GetCommit_content)
  then have "plain (c_Template c) (c_Slots c)" "list_all valid_utf8 (c_Slots c)"
    using old(3) by (auto simp: hashed_ok_def row_content_def)
  moreover have "dst \<in> hashes (commits d)" "h' \<in> hashes (commits d)"
    using succeeded(1,2) tip by blast+
  moreover have "commit_msgs s (c_Template c) (c_Slots c) dst h' a msg \<subseteq> M"
    using assms(6) succeeded(1-4) by simp
  ultimately show ?thesis
    unfolding succeeded(6) by (intro synced_commit assms) simp_all
qed simp

lemma synced_rollback:
  assumes "sha_ok s" and "synced s M d" and "env_ok s e" and "SetBranch s e uri branch h d = (Inr c, d')"
  shows "synced s M d'"
  using assms(4)
proof (cases rule: SetBranch_cases)
  case (succeeded c')
  have old: "wf_db d" "content_ok s d" "head_sync s d" "\<forall>r \<in> set (commits d). hashed_ok s M r"
    using assms(2) by (simp_all add: synced_def)
  have op: "apply_op s e (OpSetBranch uri branch h) d = (None, d')" using assms(4) by (simp add: err_of_def)
  from old(2) succeeded(2) obtain x where x: "commit_row_of d h = Some x"
    "row_content s x (c_Template c') (c_Slots c')" "scanCommit s x = Inr c'"
    by (rule GetCommit_content)
  have "head_sync s d'"
    unfolding succeeded(4)
    by (rule head_sync_move [OF old(3) x(1)])
      (use x(2,3) assms(3) scanCommit_fields(3) [OF x(3)] in \<open>simp_all add: row_content_def\<close>)
  moreover have "wf_db d'" using apply_op_wf [OF op old(1) assms(1)] .
  moreover have "content_ok s d'" using apply_op_content [OF op old(2) assms(3)] by simp
  ultimately show ?thesis using succeeded(4) old(4) by (simp add: synced_def)
qed simp

lemma apply_op_synced:
  assumes "inj_on (sha s) M" and "sha_ok s" and "synced s M d" and "apply_op s e opn d = (r, d')"
    and "env_ok s e" and "server_op opn" and "op_msgs s e opn d \<subseteq> M"
  shows "synced s M d'"
proof (cases r)
  case (Some er)
  with assms show ?thesis using apply_op_atomic by blast
next
  case None
  have old: "wf_db d" "content_ok s d" "head_sync s d" "\<forall>r \<in> set (commits d). hashed_ok s M r"
    using assms(3) by (simp_all add: synced_def)
  have tip: "map_of (refs d) k = Some h \<Longrightarrow> h \<in> hashes (commits d)" for k h
    using old(1) refs_ok_tip by (auto simp: wf_db_def)
  show ?thesis
  proof (cases opn)
    case (OpPut p)
    with assms(6) show ?thesis by simp
  next
    case (OpCommit uri branch t sl a m)
    with None assms obtain h where "Commit s e uri branch t sl a m d = (Inr h, d')"
      by (auto simp: err_of_None)
    then show ?thesis
    proof (cases rule: Commit_cases)
      case (succeeded p)
      have "p = [] \<or> p \<in> hashes (commits d)"
        using succeeded(1) tip by (auto simp: null_string_def split: option.splits)
      with succeeded assms OpCommit show ?thesis by (auto intro!: synced_commit)
    qed simp
  next
    case (OpBranch uri name src)
    with None assms have "Branch e uri name src d = (Inr (), d')" by (auto simp: err_of_None)
    then show ?thesis
    proof (cases rule: Branch_cases)
      case (succeeded h)
      have "wf_db d'"
        using apply_op_wf [OF assms(4) old(1) assms(2)] .
      moreover have "head_sync s d'"
        by (rule head_sync_other [OF old(3) disjI2 [OF succeeded(3)], of _ h]) (use succeeded in simp_all)
      ultimately show ?thesis
        using succeeded old by (simp add: synced_def content_ok_refs)
    qed simp
  next
    case (OpMerge uri into src a m)
    with None assms obtain h where "Merge s e uri into src a m d = (Inr h, d')"
      by (auto simp: err_of_None)
    with synced_merge [OF assms(1-3,5)] assms(7) OpMerge show ?thesis by simp
  next
    case (OpSetBranch uri branch h)
    with None assms obtain c where "SetBranch s e uri branch h d = (Inr c, d')"
      by (auto simp: err_of_None)
    with synced_rollback [OF assms(2,3,5)] show ?thesis .
  qed
qed

lemma synced_empty: "synced s M empty_db"
  by (simp add: synced_def wf_empty content_ok_empty) (simp add: empty_db_def head_sync_def)

lemma run_synced: "run s M d \<Longrightarrow> inj_on (sha s) M \<Longrightarrow> sha_ok s \<Longrightarrow> synced s M d"
  by (induction rule: run.induct) (auto intro: synced_empty apply_op_synced)

end
