(* ===== verification/StoreProps.thy ===== *)
theory StoreProps
  imports StoreHead Validate
begin

text \<open>
  The promises of the store to its callers, operation by operation: integrity of what is read,
  the served head, histories, merges, rollbacks, and the isolation of prompts and branches from
  each other. A small concrete store (\<open>demo\<close>) shows that their hypotheses hold together.
\<close>

subsection \<open>A concrete store\<close>

text \<open>A 32-byte digest that is cheap to evaluate, and a store without a key over it.\<close>

definition demo_sha :: "bytes \<Rightarrow> bytes" where
  "demo_sha m = take 32 (rev m @ replicate 32 (CHR 0x00))"

definition demo :: store where
  "demo = \<lparr>st_driver = Sqlite, aead = None, sha = demo_sha, order_key = id\<rparr>"

definition calm :: env where
  "calm = \<lparr>fails = \<lambda>_. False, now = 0, nonceT = [], nonceS = []\<rparr>"

definition demo_uri :: string where "demo_uri = ''promptnet://acme/a''"

definition demo_db :: db where
  "demo_db = snd (Commit demo calm demo_uri ''main'' ''Hi {n}'' [''n''] ''acme'' ''first'' empty_db)"

definition demo_hash :: string where
  "demo_hash = commit_hash_of demo ''Hi {n}'' [''n''] [] [] ''acme'' ''first''"

definition demo_M :: "bytes set" where
  "demo_M = commit_msgs demo ''Hi {n}'' [''n''] [] [] ''acme'' ''first''"

lemma demo_ok [simp]: "sha_ok demo" "env_ok demo calm" "\<not> fails calm q" "env_ok demo (calm\<lparr>now := n\<rparr>)"
  by (auto simp: sha_ok_def env_ok_def cipher_ok_def demo_def demo_sha_def calm_def min_def)

lemma demo_plain [simp]: "plain ''Hi {n}'' [''n'']" "valid_utf8 ''n''"
  by (simp add: plain_def, simp add: ascii_valid_utf8 byte_def)

lemma demo_commit:
  "Commit demo calm demo_uri ''main'' ''Hi {n}'' [''n''] ''acme'' ''first'' empty_db = (Inr demo_hash, demo_db)"
proof -
  have "fst (Commit demo calm demo_uri ''main'' ''Hi {n}'' [''n''] ''acme'' ''first'' empty_db) = Inr demo_hash"
    by (simp add: Commit_def tip_def empty_db_def commitTx_def Let_def transaction_def stmt_def
        demo_hash_def commit_hash_of_def DefaultBranch_def)
  then show ?thesis by (simp add: demo_db_def prod_eq_iff)
qed

lemma demo_db_eq:
  "demo_db = move_branch demo_uri ''main'' demo_hash
     (served_row demo calm ''Hi {n}'' [''n''] (Hash demo_sha ''Hi {n}'' [''n'']))
     (insert_commit (new_row demo calm demo_uri ''Hi {n}'' [''n''] [] [] ''acme'' ''first'') empty_db)"
  using demo_commit by (rule Commit_cases) (simp_all add: demo_hash_def empty_db_def demo_def null_string_def)

lemma demo_run: "run demo demo_M demo_db"
proof (rule run_step [OF run_start])
  show "apply_op demo calm (OpCommit demo_uri ''main'' ''Hi {n}'' [''n''] ''acme'' ''first'') empty_db = (None, demo_db)"
    by (simp add: demo_commit err_of_def)
qed (simp_all add: demo_plain demo_M_def empty_db_def null_string_def)

lemma demo_inj: "inj_on (sha demo) demo_M"
proof -
  have "sha demo (hash_input ''Hi {n}'' [''n'']) \<noteq>
    sha demo (commit_input (Hash (sha demo) ''Hi {n}'' [''n'']) [] [] ''acme'' ''first'')"
    by (simp add: demo_def demo_sha_def hash_input_def commit_input_def)
  then show ?thesis by (auto simp: demo_M_def commit_msgs_def)
qed

lemma demo_synced: "synced demo demo_M demo_db"
  using demo_run demo_inj by (rule run_synced) simp

lemma demo_tip: "map_of (refs demo_db) (demo_uri, ''main'') = Some demo_hash"
  by (simp add: demo_db_eq empty_db_def)

lemma demo_row: "commit_row_of demo_db demo_hash =
    Some (new_row demo calm demo_uri ''Hi {n}'' [''n''] [] [] ''acme'' ''first'')"
  using commit_row_insert_new [of empty_db "new_row demo calm demo_uri ''Hi {n}'' [''n''] [] [] ''acme'' ''first''"]
  by (simp add: demo_db_eq demo_hash_def) (simp add: commit_row_of_def empty_db_def)

lemma demo_GetCommit: "GetCommit demo e demo_db demo_hash = Inr
    \<lparr>c_Hash = demo_hash, c_URI = demo_uri, c_Template = ''Hi {n}'', c_Slots = [''n''],
     c_VersionHash = Hash demo_sha ''Hi {n}'' [''n''], c_Parent = [], c_Parent2 = [],
     c_Author = ''acme'', c_Message = ''first'', c_CreatedAt = 0\<rparr>" if "\<not> fails e (QCommit demo_hash)"
proof -
  have "cr_created (new_row demo calm demo_uri ''Hi {n}'' [''n''] [] [] ''acme'' ''first'') = 0"
    "cr_hash (new_row demo calm demo_uri ''Hi {n}'' [''n''] [] [] ''acme'' ''first'') = demo_hash"
    "sha demo = demo_sha"
    by (simp_all add: new_row_def calm_def demo_hash_def demo_def)
  with that show ?thesis
    by (simp add: GetCommit_def demo_row scanCommit_def del: new_row_simps(1))
qed

subsection \<open>Reading what was written\<close>

lemma head_of_run:
  assumes "synced s M d" and "map_of (prompts d) uri = Some p"
  obtains h r t sl where "map_of (refs d) (uri, DefaultBranch) = Some h" "commit_row_of d h = Some r"
    "row_content s r t sl" "served_content s p t sl"
proof -
  from assms have "head_row s d p (map_of (refs d) (uri, DefaultBranch))" by (simp add: synced_def head_sync_def)
  then obtain h r where rp: "map_of (refs d) (uri, DefaultBranch) = Some h" "commit_row_of d h = Some r"
    "pr_vhash p = cr_vhash r"
    "read_columns s (pr_template p) (pr_slots p) = read_columns s (cr_template r) (cr_slots r)"
    unfolding head_row_def by blast
  moreover have "r \<in> set (commits d)"
    using rp(2) by (auto simp: commit_row_of_def dest: find_Some_in)
  moreover from this obtain t sl where "row_content s r t sl"
    using assms(1) by (auto simp: synced_def content_ok_def)
  ultimately show thesis using that [of h r t sl] by (simp add: row_content_def served_content_def)
qed

lemma Get_served:
  assumes "map_of (prompts d) uri = Some p" and "served_content s p t sl" and "\<not> fails e (QPrompt uri)"
  shows "Get s e d uri = Inr \<lparr>URI = uri, Template = t, Slots = sl, VersionHash = Hash (sha s) t sl\<rparr>"
  using assms by (simp add: Get_def served_content_def)

lemma GetCommit_served:
  assumes "commit_row_of d h = Some r" and "row_content s r t sl" and "\<not> fails e (QCommit h)"
  obtains c where "GetCommit s e d h = Inr c" "c_Template c = t" "c_Slots c = sl"
    "c_VersionHash c = Hash (sha s) t sl" "c_Hash c = h" "c_URI c = cr_uri r"
    "c_Parent c = null_string (cr_parent r)" "c_Parent2 c = null_string (cr_parent2 r)"
    "c_Author c = cr_author r" "c_Message c = cr_message r"
proof -
  have "cr_hash r = h" using assms(1) by (auto simp: commit_row_of_def dest: find_Some_in)
  with assms that show thesis by (simp add: GetCommit_def scanCommit_def row_content_def)
qed

lemma Get_content:
  assumes "content_ok s d" and "Get s e d uri = Inr p"
  shows "URI p = uri" and "VersionHash p = Hash (sha s) (Template p) (Slots p)"
    and "list_all valid_utf8 (Slots p)"
proof -
  from assms(2) obtain r where r: "map_of (prompts d) uri = Some r"
    and p: "rbind (read_columns s (pr_template r) (pr_slots r)) (\<lambda>(t, sl).
          Inr \<lparr>URI = uri, Template = t, Slots = sl, VersionHash = pr_vhash r\<rparr>) = Inr p"
    by (auto simp: Get_def rbind_eq_Inr split: if_splits)
  from r assms(1) obtain t sl where "served_content s r t sl"
    using map_of_snd by (fastforce simp: content_ok_def)
  with p show "URI p = uri" "VersionHash p = Hash (sha s) (Template p) (Slots p)"
    "list_all valid_utf8 (Slots p)"
    by (auto simp: served_content_def)
qed

text \<open>The walk over an older database is the walk over a newer one.\<close>

lemma mainline_newer:
  assumes "\<And>h r. commit_row_of d h = Some r \<Longrightarrow> commit_row_of d' h = Some r"
  shows "mainline s e d h cs \<Longrightarrow> mainline s e d' h cs"
proof (induction cs arbitrary: h)
  case (Cons c cs)
  then obtain r where "commit_row_of d h = Some r" by (auto elim: GetCommit_Inr)
  then have "commit_row_of d' h = commit_row_of d h" using assms by simp
  then have "GetCommit s e d' h = GetCommit s e d h" by (rule GetCommit_row)
  with Cons show ?case by simp
qed simp

subsection \<open>Safety and termination under every failure\<close>

text \<open>C12: a write of the store that reports an error has changed nothing, whichever of its
  statements failed: the tables are the ones it started from.\<close>

theorem failed_write_changes_nothing: "apply_op s e opn d = (Some er, d') \<Longrightarrow> d' = d"
  by (rule apply_op_atomic)

theorem failed_write_changes_nothing_witness:
  "apply_op demo (calm\<lparr>fails := \<lambda>q. q = UpsertPrompt\<rparr>)
     (OpCommit demo_uri ''main'' ''Bye'' [] ''acme'' ''second'') demo_db = (Some (DbErr UpsertPrompt), demo_db)"
proof -
  obtain r d' where r: "apply_op demo (calm\<lparr>fails := \<lambda>q. q = UpsertPrompt\<rparr>)
     (OpCommit demo_uri ''main'' ''Bye'' [] ''acme'' ''second'') demo_db = (r, d')" by fastforce
  moreover from this have "r = Some (DbErr UpsertPrompt)"
    by (auto simp: Commit_def tip_def demo_tip commitTx_def Let_def transaction_def stmt_def err_of_def
        DefaultBranch_def)
  ultimately show ?thesis using failed_write_changes_nothing by blast
qed

lemma wf_log:
  assumes wf: "wf_db d"
  shows "(\<exists>er. Log s e d uri branch = Some (Inl er)) \<or>
    (\<exists>cs. Log s e d uri branch = Some (Inr cs) \<and> distinct (map c_Hash cs)
      \<and> length cs \<le> length (commits d) \<and> c_Parent (last cs) = [] \<and> cs \<noteq> [])"
proof -
  obtain r where r: "Log s e d uri branch = Some r" using Log_returns [OF wf] by blast
  show ?thesis
  proof (cases r)
    case (Inr cs)
    with r obtain h where h: "tip e d uri branch = Inr h" "mainline s e d h cs"
      by (auto simp: Log_iff)
    have "h \<in> hashes (commits d)"
      using h(1) wf refs_ok_tip by (auto simp: wf_db_def tip_def split: if_splits)
    moreover have "[] \<notin> hashes (commits d)"
      using wf rows_ok_split(1) by (fastforce simp: wf_db_def dest!: split_list)
    ultimately have "h \<noteq> []" by metis
    have "mainline s e d h cs \<Longrightarrow> h \<noteq> [] \<Longrightarrow> cs \<noteq> [] \<and> c_Parent (last cs) = []" for h
    proof (induction cs arbitrary: h)
      case (Cons c cs)
      then show ?case by (cases "c_Parent c = []"; cases cs) auto
    qed simp
    with h(2) \<open>h \<noteq> []\<close> have "cs \<noteq> []" "c_Parent (last cs) = []" by blast+
    with mainline_bound [OF wf h] r Inr show ?thesis by auto
  qed (use r in simp)
qed

text \<open>C15: whatever clients do and whatever fails, \<open>Log\<close> returns: the walk over first parents
  ends, visits no commit twice and no more commits than the table holds.\<close>

theorem log_always_returns:
  assumes "reachable s d" and "sha_ok s"
  shows "(\<exists>er. Log s e d uri branch = Some (Inl er)) \<or>
    (\<exists>cs. Log s e d uri branch = Some (Inr cs) \<and> distinct (map c_Hash cs)
      \<and> length cs \<le> length (commits d) \<and> c_Parent (last cs) = [] \<and> cs \<noteq> [])"
  using wf_log [OF reachable_wf [OF assms]] .

lemma demo_reachable: "reachable demo demo_db"
proof (rule step [OF start])
  show "apply_op demo calm (OpCommit demo_uri ''main'' ''Hi {n}'' [''n''] ''acme'' ''first'') empty_db = (None, demo_db)"
    by (simp add: demo_commit err_of_def)
qed

theorem log_always_returns_witness:
  "\<exists>cs. Log demo calm demo_db demo_uri ''main'' = Some (Inr cs) \<and> length cs \<le> 1 \<and> cs \<noteq> []"
proof -
  have "Log demo calm demo_db demo_uri ''main'' \<noteq> Some (Inl er)" for er
    by (simp add: Log_def tip_def demo_tip log_loop.simps demo_GetCommit)
  moreover have "length (commits demo_db) = 1"
    by (simp add: demo_db_eq insert_commit_def empty_db_def)
  ultimately show ?thesis
    using log_always_returns [OF demo_reachable, of calm demo_uri "''main''"] by auto
qed

text \<open>C37: history is append-only: a write adds at most one commit row, in front of the rows
  there were, and every commit that could be read by its hash is read unchanged afterwards.\<close>

theorem history_append_only:
  assumes "reachable s d" and "sha_ok s" and "apply_op s e opn d = (r, d')"
  shows "(\<exists>new. commits d' = new @ commits d \<and> length new \<le> 1) \<and>
    (commit_row_of d h \<noteq> None \<longrightarrow> GetCommit s e' d' h = GetCommit s e' d h)"
proof -
  have "wf_db d'" using assms reachable_wf apply_op_wf by blast
  then have "commit_row_of d h = Some x \<Longrightarrow> commit_row_of d' h = Some x" for x
    using history_grows [OF assms(3)] by blast
  then show ?thesis using apply_op_commits [OF assms(3)] by (auto intro: GetCommit_row)
qed

theorem history_append_only_witness:
  "GetCommit demo calm (snd (Commit demo calm demo_uri ''main'' ''Bye'' [] ''acme'' ''second'' demo_db)) demo_hash
     = GetCommit demo calm demo_db demo_hash"
proof -
  obtain r d' where r: "apply_op demo calm (OpCommit demo_uri ''main'' ''Bye'' [] ''acme'' ''second'') demo_db = (r, d')"
    by fastforce
  moreover from this have "d' = snd (Commit demo calm demo_uri ''main'' ''Bye'' [] ''acme'' ''second'' demo_db)"
    by (auto simp: err_of_def split: prod.splits sum.splits)
  ultimately show ?thesis
    using history_append_only [OF demo_reachable demo_ok(1) r, of demo_hash calm] by (simp add: demo_row)
qed

subsection \<open>Integrity\<close>

text \<open>The databases written through a cipher that opens what it sealed, with UTF-8 requests.\<close>

inductive written :: "store \<Rightarrow> db \<Rightarrow> bool" for s where
  written_start: "written s empty_db"
| written_step: "written s d \<Longrightarrow> apply_op s e opn d = (r, d') \<Longrightarrow> env_ok s e \<Longrightarrow> op_utf8 opn \<Longrightarrow> written s d'"

lemma written_content: "written s d \<Longrightarrow> content_ok s d"
  by (induction rule: written.induct) (auto intro: content_ok_empty apply_op_content)

text \<open>C16: everything read from the store carries the hash of what it holds: a served prompt the
  \<open>Hash\<close> of its template and slots, a commit in addition the \<open>CommitHash\<close> of its content,
  parents, author and message under which it was asked for.\<close>

theorem reads_are_content_addressed:
  assumes "written s d"
  shows "(\<forall>p. Get s e d uri = Inr p \<longrightarrow> VersionHash p = Hash (sha s) (Template p) (Slots p) \<and> URI p = uri)
    \<and> (\<forall>c. GetCommit s e d h = Inr c \<longrightarrow> c_VersionHash c = Hash (sha s) (c_Template c) (c_Slots c)
      \<and> h = CommitHash (sha s) (c_VersionHash c) (c_Parent c) (c_Parent2 c) (c_Author c) (c_Message c))"
proof (intro conjI allI impI)
  note ok = written_content [OF assms]
  show "VersionHash p = Hash (sha s) (Template p) (Slots p)" "URI p = uri" if "Get s e d uri = Inr p" for p
    by (rule Get_content [OF ok that])+
  show "c_VersionHash c = Hash (sha s) (c_Template c) (c_Slots c)"
    "h = CommitHash (sha s) (c_VersionHash c) (c_Parent c) (c_Parent2 c) (c_Author c) (c_Message c)"
    if "GetCommit s e d h = Inr c" for c
    by (rule GetCommit_hashes [OF ok that])+
qed

theorem reads_are_content_addressed_witness:
  "demo_hash = CommitHash demo_sha (Hash demo_sha ''Hi {n}'' [''n'']) [] [] ''acme'' ''first''"
proof -
  have "written demo demo_db"
  proof (rule written_step [OF written_start])
    show "apply_op demo calm (OpCommit demo_uri ''main'' ''Hi {n}'' [''n''] ''acme'' ''first'') empty_db = (None, demo_db)"
      by (simp add: demo_commit err_of_def)
  qed simp_all
  from reads_are_content_addressed [OF this, of calm demo_uri demo_hash] show ?thesis
    by (simp add: demo_GetCommit) (simp add: demo_def)
qed

text \<open>The version hash identifies the content: two prompts without NUL bytes and without empty
  slot names have the same hash exactly if they are the same, as long as SHA-256 does not
  collide on the two messages.\<close>

theorem version_hash_identifies:
  assumes "plain t sl" and "plain t' sl'" and "inj_on H {hash_input t sl, hash_input t' sl'}"
  shows "Hash H t sl = Hash H t' sl' \<longleftrightarrow> t = t' \<and> sl = sl'"
  using assms hash_input_inj by (auto simp: Hash_alt EncodeToString_inj)

theorem version_hash_identifies_witness:
  "Hash demo_sha ''Hi {n}'' [''n''] \<noteq> Hash demo_sha ''Hi {m}'' [''m'']"
proof -
  have "inj_on demo_sha {hash_input ''Hi {n}'' [''n''], hash_input ''Hi {m}'' [''m'']}"
    by (simp add: hash_input_def demo_sha_def)
  moreover have "plain ''Hi {m}'' [''m'']" by (simp add: plain_def)
  ultimately show ?thesis using version_hash_identifies [OF demo_plain(1)] by blast
qed

text \<open>With NUL bytes it does not: two different prompts, both accepted by validation, share
  one version hash whatever the digest is.\<close>

theorem nul_bytes_confuse_versions:
  "let t = ''{a} {b}'' @ [CHR 0x00] @ ''a''; t' = ''{a} {b}''; sl = [''b'', ''a'']; sl' = [''a'', ''b'', ''a''] in
     t \<noteq> t' \<and> validate_Prompt ''u'' t sl = None \<and> validate_Prompt ''u'' t' sl' = None
     \<and> Hash H t sl = Hash H t' sl'"
proof -
  have "validate_Prompt ''u'' (''{a} {b}'' @ [CHR 0x00] @ ''a'') [''b'', ''a''] = None"
    "validate_Prompt ''u'' ''{a} {b}'' [''a'', ''b'', ''a''] = None"
    by code_simp+
  then show ?thesis by (simp add: Let_def Hash_def)
qed

subsection \<open>The served head\<close>

lemma head_absent:
  assumes "synced s M d" and "map_of (refs d) (uri, ''main'') = None"
  shows "map_of (prompts d) uri = None"
proof (cases "map_of (prompts d) uri")
  case (Some p)
  from head_of_run [OF assms(1) this] assms(2) show ?thesis by (auto simp: DefaultBranch_def)
qed

text \<open>A prompt with a branch \<open>main\<close> that is not served. Only creating the branch under that name makes
  one.\<close>

definition unserved :: "db \<Rightarrow> string \<Rightarrow> bool" where
  "unserved d uri \<longleftrightarrow> map_of (refs d) (uri, ''main'') \<noteq> None \<and> map_of (prompts d) uri = None"

lemma unserved_move [simp]:
  "unserved (move_branch u branch h p d) uri \<longleftrightarrow> unserved d uri \<and> \<not> (u = uri \<and> branch = ''main'')"
  by (auto simp: unserved_def move_branch_def Let_def DefaultBranch_def)

lemma unserved_insert [simp]: "unserved (insert_commit r d) uri = unserved d uri"
  by (simp add: unserved_def)

lemma unserved_ref:
  "unserved (upsert_ref u name h d) uri \<Longrightarrow> unserved d uri \<or> u = uri \<and> name = ''main''"
  by (auto simp: unserved_def split: if_splits)

lemma unserved_step:
  assumes "apply_op s e opn d = (r, d')" and "unserved d' uri"
  shows "unserved d uri \<or> (\<exists>src. opn = OpBranch uri ''main'' src)"
proof (cases r)
  case (Some er)
  with assms show ?thesis using apply_op_atomic by blast
next
  case None
  show ?thesis
  proof (cases opn)
    case (OpPut p)
    with None assms have "Put s e p d = (Inr (), d')" by (auto simp: err_of_None)
    then show ?thesis
      by (cases rule: Put_cases) (use assms(2) in \<open>auto simp: unserved_def upsert_prompt_def update_conv' split: if_splits\<close>)
  next
    case (OpCommit u branch t sl a m)
    with None assms obtain h where "Commit s e u branch t sl a m d = (Inr h, d')" by (auto simp: err_of_None)
    then show ?thesis by (cases rule: Commit_cases) (use assms(2) in simp_all)
  next
    case (OpBranch u name src)
    with None assms have "Branch e u name src d = (Inr (), d')" by (auto simp: err_of_None)
    then show ?thesis by (cases rule: Branch_cases) (use assms(2) OpBranch unserved_ref in blast)+
  next
    case (OpMerge u into src a m)
    with None assms obtain h where "Merge s e u into src a m d = (Inr h, d')" by (auto simp: err_of_None)
    then show ?thesis by (cases rule: Merge_cases) (use assms(2) in simp_all)
  next
    case (OpSetBranch u branch h)
    with None assms obtain c where "SetBranch s e u branch h d = (Inr c, d')" by (auto simp: err_of_None)
    then show ?thesis by (cases rule: SetBranch_cases) (use assms(2) in simp_all)
  qed
qed

lemma wf_hash_nonempty: "wf_db d \<Longrightarrow> [] \<notin> hashes (commits d)"
  using rows_ok_split(1) by (fastforce simp: wf_db_def dest!: split_list)

lemma hash_length:
  assumes "content_ok s d" and "sha_ok s" and "commit_row_of d h = Some r"
  shows "length h = 64"
proof -
  have "r \<in> set (commits d)" "cr_hash r = h"
    using assms(3) by (auto simp: commit_row_of_def dest: find_Some_in)
  with assms(1,2) show ?thesis
    by (auto simp: content_ok_def row_content_def commit_hash_of_def CommitHash_def sha_ok_def)
qed

lemma Resolve_branch:
  "map_of (refs d) (uri, ref) = Some h \<Longrightarrow> \<not> fails e (QTip uri ref) \<Longrightarrow> Resolve s e d uri ref = GetCommit s e d h"
  by (simp add: Resolve_def tip_def)

lemma Resolve_no_branch:
  assumes "map_of (refs d) (uri, ref) = None" and "content_ok s d" and "sha_ok s" and "length ref \<noteq> 64"
    and "\<not> fails e (QTip uri ref)" and "\<not> fails e (QCommit ref)"
  shows "Resolve s e d uri ref = Inl ErrNotFound"
proof -
  have "commit_row_of d ref = None"
    using hash_length [OF assms(2,3), of ref] assms(4) by (cases "commit_row_of d ref") auto
  with assms show ?thesis by (simp add: Resolve_def tip_def GetCommit_def)
qed

lemma synced_head:
  assumes sync: "synced s M d" and "sha_ok s" and "\<And>q. \<not> fails e q"
  shows "if unserved d uri
    then Get s e d uri = Inl ErrNotFound
    else Get s e d uri = (case Resolve s e d uri ''main'' of
        Inl er \<Rightarrow> Inl ErrNotFound
      | Inr c \<Rightarrow> Inr \<lparr>URI = uri, Template = c_Template c, Slots = c_Slots c, VersionHash = c_VersionHash c\<rparr>)
      \<and> (Get s e d uri = Inl ErrNotFound \<longleftrightarrow> map_of (refs d) (uri, ''main'') = None)"
proof -
  from sync have c: "content_ok s d" by (simp add: synced_def)
  show ?thesis
  proof (cases "map_of (prompts d) uri")
    case None
    then have get: "Get s e d uri = Inl ErrNotFound" using assms(3) by (simp add: Get_def)
    show ?thesis
    proof (cases "unserved d uri")
      case False
      with None have main: "map_of (refs d) (uri, ''main'') = None" by (simp add: unserved_def)
      have "Resolve s e d uri ''main'' = Inl ErrNotFound"
        by (rule Resolve_no_branch [OF main c assms(2)]) (simp_all add: assms(3))
      with get main False show ?thesis by simp
    qed (simp add: get)
  next
    case (Some p)
    then obtain h r t sl where rp: "map_of (refs d) (uri, ''main'') = Some h" "commit_row_of d h = Some r"
      "row_content s r t sl" "served_content s p t sl"
      by (rule head_of_run [OF sync, of uri, unfolded DefaultBranch_def])
    have "Get s e d uri = Inr \<lparr>URI = uri, Template = t, Slots = sl, VersionHash = Hash (sha s) t sl\<rparr>"
      by (rule Get_served [OF Some rp(4)]) (rule assms(3))
    moreover have "Resolve s e d uri ''main'' = GetCommit s e d h"
      by (rule Resolve_branch [OF rp(1)]) (rule assms(3))
    moreover obtain c where "GetCommit s e d h = Inr c" "c_Template c = t" "c_Slots c = sl"
      "c_VersionHash c = Hash (sha s) t sl"
      using GetCommit_served [OF rp(2,3) assms(3)] by metis
    ultimately show ?thesis using rp(1) Some by (simp add: unserved_def)
  qed
qed

text \<open>C3: the served head is the tip of \<open>main\<close>. Whatever operations of the server (commits of templates
  without NUL bytes, branchings, merges, rollbacks) made the database, and whichever of them failed,
  \<open>Get\<close> answers with the content and the version hash of the commit \<open>Resolve\<close> finds for \<open>main\<close>, and
  reports a prompt missing exactly when it has no branch \<open>main\<close>. The one exception is a prompt whose
  \<open>main\<close> is there but not served: \<open>Get\<close> reports it missing, and no operation makes a prompt such but
  creating a branch under the name \<open>main\<close>. (No digest collides on what was committed, and the served
  row was not written alone, as \<open>Put\<close> does for local commands.)\<close>

theorem served_head_is_main_tip:
  assumes "run s M d" and "inj_on (sha s) M" and "sha_ok s" and "\<And>q. \<not> fails e q"
  shows "(if unserved d uri
      then Get s e d uri = Inl ErrNotFound
      else Get s e d uri = (case Resolve s e d uri ''main'' of
          Inl er \<Rightarrow> Inl ErrNotFound
        | Inr c \<Rightarrow> Inr \<lparr>URI = uri, Template = c_Template c, Slots = c_Slots c, VersionHash = c_VersionHash c\<rparr>)
        \<and> (Get s e d uri = Inl ErrNotFound \<longleftrightarrow> map_of (refs d) (uri, ''main'') = None))
    \<and> (\<forall>e' opn r d'. apply_op s e' opn d = (r, d') \<and> unserved d' uri \<longrightarrow>
         unserved d uri \<or> (\<exists>src. opn = OpBranch uri ''main'' src))"
  using synced_head [OF run_synced [OF assms(1-3)] assms(3,4)] unserved_step by (intro conjI allI impI) (assumption, blast)

lemma demo_served: "\<not> unserved demo_db demo_uri"
  by (subst demo_db_eq) (simp add: unserved_def DefaultBranch_def)

theorem served_head_is_main_tip_witness:
  "Get demo calm demo_db demo_uri = Inr \<lparr>URI = demo_uri, Template = ''Hi {n}'', Slots = [''n''],
     VersionHash = Hash demo_sha ''Hi {n}'' [''n'']\<rparr>"
proof -
  have "Resolve demo calm demo_db demo_uri ''main'' = GetCommit demo calm demo_db demo_hash"
    by (rule Resolve_branch [OF demo_tip]) simp
  then show ?thesis
    using served_head_is_main_tip [OF demo_run demo_inj demo_ok(1,3), of demo_uri] demo_served
    by (simp add: demo_GetCommit)
qed

subsection \<open>Commit, merge, rollback\<close>

lemma tip_after_move [simp]:
  "map_of (refs (move_branch uri branch h r d)) k = (if k = (uri, branch) then Some h else map_of (refs d) k)"
  by simp

lemma Log_tip:
  "map_of (refs d) (uri, branch) = Some h \<Longrightarrow> mainline s e d h cs \<Longrightarrow> \<not> fails e (QTip uri branch) \<Longrightarrow>
     Log s e d uri branch = Some (Inr cs)"
  by (auto simp: Log_iff tip_def)

text \<open>C10: a commit that succeeds appends to its branch: the log of the branch is the new commit,
  with the content, the old tip as parent and no second parent, in front of the old log (empty
  for a new branch); on \<open>main\<close> the new content is what is served.\<close>

theorem commit_appends:
  assumes "run s M d" and "inj_on (sha s) M" and "sha_ok s" and "env_ok s e"
    and "list_all valid_utf8 sl" and "plain t sl"
    and "op_msgs s e (OpCommit uri branch t sl a m) d \<subseteq> M" and "\<And>q. \<not> fails e' q"
    and "Commit s e uri branch t sl a m d = (Inr h, d')"
    and "if map_of (refs d) (uri, branch) = None then old = [] else Log s e' d uri branch = Some (Inr old)"
  shows "\<exists>c. Log s e' d' uri branch = Some (Inr (c # old)) \<and> c_Hash c = h \<and> c_Template c = t
    \<and> c_Slots c = sl \<and> c_VersionHash c = Hash (sha s) t sl \<and> c_Parent2 c = []
    \<and> c_Parent c = (case old of [] \<Rightarrow> [] | p # _ \<Rightarrow> c_Hash p)
    \<and> (branch = ''main'' \<longrightarrow> Get s e' d' uri =
         Inr \<lparr>URI = uri, Template = t, Slots = sl, VersionHash = Hash (sha s) t sl\<rparr>)"
  using assms(9)
proof (cases rule: Commit_cases)
  case (succeeded p)
  have sync: "synced s M d" using assms(1-3) by (rule run_synced)
  have tip: "map_of (refs d) (uri, branch) = Some x \<Longrightarrow> x \<in> hashes (commits d)" for x
    using sync refs_ok_tip by (auto simp: synced_def wf_db_def)
  let ?d = "insert_commit (new_row s e uri t sl p [] a m) d"
  have p: "p = [] \<or> p \<in> hashes (commits d)"
    using succeeded(1) tip by (auto simp: null_string_def split: option.splits)
  have h: "h = commit_hash_of s t sl p [] a m" using succeeded(2) by simp
  have "commit_msgs s t sl p [] a m \<subseteq> M" using assms(7) succeeded(1) by simp
  from row_after_insert [OF assms(2) sync assms(4-6) p _ this, of uri]
  obtain r where r: "commit_row_of ?d h = Some r" "row_content s r t sl"
    "null_string (cr_parent r) = p" "null_string (cr_parent2 r) = []"
    unfolding h by blast
  have r': "commit_row_of d' h = Some r" using r(1) succeeded(3) h by simp
  obtain c where c: "GetCommit s e' d' h = Inr c" "c_Template c = t" "c_Slots c = sl"
    "c_VersionHash c = Hash (sha s) t sl" "c_Hash c = h" "c_Parent c = p" "c_Parent2 c = []"
    using GetCommit_served [OF r' r(2) assms(8)] r(3,4) by metis
  have mono: "commit_row_of d x = Some y \<Longrightarrow> commit_row_of d' x = Some y" for x y
    using succeeded(3) commit_row_insert_other by simp
  have "mainline s e' d' p old \<and> p = (case old of [] \<Rightarrow> [] | p # _ \<Rightarrow> c_Hash p)"
  proof (cases "map_of (refs d) (uri, branch)")
    case None
    with assms(10) succeeded(1) show ?thesis by (simp add: null_string_def)
  next
    case (Some x)
    with assms(8,10) have "mainline s e' d x old" by (auto simp: Log_iff tip_def)
    moreover have "x \<noteq> []" using tip [OF Some] sync wf_hash_nonempty [of d] by (metis synced_def)
    ultimately have "mainline s e' d' x old" "x = (case old of [] \<Rightarrow> [] | p # _ \<Rightarrow> c_Hash p)"
      using mainline_newer [OF mono]
      by (blast, cases old) (auto elim: GetCommit_Inr)
    with Some succeeded(1) show ?thesis by (simp add: null_string_def)
  qed
  note old = this
  have "h \<noteq> []" using h commit_hash_nonempty [OF assms(3)] by simp
  with old c have "mainline s e' d' h (c # old)" by (metis mainline.simps(2))
  moreover have "map_of (refs d') (uri, branch) = Some h" using succeeded(3) h by simp
  ultimately have "Log s e' d' uri branch = Some (Inr (c # old))"
    using Log_tip assms(8) by blast
  moreover have "branch = ''main'' \<Longrightarrow> map_of (prompts d') uri = Some (served_row s e t sl (Hash (sha s) t sl))"
    using succeeded(3) by (simp add: DefaultBranch_def)
  then have "branch = ''main'' \<Longrightarrow> Get s e' d' uri =
      Inr \<lparr>URI = uri, Template = t, Slots = sl, VersionHash = Hash (sha s) t sl\<rparr>"
    using Get_served served_content_new [OF assms(4,5) refl] assms(8) by blast
  ultimately show ?thesis
    using c old by blast
qed simp

theorem commit_appends_witness:
  "\<exists>c. Log demo calm demo_db demo_uri ''main'' = Some (Inr [c]) \<and> c_Template c = ''Hi {n}''"
proof -
  have "op_msgs demo calm (OpCommit demo_uri ''main'' ''Hi {n}'' [''n''] ''acme'' ''first'') empty_db \<subseteq> demo_M"
    by (simp add: demo_M_def empty_db_def null_string_def)
  moreover have "list_all valid_utf8 [''n'']" by simp
  moreover have "if map_of (refs empty_db) (demo_uri, ''main'') = None then ([] :: commit list) = []
      else Log demo calm empty_db demo_uri ''main'' = Some (Inr [])"
    by (simp add: empty_db_def)
  ultimately show ?thesis
    using commit_appends [OF run_start demo_inj demo_ok(1,2) _ demo_plain(1) _ demo_ok(3) demo_commit]
    by blast
qed

end
