(* ===== verification/StoreBranches.thy ===== *)
theory StoreBranches
  imports StoreProps
begin

text \<open>
  Merges, rollbacks and the independence of prompts and branches, and the places where the
  store's history and its served head part ways: \<open>Put\<close>, a branch created as \<open>main\<close>, and
  commits that two prompts share.
\<close>

lemma GetCommit_env: "GetCommit s e d h = Inr c \<Longrightarrow> \<not> fails e' (QCommit h) \<Longrightarrow> GetCommit s e' d h = Inr c"
  by (simp add: GetCommit_def split: if_splits)

subsection \<open>Merge\<close>

text \<open>C36: merge takes theirs: the new tip of the target branch has the content of the source's tip
  and both old tips as parents, in this order; no other branch moves, and a merge into \<open>main\<close>
  serves the source's content.\<close>

theorem merge_takes_theirs:
  assumes "run s M d" and "inj_on (sha s) M" and "sha_ok s" and "env_ok s e"
    and "op_msgs s e (OpMerge uri into src a m) d \<subseteq> M" and "\<And>q. \<not> fails e' q"
    and "Merge s e uri into src a m d = (Inr h, d')"
  shows "\<exists>ours theirs t c. map_of (refs d) (uri, into) = Some ours \<and> map_of (refs d) (uri, src) = Some theirs
    \<and> GetCommit s e' d theirs = Inr t \<and> Resolve s e' d' uri into = Inr c \<and> c_Hash c = h
    \<and> c_Template c = c_Template t \<and> c_Slots c = c_Slots t \<and> c_VersionHash c = c_VersionHash t
    \<and> c_Parent c = ours \<and> c_Parent2 c = theirs
    \<and> (\<forall>k. k \<noteq> (uri, into) \<longrightarrow> map_of (refs d') k = map_of (refs d) k)
    \<and> (into = ''main'' \<longrightarrow> Get s e' d' uri =
         Inr \<lparr>URI = uri, Template = c_Template t, Slots = c_Slots t, VersionHash = c_VersionHash t\<rparr>)"
  using assms(7)
proof (cases rule: Merge_cases)
  case (succeeded dst h' t msg)
  have sync: "synced s M d" using assms(1-3) by (rule run_synced)
  then have c: "content_ok s d" by (simp add: synced_def)
  have tip: "map_of (refs d) k = Some x \<Longrightarrow> x \<in> hashes (commits d)" for k x
    using sync refs_ok_tip by (auto simp: synced_def wf_db_def)
  note th = GetCommit_hashes [OF c succeeded(3)]
  from c succeeded(3) obtain x where "x \<in> set (commits d)" "row_content s x (c_Template t) (c_Slots t)"
    by (rule GetCommit_content)
  then have pl: "plain (c_Template t) (c_Slots t)"
    using sync by (auto simp: synced_def hashed_ok_def)
  have msgs: "commit_msgs s (c_Template t) (c_Slots t) dst h' a msg \<subseteq> M"
    using assms(5) succeeded(1-4) by simp
  have h: "h = commit_hash_of s (c_Template t) (c_Slots t) dst h' a msg" using succeeded(5) by simp
  from row_after_insert [OF assms(2) sync assms(4) th(3) pl _ _ msgs] tip [OF succeeded(1)] tip [OF succeeded(2)]
  obtain r where r: "commit_row_of (insert_commit (new_row s e uri (c_Template t) (c_Slots t) dst h' a msg) d) h = Some r"
    "row_content s r (c_Template t) (c_Slots t)" "null_string (cr_parent r) = dst" "null_string (cr_parent2 r) = h'"
    unfolding h by blast
  have r': "commit_row_of d' h = Some r" using r(1) succeeded(6) h by simp
  obtain k where k: "GetCommit s e' d' h = Inr k" "c_Template k = c_Template t" "c_Slots k = c_Slots t"
    "c_VersionHash k = c_VersionHash t" "c_Hash k = h" "c_Parent k = dst" "c_Parent2 k = h'"
    using GetCommit_served [OF r' r(2) assms(6)] r(3,4) th(1) by metis
  have refs: "map_of (refs d') x = (if x = (uri, into) then Some h else map_of (refs d) x)" for x
    using succeeded(6) h by simp
  have "Resolve s e' d' uri into = Inr k"
    using Resolve_branch [of d' uri into h e' s] refs k(1) assms(6) by simp
  moreover have "Get s e' d' uri = Inr \<lparr>URI = uri, Template = c_Template t, Slots = c_Slots t,
      VersionHash = c_VersionHash t\<rparr>" if "into = ''main''"
  proof -
    have "map_of (prompts d') uri = Some (served_row s e (c_Template t) (c_Slots t)
        (Hash (sha s) (c_Template t) (c_Slots t)))"
      using succeeded(6) that by (simp add: DefaultBranch_def)
    then show ?thesis
      using Get_served [OF _ served_content_new [OF assms(4) th(3) refl] assms(6)] th(1) by metis
  qed
  moreover have "GetCommit s e' d h' = Inr t"
    using succeeded(3) GetCommit_env assms(6) by blast
  ultimately show ?thesis
    using succeeded(1,2) k refs by (intro exI [of _ dst] exI [of _ h'] exI [of _ t] exI [of _ k]) simp
qed simp

definition demo_dev :: db where
  "demo_dev = upsert_ref demo_uri ''dev'' demo_hash demo_db"

definition demo_M2 :: "bytes set" where
  "demo_M2 = demo_M \<union> commit_msgs demo ''Hi {n}'' [''n''] demo_hash demo_hash ''acme'' ''merge dev into main''"

lemma run_mono: "run s M d \<Longrightarrow> M \<subseteq> N \<Longrightarrow> run s N d"
  by (induction rule: run.induct) (auto intro: run.intros)

lemma demo_dev_run: "run demo demo_M2 demo_dev"
proof (rule run_step)
  show "run demo demo_M2 demo_db" by (rule run_mono [OF demo_run]) (simp add: demo_M2_def)
  have "map_of (refs demo_db) (demo_uri, ''dev'') = None" by (simp add: demo_db_eq empty_db_def)
  then show "apply_op demo calm (OpBranch demo_uri ''dev'' ''main'') demo_db = (None, demo_dev)"
    by (simp add: Branch_def tip_def demo_tip insert_ref_def demo_dev_def upsert_ref_def err_of_def)
qed (simp_all add: DefaultBranch_def)

lemma demo_M2_inj: "inj_on (sha demo) demo_M2"
proof -
  define x where "x = hash_input ''Hi {n}'' [''n'']"
  define y where "y = commit_input (Hash (sha demo) ''Hi {n}'' [''n'']) [] [] ''acme'' ''first''"
  define z where "z = commit_input (Hash (sha demo) ''Hi {n}'' [''n'']) demo_hash demo_hash ''acme'' ''merge dev into main''"
  have "sha demo x \<noteq> sha demo y" "sha demo x \<noteq> sha demo z" "sha demo y \<noteq> sha demo z"
    by (simp_all add: x_def y_def z_def demo_def demo_sha_def hash_input_def commit_input_def)
  then have "inj_on (sha demo) {x, y, z}" by (auto simp: inj_on_def)
  moreover have "demo_M2 = {x, y, z}"
    by (auto simp: demo_M2_def demo_M_def commit_msgs_def x_def y_def z_def)
  ultimately show ?thesis by (simp only:)
qed

lemma demo_dev_refs: "map_of (refs demo_dev) (demo_uri, ''main'') = Some demo_hash"
    "map_of (refs demo_dev) (demo_uri, ''dev'') = Some demo_hash"
  by (simp_all add: demo_dev_def demo_tip)

lemma demo_dev_GetCommit: "GetCommit demo e demo_dev = GetCommit demo e demo_db"
  by (intro ext GetCommit_row) (simp add: demo_dev_def)

theorem merge_takes_theirs_witness:
  "\<exists>h d' c. Merge demo calm demo_uri ''main'' ''dev'' ''acme'' [] demo_dev = (Inr h, d')
    \<and> Resolve demo calm d' demo_uri ''main'' = Inr c \<and> c_Parent c = demo_hash \<and> c_Parent2 c = demo_hash"
proof -
  obtain r d' where m: "Merge demo calm demo_uri ''main'' ''dev'' ''acme'' [] demo_dev = (r, d')" by fastforce
  then obtain h where h: "r = Inr h"
    by (auto simp: Merge_def tip_def demo_dev_refs demo_dev_GetCommit demo_GetCommit commitTx_def Let_def
        transaction_def stmt_def DefaultBranch_def)
  have "op_msgs demo calm (OpMerge demo_uri ''main'' ''dev'' ''acme'' []) demo_dev \<subseteq> demo_M2"
    by (simp add: demo_dev_refs demo_dev_GetCommit demo_GetCommit demo_M2_def)
  from merge_takes_theirs [OF demo_dev_run demo_M2_inj demo_ok(1,2) this demo_ok(3) m [unfolded h]]
  show ?thesis using m h demo_dev_refs by auto
qed

subsection \<open>Rollback\<close>

text \<open>Pointing a branch at a commit changes nothing but this branch (and, on \<open>main\<close>, the served
  row): no commit is added or lost, the branch resolves to that commit, and on \<open>main\<close> the content
  and version hash of that commit are served. A commit of another prompt is refused.\<close>

theorem set_branch_moves_pointer:
  assumes "written s d" and "env_ok s e" and "\<And>q. \<not> fails e' q"
    and "SetBranch s e uri branch h d = (Inr c, d')"
  shows "c_URI c = uri \<and> commits d' = commits d
    \<and> (\<forall>k. map_of (refs d') k = (if k = (uri, branch) then Some h else map_of (refs d) k))
    \<and> Resolve s e' d' uri branch = Inr c
    \<and> (branch = ''main'' \<longrightarrow> Get s e' d' uri =
         Inr \<lparr>URI = uri, Template = c_Template c, Slots = c_Slots c, VersionHash = c_VersionHash c\<rparr>)
    \<and> (branch \<noteq> ''main'' \<longrightarrow> prompts d' = prompts d)"
  using assms(4)
proof (cases rule: SetBranch_cases)
  case (succeeded c')
  then have c: "c' = c" by simp
  have ok: "content_ok s d" using assms(1) by (rule written_content)
  note h = GetCommit_hashes [OF ok succeeded(2)]
  have "GetCommit s e' d h = Inr c" using succeeded(2) c GetCommit_env assms(3) by blast
  moreover have "commit_row_of d' h = commit_row_of d h" using succeeded(4) by simp
  ultimately have "GetCommit s e' d' h = Inr c" using GetCommit_row by metis
  moreover have refs: "map_of (refs d') k = (if k = (uri, branch) then Some h else map_of (refs d) k)" for k
    using succeeded(4) by simp
  ultimately have "Resolve s e' d' uri branch = Inr c"
    using Resolve_branch [of d' uri branch h e' s] assms(3) by simp
  moreover have "Get s e' d' uri = Inr \<lparr>URI = uri, Template = c_Template c, Slots = c_Slots c,
      VersionHash = c_VersionHash c\<rparr>" if "branch = ''main''"
  proof -
    have "map_of (prompts d') uri = Some (served_row s e (c_Template c) (c_Slots c) (c_VersionHash c))"
      using succeeded(4) c that by (simp add: DefaultBranch_def)
    moreover have "served_content s (served_row s e (c_Template c) (c_Slots c) (c_VersionHash c)) (c_Template c) (c_Slots c)"
      using served_content_new [OF assms(2) h(3) h(1)] c by simp
    ultimately show ?thesis using Get_served assms(3) h(1) c by metis
  qed
  ultimately show ?thesis using succeeded(3,4) c refs by (simp add: DefaultBranch_def)
qed simp

lemma demo_written: "written demo demo_db"
proof (rule written_step [OF written_start])
  show "apply_op demo calm (OpCommit demo_uri ''main'' ''Hi {n}'' [''n''] ''acme'' ''first'') empty_db = (None, demo_db)"
    by (simp add: demo_commit err_of_def)
qed simp_all

theorem set_branch_moves_pointer_witness:
  "\<exists>c d'. SetBranch demo calm demo_uri ''pin'' demo_hash demo_db = (Inr c, d')
     \<and> Resolve demo calm d' demo_uri ''pin'' = Inr c \<and> c_Template c = ''Hi {n}''"
proof -
  obtain r d' where b: "SetBranch demo calm demo_uri ''pin'' demo_hash demo_db = (r, d')" by fastforce
  define c where "c = projr (GetCommit demo calm demo_db demo_hash)"
  have "GetCommit demo calm demo_db demo_hash = Inr c" "c_URI c = demo_uri" and t: "c_Template c = ''Hi {n}''"
    by (simp_all add: demo_GetCommit c_def)
  then have "SetBranch demo calm demo_uri ''pin'' demo_hash demo_db = (Inr c, upsert_ref demo_uri ''pin'' demo_hash demo_db)"
    unfolding SetBranch_def DefaultBranch_def by (simp add: transaction_ok)
  with b have c: "r = Inr c" by simp
  from set_branch_moves_pointer [OF demo_written demo_ok(2,3) b [unfolded c]] b c t show ?thesis by simp
qed

subsection \<open>Independence\<close>

fun op_uri :: "store_op \<Rightarrow> string" where
  "op_uri (OpPut p) = URI p"
| "op_uri (OpCommit uri branch t sl a m) = uri"
| "op_uri (OpBranch uri name src) = uri"
| "op_uri (OpMerge uri into src a m) = uri"
| "op_uri (OpSetBranch uri branch h) = uri"

text \<open>The branch an operation moves; \<open>Put\<close> writes the served row, as \<open>main\<close> does.\<close>

fun op_branch :: "store_op \<Rightarrow> string" where
  "op_branch (OpPut p) = ''main''"
| "op_branch (OpCommit uri branch t sl a m) = branch"
| "op_branch (OpBranch uri name src) = name"
| "op_branch (OpMerge uri into src a m) = into"
| "op_branch (OpSetBranch uri branch h) = branch"

lemma apply_op_refs:
  assumes "apply_op s e opn d = (r, d')" and "k \<noteq> (op_uri opn, op_branch opn)"
  shows "map_of (refs d') k = map_of (refs d) k"
proof (cases r)
  case (Some er)
  with assms show ?thesis using apply_op_atomic by blast
next
  case None
  with assms show ?thesis
    by (cases opn)
      (auto simp: err_of_None elim!: Put_cases Commit_cases Branch_cases Merge_cases SetBranch_cases)
qed

lemma apply_op_prompts:
  assumes "apply_op s e opn d = (r, d')" and "uri \<noteq> op_uri opn \<or> op_branch opn \<noteq> ''main''"
  shows "map_of (prompts d') uri = map_of (prompts d) uri"
proof (cases r)
  case (Some er)
  with assms show ?thesis using apply_op_atomic by blast
next
  case None
  with assms show ?thesis
    by (cases opn)
      (auto simp: err_of_None DefaultBranch_def
        elim!: Put_cases Commit_cases Branch_cases Merge_cases SetBranch_cases)
qed

text \<open>C38: prompts and branches are independent: a write on one prompt leaves the served head and
  every branch of every other prompt as they were, and a write on a branch other than \<open>main\<close>
  leaves the served head and the other branches of its own prompt as they were.\<close>

theorem writes_are_local:
  assumes "apply_op s e opn d = (r, d')"
  shows "(uri \<noteq> op_uri opn \<or> op_branch opn \<noteq> ''main'' \<longrightarrow> Get s e' d' uri = Get s e' d uri)
    \<and> ((uri, branch) \<noteq> (op_uri opn, op_branch opn) \<longrightarrow> tip e' d' uri branch = tip e' d uri branch)"
  using apply_op_prompts [OF assms] apply_op_refs [OF assms] by (simp add: Get_def tip_def)

theorem writes_are_local_witness:
  "Get demo calm (snd (Commit demo calm demo_uri ''dev'' ''Bye'' [] ''acme'' ''draft'' demo_db)) demo_uri
     = Get demo calm demo_db demo_uri"
proof -
  obtain r d' where r: "apply_op demo calm (OpCommit demo_uri ''dev'' ''Bye'' [] ''acme'' ''draft'') demo_db = (r, d')"
    by fastforce
  then have "d' = snd (Commit demo calm demo_uri ''dev'' ''Bye'' [] ''acme'' ''draft'' demo_db)"
    by (auto simp: err_of_def split: prod.splits sum.splits)
  with writes_are_local [OF r, of demo_uri calm "''main''"] show ?thesis by simp
qed

subsection \<open>Where history and served head part\<close>

text \<open>The commit statement, when nothing fails, in closed form.\<close>

lemma commitTx_calm:
  assumes "\<And>q. \<not> fails e q"
  shows "commitTx s e uri branch t sl p p2 a m d =
    (Inr (commit_hash_of s t sl p p2 a m),
     move_branch uri branch (commit_hash_of s t sl p p2 a m) (served_row s e t sl (Hash (sha s) t sl))
       (insert_commit (new_row s e uri t sl p p2 a m) d))"
  using assms
  by (simp add: commitTx_def Let_def transaction_def commit_hash_of_def new_row_def served_row_def
      move_branch_def)

lemma Commit_calm:
  assumes "\<And>q. \<not> fails e q" and "p = null_string (map_of (refs d) (uri, branch))"
  shows "Commit s e uri branch t sl a m d =
    (Inr (commit_hash_of s t sl p [] a m),
     move_branch uri branch (commit_hash_of s t sl p [] a m) (served_row s e t sl (Hash (sha s) t sl))
       (insert_commit (new_row s e uri t sl p [] a m) d))"
proof (cases "map_of (refs d) (uri, branch)")
  case None
  with assms show ?thesis by (simp add: Commit_def tip_def commitTx_calm null_string_def)
next
  case (Some h)
  with assms show ?thesis by (simp add: Commit_def tip_def commitTx_calm null_string_def)
qed

text \<open>The identity of a commit leaves out its prompt: the same first commit on two prompts is one
  row, owned by the first, so the hash the second \<open>Commit\<close> returns cannot be resolved on the
  second prompt, nor can its \<open>main\<close> be pointed at it.\<close>

theorem first_commit_shared_by_two_prompts:
  assumes "sha_ok s" and "env_ok s e" and "\<And>q. \<not> fails e q" and "list_all valid_utf8 sl" and "u1 \<noteq> u2"
  shows "\<exists>h d1 d2. Commit s e u1 ''main'' t sl a m empty_db = (Inr h, d1)
    \<and> Commit s e u2 ''main'' t sl a m d1 = (Inr h, d2)
    \<and> Resolve s e d2 u2 h = Inl ErrNotFound \<and> SetBranch s e u2 ''main'' h d2 = (Inl ErrNotFound, d2)"
proof -
  define h where "h = commit_hash_of s t sl [] [] a m"
  define r where "r = new_row s e u1 t sl [] [] a m"
  define p where "p = served_row s e t sl (Hash (sha s) t sl)"
  define d1 where "d1 = move_branch u1 ''main'' h p (insert_commit r empty_db)"
  define d2 where "d2 = move_branch u2 ''main'' h p d1"
  have rh: "cr_hash r = h" "cr_uri r = u1" by (simp_all add: r_def h_def)
  have c1: "Commit s e u1 ''main'' t sl a m empty_db = (Inr h, d1)"
    using Commit_calm [OF assms(3), of "[]" empty_db u1 "''main''"]
    by (simp add: empty_db_def null_string_def h_def d1_def r_def p_def)
  have row1: "commits d1 = [r]" by (simp add: d1_def insert_commit_def empty_db_def)
  have ref1: "map_of (refs d1) (u2, b) = None" for b
    using assms(5) by (simp add: d1_def empty_db_def)
  have "insert_commit (new_row s e u2 t sl [] [] a m) d1 = d1"
    using rh row1 by (simp add: insert_commit_def h_def)
  then have c2: "Commit s e u2 ''main'' t sl a m d1 = (Inr h, d2)"
    using Commit_calm [OF assms(3), of "[]" d1 u2 "''main''"] ref1
    by (simp add: null_string_def h_def d2_def p_def)
  have row: "commit_row_of d2 h = Some r" using row1 rh by (simp add: d2_def commit_row_of_def)
  have "row_content s r t sl" unfolding r_def by (rule row_content_new) (rule assms)+
  then obtain c where c: "GetCommit s e d2 h = Inr c" "c_URI c = u1"
    using GetCommit_served [OF row _ assms(3)] rh by metis
  have "length h = 64" using assms(1) by (simp add: h_def commit_hash_of_def CommitHash_def sha_ok_def)
  then have "map_of (refs d2) (u2, h) = None" using ref1 by (auto simp: d2_def)
  then have "Resolve s e d2 u2 h = Inl ErrNotFound"
    using c assms(3,5) by (simp add: Resolve_def tip_def)
  moreover have "SetBranch s e u2 ''main'' h d2 = (Inl ErrNotFound, d2)"
    using c assms(5) by (simp add: SetBranch_def)
  ultimately show ?thesis using c1 c2 by blast
qed

theorem first_commit_shared_by_two_prompts_witness:
  "\<exists>h d1 d2. Commit demo calm ''promptnet://acme/a'' ''main'' ''Hi'' [] ''acme'' ''add'' empty_db = (Inr h, d1)
    \<and> Commit demo calm ''promptnet://acme/b'' ''main'' ''Hi'' [] ''acme'' ''add'' d1 = (Inr h, d2)
    \<and> Resolve demo calm d2 ''promptnet://acme/b'' h = Inl ErrNotFound"
  using first_commit_shared_by_two_prompts [OF demo_ok(1-3), of "[]" "''promptnet://acme/a''" "''promptnet://acme/b''"
      "''Hi''" "''acme''" "''add''"]
  by force

text \<open>Committing the same content, author and message onto a branch again is not idempotent: the
  second commit has the first as its parent, so without collisions its hash is new and the branch
  moves.\<close>

theorem recommit_moves_branch:
  assumes "run s M d" and "inj_on (sha s) M" and "sha_ok s" and "env_ok s e"
    and "list_all valid_utf8 sl" and "plain t sl"
    and "op_msgs s e (OpCommit uri branch t sl a m) d \<subseteq> M"
    and "Commit s e uri branch t sl a m d = (Inr h, d1)"
    and "op_msgs s e (OpCommit uri branch t sl a m) d1 \<subseteq> M"
    and "Commit s e uri branch t sl a m d1 = (Inr h', d2)"
  shows "h' \<noteq> h \<and> map_of (refs d2) (uri, branch) = Some h'"
proof -
  define p where "p = null_string (map_of (refs d) (uri, branch))"
  have h: "h = commit_hash_of s t sl p [] a m" and ref1: "map_of (refs d1) (uri, branch) = Some h"
    using assms(8) by (cases rule: Commit_cases; simp add: p_def)+
  have h': "h' = commit_hash_of s t sl h [] a m" and ref2: "map_of (refs d2) (uri, branch) = Some h'"
    using assms(10) ref1 by (cases rule: Commit_cases; simp add: null_string_def)+
  have sync: "synced s M d" using assms(1-3) by (rule run_synced)
  have tip: "map_of (refs d) (uri, branch) = Some x \<Longrightarrow> x \<in> hashes (commits d)" for x
    using sync refs_ok_tip by (auto simp: synced_def wf_db_def)
  have "h' \<noteq> h"
  proof
    assume "h' = h"
    then have "sha s (commit_input (Hash (sha s) t sl) h [] a m) = sha s (commit_input (Hash (sha s) t sl) p [] a m)"
      by (simp add: h h' commit_hash_of_def CommitHash_alt EncodeToString_inj)
    moreover have "commit_input (Hash (sha s) t sl) p [] a m \<in> M" "commit_input (Hash (sha s) t sl) h [] a m \<in> M"
      using assms(7,9) ref1 by (simp_all add: commit_msgs_def p_def null_string_def)
    ultimately have "commit_input (Hash (sha s) t sl) h [] a m = commit_input (Hash (sha s) t sl) p [] a m"
      using assms(2) by (auto dest: inj_onD)
    moreover have "CHR 0x00 \<notin> set p"
    proof (cases "map_of (refs d) (uri, branch)")
      case (Some x)
      then show ?thesis
        using tip [OF Some] hashes_plain sync by (auto simp: p_def null_string_def synced_def)
    qed (simp add: p_def null_string_def)
    ultimately have hp: "h = p"
      using commit_input_inj [of "Hash (sha s) t sl" "Hash (sha s) t sl" h p "[]" "[]" a m a m] h by simp
    show False
    proof (cases "map_of (refs d) (uri, branch)")
      case None
      then have "p = []" by (simp add: p_def null_string_def)
      with hp h show False using commit_hash_nonempty [OF assms(3)] by metis
    next
      case (Some x)
      then have "x = h" using hp by (simp add: p_def null_string_def)
      then have row: "h \<in> hashes (commits d)" using tip [OF Some] by simp
      then obtain r where r: "r \<in> set (commits d)" "cr_hash r = h" by auto
      have wf: "wf_db d" "content_ok s d" "hashed_ok s M r" using sync r(1) by (auto simp: synced_def)
      have "null_string (cr_parent r) = p"
        using same_hash_same_content(2) [OF assms(2) wf(1,2) r(1) wf(3) r(2) [unfolded h] assms(6)]
          \<open>CHR 0x00 \<notin> set p\<close> assms(7) by (simp add: p_def)
      then have "cr_parent r = Some h"
        using hp h commit_hash_nonempty [OF assms(3)] by (cases "cr_parent r") (auto simp: null_string_def)
      moreover from r(1) obtain xs ys where "commits d = xs @ r # ys" by (meson split_list)
      ultimately show False
        using rows_ok_split [of xs r ys] wf(1) r(2) by (auto simp: wf_db_def)
    qed
  qed
  with ref2 show ?thesis by simp
qed

theorem recommit_moves_branch_witness:
  "\<exists>h' d2. Commit demo calm demo_uri ''main'' ''Hi {n}'' [''n''] ''acme'' ''first'' demo_db = (Inr h', d2)
     \<and> h' \<noteq> demo_hash"
proof -
  define M where "M = demo_M \<union> commit_msgs demo ''Hi {n}'' [''n''] demo_hash [] ''acme'' ''first''"
  define x where "x = hash_input ''Hi {n}'' [''n'']"
  define y where "y = commit_input (Hash (sha demo) ''Hi {n}'' [''n'']) [] [] ''acme'' ''first''"
  define z where "z = commit_input (Hash (sha demo) ''Hi {n}'' [''n'']) demo_hash [] ''acme'' ''first''"
  have "sha demo x \<noteq> sha demo y" "sha demo x \<noteq> sha demo z"
    by (simp_all add: x_def y_def z_def demo_def demo_sha_def hash_input_def commit_input_def)
  moreover have "sha demo y \<noteq> sha demo z" unfolding y_def z_def by code_simp
  ultimately have "inj_on (sha demo) {x, y, z}" by (auto simp: inj_on_def)
  moreover have "M = {x, y, z}"
    by (auto simp: M_def demo_M_def commit_msgs_def x_def y_def z_def)
  ultimately have inj: "inj_on (sha demo) M" by (simp only:)
  have m1: "op_msgs demo calm (OpCommit demo_uri ''main'' ''Hi {n}'' [''n''] ''acme'' ''first'') empty_db \<subseteq> M"
    by (simp add: M_def demo_M_def empty_db_def null_string_def)
  have m2: "op_msgs demo calm (OpCommit demo_uri ''main'' ''Hi {n}'' [''n''] ''acme'' ''first'') demo_db \<subseteq> M"
    by (simp add: M_def demo_tip null_string_def)
  obtain h' d2 where c: "Commit demo calm demo_uri ''main'' ''Hi {n}'' [''n''] ''acme'' ''first'' demo_db = (Inr h', d2)"
    using Commit_calm [OF demo_ok(3) refl] by blast
  have "list_all valid_utf8 [''n'']" by simp
  from recommit_moves_branch [OF run_start inj demo_ok(1,2) this demo_plain(1) m1 demo_commit m2 c] c
  show ?thesis by simp
qed

text \<open>\<open>Put\<close>, which the command line's put and restore use, writes the served row alone: the new
  content is served, while \<open>main\<close> and its whole history stay what they were.\<close>

theorem put_bypasses_history:
  assumes "env_ok s e" and "list_all valid_utf8 (Slots p)" and "\<And>q. \<not> fails e q"
  shows "\<exists>d'. Put s e p d = (Inr (), d')
    \<and> Get s e d' (URI p) = Inr (p\<lparr>VersionHash := Hash (sha s) (Template p) (Slots p)\<rparr>)
    \<and> commits d' = commits d \<and> refs d' = refs d
    \<and> Resolve s e d' (URI p) ''main'' = Resolve s e d (URI p) ''main''"
proof -
  define r where "r = served_row s e (Template p) (Slots p) (Hash (sha s) (Template p) (Slots p))"
  let ?d = "upsert_prompt (URI p) r d"
  have put: "Put s e p d = (Inr (), ?d)"
    using assms(3) by (simp add: Put_def Let_def r_def served_row_def)
  have "served_content s r (Template p) (Slots p)"
    unfolding r_def by (rule served_content_new [OF assms(1,2) refl])
  then have "Get s e ?d (URI p) = Inr \<lparr>URI = URI p, Template = Template p, Slots = Slots p,
      VersionHash = Hash (sha s) (Template p) (Slots p)\<rparr>"
    using Get_served [of ?d "URI p" r s _ _ e] assms(3) by simp
  moreover have g: "GetCommit s e ?d = GetCommit s e d" by (intro ext GetCommit_row) simp
  have "Resolve s e ?d (URI p) ''main'' = Resolve s e d (URI p) ''main''"
    unfolding Resolve_def tip_def g upsert_frame by (rule refl)
  ultimately show ?thesis using put by (intro exI [of _ ?d]) simp
qed

theorem put_bypasses_history_witness:
  "\<exists>d'. Put demo calm \<lparr>URI = demo_uri, Template = ''Bye'', Slots = [], VersionHash = []\<rparr> demo_db = (Inr (), d')
     \<and> (\<exists>p. Get demo calm d' demo_uri = Inr p \<and> Template p = ''Bye'')
     \<and> (\<exists>c. Resolve demo calm d' demo_uri ''main'' = Inr c \<and> c_Template c = ''Hi {n}'')"
proof -
  have "Resolve demo calm demo_db demo_uri ''main'' = GetCommit demo calm demo_db demo_hash"
    by (rule Resolve_branch [OF demo_tip]) simp
  then show ?thesis
    using put_bypasses_history [OF demo_ok(2), of "\<lparr>URI = demo_uri, Template = ''Bye'', Slots = [], VersionHash = []\<rparr>" demo_db]
    by (auto simp: demo_GetCommit)
qed

text \<open>A branch created under the name \<open>main\<close> does not write the served row: a prompt whose only
  branch is \<open>dev\<close> then resolves on \<open>main\<close> and is still reported as missing by \<open>Get\<close>.\<close>

theorem branch_main_breaks_head:
  assumes "env_ok s e" and "list_all valid_utf8 sl" and "\<And>q. \<not> fails e q"
  shows "\<exists>h d1 d2 c. Commit s e uri ''dev'' t sl a m empty_db = (Inr h, d1)
    \<and> Branch e uri ''main'' ''dev'' d1 = (Inr (), d2)
    \<and> Resolve s e d2 uri ''main'' = Inr c \<and> c_Template c = t
    \<and> Get s e d2 uri = Inl ErrNotFound"
proof -
  define h where "h = commit_hash_of s t sl [] [] a m"
  define r where "r = new_row s e uri t sl [] [] a m"
  define d1 where "d1 = upsert_ref uri ''dev'' h (insert_commit r empty_db)"
  define d2 where "d2 = upsert_ref uri ''main'' h d1"
  have c1: "Commit s e uri ''dev'' t sl a m empty_db = (Inr h, d1)"
    using Commit_calm [OF assms(3), of "[]" empty_db uri "''dev''"]
    by (simp add: empty_db_def null_string_def h_def d1_def r_def move_branch_def DefaultBranch_def)
  have b: "Branch e uri ''main'' ''dev'' d1 = (Inr (), d2)"
    using assms(3) by (simp add: Branch_def tip_def d1_def insert_ref_def d2_def upsert_ref_def empty_db_def)
  have row: "commit_row_of d2 h = Some r"
    by (simp add: d2_def d1_def commit_row_of_def insert_commit_def empty_db_def r_def h_def)
  have "row_content s r t sl" unfolding r_def by (rule row_content_new) (rule assms)+
  then obtain c where c: "GetCommit s e d2 h = Inr c" "c_Template c = t"
    using GetCommit_served [OF row _ assms(3)] by metis
  moreover have "Resolve s e d2 uri ''main'' = GetCommit s e d2 h"
    by (rule Resolve_branch) (simp_all add: d2_def assms(3))
  moreover have "Get s e d2 uri = Inl ErrNotFound"
    using assms(3) by (simp add: Get_def d2_def d1_def empty_db_def)
  ultimately show ?thesis using c1 b by metis
qed

theorem branch_main_breaks_head_witness:
  "\<exists>d c. Resolve demo calm d demo_uri ''main'' = Inr c \<and> c_Template c = ''Hi'' \<and> Get demo calm d demo_uri = Inl ErrNotFound"
  using branch_main_breaks_head [OF demo_ok(2), of "[]" demo_uri "''Hi''" "''acme''" "''draft''"] by force

end
