(* ===== verification/LineDiff.thy ===== *)
theory LineDiff
  imports Prelude "HOL-Library.Sublist"
begin

text \<open>
  The line diff of \<^verbatim>\<open>internal/semdiff/semdiff.go\<close>: \<open>changes\<close> fills the table of longest common
  subsequences of the suffixes of both versions and walks it from the top. \<open>lcs\<close> is the
  reference the table is equal to; the hunks the walk returns are ordered, within bounds,
  explain how one version becomes the other, and are minimal.
\<close>

record change =
  OldStart :: nat
  OldEnd :: nat
  NewStart :: nat
  NewEnd :: nat

abbreviation Change :: "nat \<Rightarrow> nat \<Rightarrow> nat \<Rightarrow> nat \<Rightarrow> change" where
  "Change os oe ns ne \<equiv> \<lparr>OldStart = os, OldEnd = oe, NewStart = ns, NewEnd = ne\<rparr>"

subsection \<open>The table\<close>

text \<open>Row \<open>i\<close> from row \<open>i+1\<close>, right to left: the loop over \<open>j\<close>. Both rows end in a 0.\<close>

fun dp_row :: "'a \<Rightarrow> 'a list \<Rightarrow> nat list \<Rightarrow> nat list" where
  "dp_row x [] below = [0]"
| "dp_row x (y # ys) below =
     (let rest = dp_row x ys (tl below)
      in (if x = y then hd (tl below) + 1 else max (hd below) (hd rest)) # rest)"

text \<open>All rows, bottom up: the loop over \<open>i\<close>.\<close>

fun dp_table :: "'a list \<Rightarrow> 'a list \<Rightarrow> nat list list" where
  "dp_table [] ys = [replicate (length ys + 1) 0]"
| "dp_table (x # xs) ys = (let rows = dp_table xs ys in dp_row x ys (hd rows) # rows)"

subsection \<open>The walk\<close>

text \<open>The inner loop: the end of the hunk that starts at \<open>i\<close>, \<open>j\<close>.\<close>

function skip :: "'a list \<Rightarrow> 'a list \<Rightarrow> nat list list \<Rightarrow> nat \<Rightarrow> nat \<Rightarrow> nat \<times> nat" where
  "skip old new dp i j =
     (if i < length old \<and> j < length new \<and> old ! i \<noteq> new ! j then
        if dp ! (i + 1) ! j \<ge> dp ! i ! (j + 1) then skip old new dp (i + 1) j
        else skip old new dp i (j + 1)
      else (i, j))"
  by pat_completeness auto
termination
  by (relation "measure (\<lambda>(old, new, dp, i, j). length old + length new - i - j)") auto

declare skip.simps [simp del]

text \<open>Where the walk stands before the end of both versions on different lines.\<close>

definition apart :: "'a list \<Rightarrow> 'a list \<Rightarrow> nat \<Rightarrow> nat \<Rightarrow> bool" where
  "apart old new i j \<longleftrightarrow> i < length old \<and> j < length new \<and> old ! i \<noteq> new ! j"

lemma skip_rules:
  "\<not> apart old new i j \<Longrightarrow> skip old new dp i j = (i, j)"
  "apart old new i j \<Longrightarrow> dp ! (i + 1) ! j \<ge> dp ! i ! (j + 1) \<Longrightarrow> skip old new dp i j = skip old new dp (i + 1) j"
  "apart old new i j \<Longrightarrow> \<not> dp ! (i + 1) ! j \<ge> dp ! i ! (j + 1) \<Longrightarrow> skip old new dp i j = skip old new dp i (j + 1)"
  by (subst skip.simps; auto simp: apart_def)+

lemma skip_induct [case_names stop old new]:
  assumes "\<And>i j. \<not> apart old new i j \<Longrightarrow> P i j (i, j)"
    and "\<And>i j. apart old new i j \<Longrightarrow> dp ! (i + 1) ! j \<ge> dp ! i ! (j + 1) \<Longrightarrow>
      P (i + 1) j (skip old new dp (i + 1) j) \<Longrightarrow> P i j (skip old new dp (i + 1) j)"
    and "\<And>i j. apart old new i j \<Longrightarrow> \<not> dp ! (i + 1) ! j \<ge> dp ! i ! (j + 1) \<Longrightarrow>
      P i (j + 1) (skip old new dp i (j + 1)) \<Longrightarrow> P i j (skip old new dp i (j + 1))"
  shows "P i j (skip old new dp i j)"
proof (induction "length old + length new - i - j" arbitrary: i j rule: less_induct)
  case less
  show ?case
  proof (cases "apart old new i j")
    case True
    then have lt: "length old + length new - (i + 1) - j < length old + length new - i - j"
      "length old + length new - i - (j + 1) < length old + length new - i - j"
      by (auto simp: apart_def)
    show ?thesis
    proof (cases "dp ! (i + 1) ! j \<ge> dp ! i ! (j + 1)")
      case c: True
      show ?thesis unfolding skip_rules(2) [OF True c] by (rule assms(2) [OF True c less [OF lt(1)]])
    next
      case c: False
      show ?thesis unfolding skip_rules(3) [OF True c] by (rule assms(3) [OF True c less [OF lt(2)]])
    qed
  next
    case False
    show ?thesis unfolding skip_rules(1) [OF False] by (rule assms(1) [OF False])
  qed
qed

lemma skip_bounds:
  "i \<le> length old \<longrightarrow> j \<le> length new \<longrightarrow>
     i \<le> fst (skip old new dp i j) \<and> fst (skip old new dp i j) \<le> length old \<and>
     j \<le> snd (skip old new dp i j) \<and> snd (skip old new dp i j) \<le> length new"
  by (rule skip_induct [where P = "\<lambda>i j r. i \<le> length old \<longrightarrow> j \<le> length new \<longrightarrow>
     i \<le> fst r \<and> fst r \<le> length old \<and> j \<le> snd r \<and> snd r \<le> length new"]) (auto simp: apart_def)

lemma skip_progress:
  assumes "apart old new i j"
  shows "i + j < fst (skip old new dp i j) + snd (skip old new dp i j)"
proof -
  have b: "i + 1 \<le> length old" "j + 1 \<le> length new" using assms by (auto simp: apart_def)
  show ?thesis
  proof (cases "dp ! (i + 1) ! j \<ge> dp ! i ! (j + 1)")
    case True
    then show ?thesis using skip_rules(2) [OF assms True] skip_bounds [of "i + 1" old j new dp] b by simp
  next
    case False
    then show ?thesis using skip_rules(3) [OF assms False] skip_bounds [of i old "j + 1" new dp] b by simp
  qed
qed

text \<open>The inner loop stops at equal lines or at an end.\<close>

lemma skip_stops: "\<not> apart old new (fst (skip old new dp i j)) (snd (skip old new dp i j))"
  by (rule skip_induct [where P = "\<lambda>i j r. \<not> apart old new (fst r) (snd r)"]) auto

lemma skip_less:
  assumes "i < length old" and "j < length new" and "old ! i \<noteq> new ! j"
  shows "length old + length new - (fst (skip old new dp i j) + snd (skip old new dp i j))
    < length old + length new - (i + j)"
  using skip_progress [of old new i j dp] assms by (auto simp: apart_def)

text \<open>The outer loop, with the trailing hunk behind it.\<close>

function hunks :: "'a list \<Rightarrow> 'a list \<Rightarrow> nat list list \<Rightarrow> nat \<Rightarrow> nat \<Rightarrow> change list" where
  "hunks old new dp i j =
     (if i < length old \<and> j < length new then
        if old ! i = new ! j then hunks old new dp (i + 1) (j + 1)
        else (case skip old new dp i j of (i', j') \<Rightarrow> Change i i' j j' # hunks old new dp i' j')
      else if i < length old \<or> j < length new then [Change i (length old) j (length new)]
      else [])"
  by pat_completeness auto
termination
  by (relation "measure (\<lambda>(old, new, dp, i, j). length old + length new - i - j)")
    (auto simp: case_prod_beta skip_less)

declare hunks.simps [simp del]

definition changes :: "'a list \<Rightarrow> 'a list \<Rightarrow> change list" where
  "changes old new = hunks old new (dp_table old new) 0 0"

subsection \<open>The table is the longest common subsequence\<close>

fun lcs :: "'a list \<Rightarrow> 'a list \<Rightarrow> nat" where
  "lcs [] ys = 0"
| "lcs xs [] = 0"
| "lcs (x # xs) (y # ys) = (if x = y then lcs xs ys + 1 else max (lcs xs (y # ys)) (lcs (x # xs) ys))"

lemma lcs_Nil2 [simp]: "lcs xs [] = 0"
  by (cases xs) auto

text \<open>The reference is the length of a longest common subsequence.\<close>

lemma lcs_attained: "\<exists>zs. subseq zs xs \<and> subseq zs ys \<and> length zs = lcs xs ys"
proof (induction xs ys rule: lcs.induct)
  case (3 x xs y ys)
  show ?case
  proof (cases "x = y")
    case True
    with 3(1) obtain zs where "subseq zs xs" "subseq zs ys" "length zs = lcs xs ys" by blast
    with True show ?thesis by (intro exI [of _ "x # zs"]) simp
  next
    case False
    show ?thesis
    proof (cases "lcs xs (y # ys) \<ge> lcs (x # xs) ys")
      case True
      from 3(2) [OF False] obtain zs where "subseq zs xs" "subseq zs (y # ys)" "length zs = lcs xs (y # ys)" by blast
      with True False show ?thesis by (intro exI [of _ zs]) auto
    next
      case less: False
      from 3(3) [OF False] obtain zs where "subseq zs (x # xs)" "subseq zs ys" "length zs = lcs (x # xs) ys" by blast
      with less False show ?thesis by (intro exI [of _ zs]) auto
    qed
  qed
qed auto

lemma lcs_maximal: "subseq zs xs \<Longrightarrow> subseq zs ys \<Longrightarrow> length zs \<le> lcs xs ys"
proof (induction xs ys arbitrary: zs rule: lcs.induct)
  case (3 x xs y ys)
  show ?case
  proof (cases zs)
    case (Cons z zs')
    show ?thesis
    proof (cases "x = y")
      case True
      have "subseq zs' xs \<and> subseq zs' ys"
        using 3(4,5) Cons subseq_Cons' by (auto split: if_splits)
      with 3(1) [OF True] Cons True show ?thesis by simp
    next
      case False
      then have "subseq zs xs \<or> subseq zs ys"
        using 3(4,5) Cons by (auto split: if_splits)
      with 3(2,3) [OF False] 3(4,5) False show ?thesis by fastforce
    qed
  qed simp
qed (auto simp: list_emb_Nil2)

lemma length_dp_row: "length below = length ys + 1 \<Longrightarrow> length (dp_row x ys below) = length ys + 1"
  by (induction x ys below rule: dp_row.induct) (auto simp: Let_def)

lemma dp_row_lcs:
  "length below = length ys + 1 \<Longrightarrow> (\<forall>j \<le> length ys. below ! j = lcs xs (drop j ys)) \<Longrightarrow>
     j \<le> length ys \<Longrightarrow> dp_row x ys below ! j = lcs (x # xs) (drop j ys)"
proof (induction x ys below arbitrary: j rule: dp_row.induct)
  case (2 x y ys below)
  have tl: "length (tl below) = length ys + 1" "\<forall>j \<le> length ys. tl below ! j = lcs xs (drop j ys)"
    using 2(2,3) by (auto simp: nth_tl)
  have row: "k \<le> length ys \<Longrightarrow> dp_row x ys (tl below) ! k = lcs (x # xs) (drop k ys)" for k
    using 2(1) [OF tl] .
  show ?case
  proof (cases j)
    case 0
    have "hd (tl below) = lcs xs ys" using tl by (cases "tl below") force+
    moreover have "hd below = lcs xs (y # ys)" using 2(2,3) by (cases below) force+
    moreover have "hd (dp_row x ys (tl below)) = lcs (x # xs) ys"
      using row [of 0] length_dp_row [OF tl(1), of x] by (cases "dp_row x ys (tl below)") auto
    ultimately show ?thesis using 0 by (simp add: Let_def)
  next
    case (Suc k)
    with row 2(4) show ?thesis by (simp add: Let_def)
  qed
qed simp

lemma dp_table_lcs:
  "length (dp_table xs ys) = length xs + 1 \<and>
   (\<forall>i \<le> length xs. length (dp_table xs ys ! i) = length ys + 1 \<and>
     (\<forall>j \<le> length ys. dp_table xs ys ! i ! j = lcs (drop i xs) (drop j ys)))"
proof (induction xs)
  case Nil
  then show ?case by (auto simp: nth_Cons split: nat.splits)
next
  case (Cons x xs)
  then obtain b bs where rows: "dp_table xs ys = b # bs" by (cases "dp_table xs ys") auto
  with Cons have b: "length b = length ys + 1" "\<forall>j \<le> length ys. b ! j = lcs xs (drop j ys)" by force+
  show ?case
  proof (intro conjI allI impI)
    fix i assume "i \<le> length (x # xs)"
    with Cons rows b length_dp_row [OF b(1)] dp_row_lcs [OF b]
    show "length (dp_table (x # xs) ys ! i) = length ys + 1"
      by (cases i) (simp_all add: Let_def)
    fix j assume "j \<le> length ys"
    with \<open>i \<le> length (x # xs)\<close> Cons rows dp_row_lcs [OF b]
    show "dp_table (x # xs) ys ! i ! j = lcs (drop i (x # xs)) (drop j ys)"
      by (cases i) (simp_all add: Let_def)
  qed (use Cons rows in \<open>simp add: Let_def\<close>)
qed

lemma dp_lcs:
  "i \<le> length old \<Longrightarrow> j \<le> length new \<Longrightarrow> dp_table old new ! i ! j = lcs (drop i old) (drop j new)"
  using dp_table_lcs [of old new] by blast

subsection \<open>What the hunks explain\<close>

text \<open>
  A list of hunks explains the two versions from \<open>i\<close> and \<open>j\<close> on: the hunks come in order, within
  bounds and not empty, and the lines in front of, between and behind them are the same.
\<close>

fun explains :: "'a list \<Rightarrow> 'a list \<Rightarrow> nat \<Rightarrow> nat \<Rightarrow> change list \<Rightarrow> bool" where
  "explains old new i j [] \<longleftrightarrow> drop i old = drop j new"
| "explains old new i j (c # cs) \<longleftrightarrow>
     i \<le> OldStart c \<and> OldStart c \<le> OldEnd c \<and> OldEnd c \<le> length old
     \<and> j \<le> NewStart c \<and> NewStart c \<le> NewEnd c \<and> NewEnd c \<le> length new
     \<and> (OldStart c < OldEnd c \<or> NewStart c < NewEnd c)
     \<and> take (OldStart c - i) (drop i old) = take (NewStart c - j) (drop j new)
     \<and> explains old new (OldEnd c) (NewEnd c) cs"

text \<open>The old version with the hunks replaced.\<close>

fun patch :: "'a list \<Rightarrow> 'a list \<Rightarrow> nat \<Rightarrow> change list \<Rightarrow> 'a list" where
  "patch old new i [] = drop i old"
| "patch old new i (c # cs) =
     take (OldStart c - i) (drop i old) @ take (NewEnd c - NewStart c) (drop (NewStart c) new)
       @ patch old new (OldEnd c) cs"

lemma take_split: "i \<le> j \<Longrightarrow> drop i xs = take (j - i) (drop i xs) @ drop j xs"
  by (metis append_take_drop_id drop_drop le_add_diff_inverse2)

lemma explains_patch: "explains old new i j cs \<Longrightarrow> patch old new i cs = drop j new"
proof (induction cs arbitrary: i j)
  case (Cons c cs)
  then have "patch old new (OldEnd c) cs = drop (NewEnd c) new" by simp
  with Cons.prems take_split [of j "NewStart c" new] take_split [of "NewStart c" "NewEnd c" new]
  show ?case by simp
qed simp

text \<open>Lines removed and added.\<close>

fun cost :: "change list \<Rightarrow> nat" where
  "cost [] = 0"
| "cost (c # cs) = (OldEnd c - OldStart c) + (NewEnd c - NewStart c) + cost cs"

lemma lcs_append: "length p + lcs xs ys \<le> lcs (p @ xs) (p @ ys)"
  by (induction p) auto

lemma lcs_drop: "lcs (drop k xs) (drop l ys) \<le> lcs xs ys"
proof -
  obtain zs where zs: "subseq zs (drop k xs)" "subseq zs (drop l ys)" "length zs = lcs (drop k xs) (drop l ys)"
    using lcs_attained by blast
  have "subseq (drop k xs) xs" "subseq (drop l ys) ys"
    by (metis append_take_drop_id list_emb_append2 subseq_order.order_refl)+
  with zs lcs_maximal [of zs xs ys] show ?thesis by (metis subseq_order.order_trans)
qed

text \<open>Whatever explains two versions costs at least what a longest common subsequence leaves.\<close>

lemma explains_cost:
  "explains old new i j cs \<Longrightarrow>
     length (drop i old) + length (drop j new) \<le> cost cs + 2 * lcs (drop i old) (drop j new)"
proof (induction cs arbitrary: i j)
  case Nil
  have "length xs \<le> lcs xs xs" for xs :: "'a list" by (rule lcs_maximal) simp_all
  from this [of "drop j new"] Nil show ?case by simp
next
  case (Cons c cs)
  define p where "p = take (OldStart c - i) (drop i old)"
  have le: "i \<le> OldStart c" "OldStart c \<le> OldEnd c" "OldEnd c \<le> length old"
    "j \<le> NewStart c" "NewStart c \<le> NewEnd c" "NewEnd c \<le> length new"
    using Cons.prems by simp_all
  have IH: "length (drop (OldEnd c) old) + length (drop (NewEnd c) new)
      \<le> cost cs + 2 * lcs (drop (OldEnd c) old) (drop (NewEnd c) new)"
    by (rule Cons.IH) (use Cons.prems in simp)
  have p': "p = take (NewStart c - j) (drop j new)" using Cons.prems by (simp add: p_def)
  have "length p = OldStart c - i" using le by (simp add: p_def)
  moreover have "length p = NewStart c - j" using le by (simp add: p')
  moreover have "drop i old = p @ drop (OldStart c) old" unfolding p_def using le take_split by blast
  moreover have "drop j new = p @ drop (NewStart c) new" unfolding p' using le take_split by blast
  moreover have "lcs (drop (OldEnd c) old) (drop (NewEnd c) new)
      \<le> lcs (drop (OldStart c) old) (drop (NewStart c) new)"
    using lcs_drop [of "OldEnd c - OldStart c" "drop (OldStart c) old" "NewEnd c - NewStart c" "drop (NewStart c) new"] le
    by (simp add: add.commute)
  moreover have "length p + lcs (drop (OldStart c) old) (drop (NewStart c) new) \<le> lcs (drop i old) (drop j new)"
    using lcs_append calculation(3,4) by metis
  moreover have "length (drop i old) = length p + (OldEnd c - OldStart c) + length (drop (OldEnd c) old)"
    using le calculation(1) by simp
  moreover have "length (drop j new) = length p + (NewEnd c - NewStart c) + length (drop (NewEnd c) new)"
    using le calculation(2) by simp
  moreover have "cost (c # cs) = (OldEnd c - OldStart c) + (NewEnd c - NewStart c) + cost cs" by simp
  ultimately show ?case using IH by linarith
qed

subsection \<open>What the walk returns\<close>

lemma lcs_apart:
  assumes "apart old new i j"
  shows "lcs (drop i old) (drop j new) =
    max (lcs (drop (i + 1) old) (drop j new)) (lcs (drop i old) (drop (j + 1) new))"
proof -
  from assms have "drop i old = old ! i # drop (i + 1) old" "drop j new = new ! j # drop (j + 1) new"
    by (simp_all add: apart_def Cons_nth_drop_Suc)
  with assms show ?thesis by (simp add: apart_def)
qed

lemma skip_lcs:
  "lcs (drop (fst (skip old new (dp_table old new) i j)) old) (drop (snd (skip old new (dp_table old new) i j)) new)
     = lcs (drop i old) (drop j new)"
proof (rule skip_induct [where P = "\<lambda>i j r. lcs (drop (fst r) old) (drop (snd r) new) = lcs (drop i old) (drop j new)"])
  fix i j
  assume a: "apart old new i j"
  then have d: "dp_table old new ! (i + 1) ! j = lcs (drop (i + 1) old) (drop j new)"
    "dp_table old new ! i ! (j + 1) = lcs (drop i old) (drop (j + 1) new)"
    by (intro dp_lcs; simp add: apart_def)+
  show "lcs (drop (fst (skip old new (dp_table old new) (i + 1) j)) old)
      (drop (snd (skip old new (dp_table old new) (i + 1) j)) new) = lcs (drop i old) (drop j new)"
    if "dp_table old new ! (i + 1) ! j \<ge> dp_table old new ! i ! (j + 1)"
      "lcs (drop (fst (skip old new (dp_table old new) (i + 1) j)) old)
        (drop (snd (skip old new (dp_table old new) (i + 1) j)) new) = lcs (drop (i + 1) old) (drop j new)"
    using that lcs_apart [OF a] unfolding d by simp
  show "lcs (drop (fst (skip old new (dp_table old new) i (j + 1))) old)
      (drop (snd (skip old new (dp_table old new) i (j + 1))) new) = lcs (drop i old) (drop j new)"
    if "\<not> dp_table old new ! (i + 1) ! j \<ge> dp_table old new ! i ! (j + 1)"
      "lcs (drop (fst (skip old new (dp_table old new) i (j + 1))) old)
        (drop (snd (skip old new (dp_table old new) i (j + 1))) new) = lcs (drop i old) (drop (j + 1) new)"
    using that lcs_apart [OF a] unfolding d by simp
qed simp

lemma explains_match:
  assumes "i < length old" and "j < length new" and "old ! i = new ! j"
    and "explains old new (i + 1) (j + 1) cs"
  shows "explains old new i j cs"
proof (cases cs)
  case Nil
  moreover have "drop i old = old ! i # drop (i + 1) old" "drop j new = new ! j # drop (j + 1) new"
    using assms(1,2) by (simp_all add: Cons_nth_drop_Suc)
  ultimately show ?thesis using assms(3,4) by simp
next
  case (Cons c cs')
  have "drop i old = old ! i # drop (i + 1) old" "drop j new = new ! j # drop (j + 1) new"
    using assms(1,2) by (simp_all add: Cons_nth_drop_Suc)
  moreover have "OldStart c - i = Suc (OldStart c - (i + 1))" "NewStart c - j = Suc (NewStart c - (j + 1))"
    using assms(4) Cons by auto
  ultimately show ?thesis using assms(3,4) Cons by simp
qed

lemma hunks_rules:
  "i < length old \<Longrightarrow> j < length new \<Longrightarrow> old ! i = new ! j \<Longrightarrow> hunks old new dp i j = hunks old new dp (i + 1) (j + 1)"
  "apart old new i j \<Longrightarrow> hunks old new dp i j =
     Change i (fst (skip old new dp i j)) j (snd (skip old new dp i j))
       # hunks old new dp (fst (skip old new dp i j)) (snd (skip old new dp i j))"
  "\<not> (i < length old \<and> j < length new) \<Longrightarrow> hunks old new dp i j =
     (if i < length old \<or> j < length new then [Change i (length old) j (length new)] else [])"
  by (subst hunks.simps; auto simp: apart_def case_prod_beta)+

lemma hunks_explains:
  "i \<le> length old \<Longrightarrow> j \<le> length new \<Longrightarrow> explains old new i j (hunks old new dp i j)"
proof (induction "length old + length new - i - j" arbitrary: i j rule: less_induct)
  case less
  show ?case
  proof (cases "i < length old \<and> j < length new")
    case True
    show ?thesis
    proof (cases "old ! i = new ! j")
      case eq: True
      have "explains old new (i + 1) (j + 1) (hunks old new dp (i + 1) (j + 1))"
        by (rule less.hyps) (use True in auto)
      with True eq show ?thesis by (simp add: hunks_rules(1) explains_match)
    next
      case False
      with True have a: "apart old new i j" by (simp add: apart_def)
      obtain i' j' where s: "skip old new dp i j = (i', j')" by fastforce
      with skip_bounds [of i old j new dp] skip_progress [OF a, of dp] True
      have b: "i \<le> i'" "i' \<le> length old" "j \<le> j'" "j' \<le> length new" "i + j < i' + j'" by auto
      then have "explains old new i' j' (hunks old new dp i' j')"
        by (intro less.hyps) auto
      with b show ?thesis unfolding hunks_rules(2) [OF a] s by auto
    qed
  next
    case False
    with less.prems show ?thesis unfolding hunks_rules(3) [OF False] by auto
  qed
qed

lemma hunks_cost:
  "i \<le> length old \<Longrightarrow> j \<le> length new \<Longrightarrow>
     cost (hunks old new (dp_table old new) i j) + 2 * lcs (drop i old) (drop j new)
       = (length old - i) + (length new - j)"
proof (induction "length old + length new - i - j" arbitrary: i j rule: less_induct)
  case less
  let ?dp = "dp_table old new"
  show ?case
  proof (cases "i < length old \<and> j < length new")
    case True
    show ?thesis
    proof (cases "old ! i = new ! j")
      case eq: True
      have "cost (hunks old new ?dp (i + 1) (j + 1)) + 2 * lcs (drop (i + 1) old) (drop (j + 1) new)
          = (length old - (i + 1)) + (length new - (j + 1))"
        by (rule less.hyps) (use True in auto)
      moreover have "lcs (drop i old) (drop j new) = lcs (drop (i + 1) old) (drop (j + 1) new) + 1"
        using True eq by (simp add: Cons_nth_drop_Suc [symmetric])
      ultimately show ?thesis using True eq by (simp add: hunks_rules(1)) arith
    next
      case False
      with True have a: "apart old new i j" by (simp add: apart_def)
      obtain i' j' where s: "skip old new ?dp i j = (i', j')" by fastforce
      with skip_bounds [of i old j new ?dp] skip_progress [OF a, of ?dp] True
      have b: "i \<le> i'" "i' \<le> length old" "j \<le> j'" "j' \<le> length new" "i + j < i' + j'" by auto
      then have "cost (hunks old new ?dp i' j') + 2 * lcs (drop i' old) (drop j' new)
          = (length old - i') + (length new - j')"
        by (intro less.hyps) auto
      moreover have "lcs (drop i' old) (drop j' new) = lcs (drop i old) (drop j new)"
        using skip_lcs [of old new i j] s by simp
      ultimately show ?thesis using b unfolding hunks_rules(2) [OF a] s by simp
    qed
  next
    case False
    then have "lcs (drop i old) (drop j new) = 0" by auto
    with False less.prems show ?thesis unfolding hunks_rules(3) [OF False] by auto
  qed
qed

lemma changes_explains: "explains old new 0 0 (changes old new)"
  unfolding changes_def by (rule hunks_explains) simp_all

lemma changes_cost: "cost (changes old new) + 2 * lcs old new = length old + length new"
  using hunks_cost [of 0 old 0 new] by (simp add: changes_def)

lemma changes_same: "changes xs xs = []"
proof -
  have "length xs \<le> lcs xs xs" by (rule lcs_maximal) simp_all
  with changes_cost [of xs xs] have "cost (changes xs xs) = 0" by simp
  moreover have "explains old new i j cs \<Longrightarrow> cost cs = 0 \<Longrightarrow> cs = []" for old new :: "'a list" and i j cs
    by (cases cs) auto
  ultimately show ?thesis using changes_explains by blast
qed

subsection \<open>The promises of the line diff\<close>

text \<open>C25: the hunks describe the edit: they come in order, within bounds, none is empty, the lines
  around them are the same in both versions, and replacing them in the old version gives the new
  one.\<close>

theorem hunks_describe_the_edit:
  "explains old new 0 0 (changes old new) \<and> patch old new 0 (changes old new) = new"
  using changes_explains [of old new] explains_patch by fastforce

text \<open>C24: the diff is minimal: no other ordered list of hunks that explains the two versions removes
  and adds fewer lines, and the lines it keeps are as many as a longest common subsequence has.\<close>

theorem diff_is_minimal:
  "(explains old new 0 0 cs \<longrightarrow> cost (changes old new) \<le> cost cs)
   \<and> (\<exists>zs. subseq zs old \<and> subseq zs new \<and> cost (changes old new) + 2 * length zs = length old + length new)"
  using explains_cost [of old new 0 0 cs] changes_cost [of old new] lcs_attained [of old new] by auto

theorem diff_is_minimal_witness:
  "cost (changes [''a'', ''b'', ''c''] [''a'', ''x'', ''c'']) \<le> cost [Change 0 3 0 3]"
  using diff_is_minimal [of "[''a'', ''b'', ''c'']" "[''a'', ''x'', ''c'']" "[Change 0 3 0 3]"] by simp

lemma hunks_common_prefix:
  assumes "k \<le> length p"
  shows "hunks (p @ xs) (p @ ys) dp (length p - k) (length p - k) = hunks (p @ xs) (p @ ys) dp (length p) (length p)"
  using assms
proof (induction k)
  case (Suc k)
  define i where "i = length p - Suc k"
  have "i < length p" "i + 1 = length p - k" using Suc.prems by (simp_all add: i_def)
  then have "hunks (p @ xs) (p @ ys) dp i i = hunks (p @ xs) (p @ ys) dp (length p - k) (length p - k)"
    by (subst hunks_rules(1)) (simp_all add: nth_append)
  with Suc show ?case by (simp add: i_def)
qed simp

text \<open>An edit of the last line is never one replaced hunk: it comes out as the deletion of the old
  line followed by the insertion of the new one, each with an empty other side.\<close>

theorem last_line_edit_is_split:
  assumes "a \<noteq> b"
  shows "changes (p @ [a]) (p @ [b]) =
    [Change (length p) (length p + 1) (length p) (length p),
     Change (length p + 1) (length p + 1) (length p) (length p + 1)]"
proof -
  let ?n = "length p" and ?o = "p @ [a]" and ?m = "p @ [b]"
  let ?dp = "dp_table ?o ?m"
  have a: "apart ?o ?m ?n ?n" using assms by (simp add: apart_def)
  have "?dp ! (?n + 1) ! ?n = 0" "?dp ! ?n ! (?n + 1) = 0"
    by (simp_all only: dp_lcs length_append list.size add_0 le_add1 order_refl) simp_all
  then have "skip ?o ?m ?dp ?n ?n = skip ?o ?m ?dp (?n + 1) ?n"
    using a by (intro skip_rules(2)) simp_all
  also have "\<dots> = (?n + 1, ?n)" by (rule skip_rules(1)) (simp add: apart_def)
  finally have s: "skip ?o ?m ?dp ?n ?n = (?n + 1, ?n)" .
  have "changes ?o ?m = hunks ?o ?m ?dp ?n ?n"
    using hunks_common_prefix [of ?n p "[a]" "[b]" ?dp] by (simp add: changes_def)
  also have "\<dots> = Change ?n (?n + 1) ?n ?n # hunks ?o ?m ?dp (?n + 1) ?n"
    using hunks_rules(2) [OF a, of ?dp] s by simp
  also have "hunks ?o ?m ?dp (?n + 1) ?n = [Change (?n + 1) (?n + 1) ?n (?n + 1)]"
    by (subst hunks_rules(3)) simp_all
  finally show ?thesis .
qed

theorem last_line_edit_is_split_witness:
  "changes [''x'', ''old''] [''x'', ''new''] = [Change 1 2 1 1, Change 2 2 1 2]"
  using last_line_edit_is_split [of "''old''" "''new''" "[''x'']"] by simp

end
