(* ===== verification/Float64.thy ===== *)
theory Float64
  imports Prelude Complex_Main
begin

text \<open>
  The floating-point arithmetic of the semantic diff. A \<open>float64\<close> is the rational number it
  denotes; an operation computes exactly and rounds to 53 significant bits, ties to even, as
  IEEE 754 asks. Exponents are unbounded: the program multiplies and adds \<open>float32\<close> values only,
  whose products lie between \<open>2^-298\<close> and \<open>2^256\<close>, and divides and subtracts numbers of that
  range, so no \<open>float64\<close> operation of it overflows, underflows or meets a NaN. A product of two
  \<open>float32\<close> values is exact, so a compiler that fuses it with the addition changes nothing.
\<close>

type_synonym f64 = rat
type_synonym f32 = rat

subsection \<open>Rounding\<close>

function bitlen :: "int \<Rightarrow> nat" where
  "bitlen n = (if n \<le> 0 then 0 else Suc (bitlen (n div 2)))"
  by pat_completeness auto
termination by (relation "measure nat") auto

declare bitlen.simps [simp del]

text \<open>\<open>2^k\<close> for any integer \<open>k\<close>.\<close>

definition pow2 :: "int \<Rightarrow> rat" where
  "pow2 k = (if 0 \<le> k then of_int (2 ^ nat k) else 1 / of_int (2 ^ nat (- k)))"

text \<open>The exponent of a positive rational: \<open>2^k \<le> x < 2^(k+1)\<close>.\<close>

definition log2_floor :: "rat \<Rightarrow> int" where
  "log2_floor x =
     (let (n, d) = quotient_of x; k = int (bitlen n) - int (bitlen d)
      in if pow2 k \<le> x then k else k - 1)"

definition half_even :: "rat \<Rightarrow> int" where
  "half_even x =
     (let f = floor x; r = x - of_int f
      in if r < 1 / 2 then f else if r > 1 / 2 then f + 1 else if even f then f else f + 1)"

definition rnd :: "nat \<Rightarrow> rat \<Rightarrow> rat" where
  "rnd p x =
     (if x = 0 then 0
      else let e = log2_floor (abs x) - int p + 1 in of_int (half_even (x / pow2 e)) * pow2 e)"

abbreviation rnd64 :: "rat \<Rightarrow> f64" where "rnd64 \<equiv> rnd 53"
abbreviation rnd32 :: "rat \<Rightarrow> f32" where "rnd32 \<equiv> rnd 24"

definition fadd :: "f64 \<Rightarrow> f64 \<Rightarrow> f64" where "fadd x y = rnd64 (x + y)"
definition fsub :: "f64 \<Rightarrow> f64 \<Rightarrow> f64" where "fsub x y = rnd64 (x - y)"
definition fmul :: "f64 \<Rightarrow> f64 \<Rightarrow> f64" where "fmul x y = rnd64 (x * y)"
definition fdiv :: "f64 \<Rightarrow> f64 \<Rightarrow> f64" where "fdiv x y = rnd64 (x / y)"

subsection \<open>Square root\<close>

text \<open>The integer square root, one binary digit after the other from the most significant.\<close>

fun isqrt_from :: "nat \<Rightarrow> int \<Rightarrow> int \<Rightarrow> int" where
  "isqrt_from 0 n r = r"
| "isqrt_from (Suc k) n r =
     (let r' = r + 2 ^ k in if r' * r' \<le> n then isqrt_from k n r' else isqrt_from k n r)"

definition isqrt :: "int \<Rightarrow> int" where
  "isqrt n = isqrt_from (bitlen n) n 0"

text \<open>
  \<open>math.Sqrt\<close>, correctly rounded: the root of \<open>x * 4^s\<close> is cut to an integer \<open>y\<close> of at least 60
  bits; a remainder puts the root strictly between \<open>y\<close> and \<open>y + 1\<close>, and every number there
  rounds as \<open>y + 1/2\<close> does.
\<close>

definition fsqrt :: "f64 \<Rightarrow> f64" where
  "fsqrt x =
     (if x \<le> 0 then 0
      else let s = 64 - log2_floor x div 2; n = x * pow2 (2 * s); y = isqrt (floor n);
               v = (if of_int (y * y) = n then of_int y else of_int y + 1 / 2)
           in rnd64 (v / pow2 s))"

subsection \<open>Facts\<close>

lemma half_even_of_int [simp]: "half_even (of_int n) = n"
  by (simp add: half_even_def)

lemma half_even_mono: "x \<le> y \<Longrightarrow> half_even x \<le> half_even y"
proof -
  assume le: "x \<le> y"
  then have f: "floor x \<le> floor y" by (rule floor_mono)
  have up: "half_even z \<le> floor z + 1" "floor z \<le> half_even z" for z :: rat
    by (simp_all add: half_even_def Let_def)
  show ?thesis
  proof (cases "floor x = floor y")
    case True
    with le show ?thesis by (auto simp: half_even_def Let_def)
  next
    case False
    with f have "floor x + 1 \<le> floor y" by simp
    with up(1) [of x] up(2) [of y] show ?thesis by linarith
  qed
qed

lemma pow2_pos [simp]: "0 < pow2 k"
  by (simp add: pow2_def)

lemma rnd_zero [simp]: "rnd p 0 = 0"
  by (simp add: rnd_def)

lemma rnd_nonneg: "0 \<le> x \<Longrightarrow> 0 \<le> rnd p x"
proof -
  assume "0 \<le> x"
  have "0 \<le> half_even (x / pow2 e)" for e
    using half_even_mono [of 0 "x / pow2 e"] half_even_of_int [of 0] \<open>0 \<le> x\<close> pow2_pos [of e]
    by (simp add: less_imp_le)
  then show ?thesis by (simp add: rnd_def Let_def pow2_pos less_imp_le)
qed

lemma fmul_commute: "fmul x y = fmul y x"
  by (simp add: fmul_def mult.commute)

lemma isqrt_from_sound:
  "r * r \<le> n \<Longrightarrow> n < (r + 2 ^ k) * (r + 2 ^ k) \<Longrightarrow> isqrt_from k n r = y \<Longrightarrow> y * y \<le> n \<and> n < (y + 1) * (y + 1)"
proof (induction k arbitrary: r)
  case (Suc k)
  show ?case
  proof (cases "(r + 2 ^ k) * (r + 2 ^ k) \<le> n")
    case True
    have eq: "r + 2 ^ k + 2 ^ k = r + 2 ^ Suc k" by simp
    have "n < (r + 2 ^ k + 2 ^ k) * (r + 2 ^ k + 2 ^ k)" using Suc.prems(2) unfolding eq .
    with True Suc.IH [of "r + 2 ^ k"] Suc.prems(3) show ?thesis by (simp add: Let_def)
  next
    case False
    then show ?thesis using Suc.IH [of r] Suc.prems by (simp add: Let_def)
  qed
qed simp

lemma bitlen_bound: "n < 2 ^ bitlen n"
proof (induction n rule: bitlen.induct)
  case (1 n)
  show ?case
  proof (cases "n \<le> 0")
    case False
    with 1 have "n div 2 < 2 ^ bitlen (n div 2)" by simp
    then have "n < 2 * 2 ^ bitlen (n div 2)" by linarith
    with False show ?thesis by (simp add: bitlen.simps [of n])
  qed (simp add: bitlen.simps [of n])
qed

text \<open>The integer square root is the floor of the root.\<close>

lemma isqrt_sound:
  assumes "0 \<le> n"
  shows "isqrt n * isqrt n \<le> n \<and> n < (isqrt n + 1) * (isqrt n + 1)"
proof -
  have "n < 2 ^ bitlen n" by (rule bitlen_bound)
  also have "(2 :: int) ^ bitlen n \<le> 2 ^ bitlen n * 2 ^ bitlen n" by simp
  finally have "n < (0 + 2 ^ bitlen n) * (0 + 2 ^ bitlen n)" by simp
  with assms isqrt_from_sound [of 0 n "bitlen n" "isqrt n"] show ?thesis by (simp add: isqrt_def)
qed

end
