(* ===== verification/Semdiff.thy ===== *)
theory Semdiff
  imports LineDiff Float64 GoStrings
begin

text \<open>
  \<^verbatim>\<open>internal/semdiff/semdiff.go\<close>: the semantic propagation diff. An embedder is the answer it
  gives to each call, depending on every call before (an endpoint need not be deterministic and
  may fail); a run of the diff threads the vectors it has cached and the calls it has made. The
  window loop has no bound of its own in the code and is modelled with non-termination as
  \<open>None\<close>; that it returns is a theorem.
\<close>

type_synonym vec = "f32 list"

text \<open>\<open>IndexPanic\<close> is the run-time panic of \<open>vs[0]\<close> on an empty answer.\<close>

datatype diff_err =
    EmbedErr string
  | IndexPanic

text \<open>\<open>Embed calls texts\<close> answers the call with \<open>texts\<close> after the \<open>calls\<close> made before;
  \<open>PersistFrac\<close> is \<open>Some\<close> for an embedder that implements \<open>Calibrated\<close>.\<close>

record embedder =
  Embed :: "string list list \<Rightarrow> string list \<Rightarrow> string + vec list"
  PersistFrac :: "f64 option"

record dstate =
  vecs :: "(string \<times> vec) list"
  asked :: "string list list"

subsection \<open>Tunables\<close>

definition flattenEps :: f64 where "flattenEps = rnd64 (2 / 100)"
definition localThresh :: f64 where "localThresh = rnd64 (15 / 100)"
definition structMinDelta :: f64 where "structMinDelta = rnd64 (15 / 100)"
definition persistFrac :: f64 where "persistFrac = rnd64 (60 / 100)"

definition persistFracFor :: "embedder \<Rightarrow> f64" where
  "persistFracFor emb = (case PersistFrac emb of Some f \<Rightarrow> f | None \<Rightarrow> persistFrac)"

subsection \<open>The distance of two texts\<close>

text \<open>The three sums of the loop of \<open>cosine\<close>.\<close>

fun cos_sums :: "vec \<Rightarrow> vec \<Rightarrow> f64 \<times> f64 \<times> f64 \<Rightarrow> f64 \<times> f64 \<times> f64" where
  "cos_sums (x # xs) (y # ys) (dot, na, nb) =
     cos_sums xs ys (fadd dot (fmul x y), fadd na (fmul x x), fadd nb (fmul y y))"
| "cos_sums _ _ acc = acc"

definition cosine :: "vec \<Rightarrow> vec \<Rightarrow> f64" where
  "cosine a b =
     (if length a \<noteq> length b then 0
      else let (dot, na, nb) = cos_sums a b (0, 0, 0)
           in if na = 0 \<or> nb = 0 then 0 else fdiv dot (fmul (fsqrt na) (fsqrt nb)))"

definition embedOne :: "embedder \<Rightarrow> string \<Rightarrow> dstate \<Rightarrow> (diff_err + vec) \<times> dstate" where
  "embedOne emb t st =
     (case map_of (vecs st) t of
        Some v \<Rightarrow> (Inr v, st)
      | None \<Rightarrow>
          let st' = st\<lparr>asked := asked st @ [[t]]\<rparr>
          in case Embed emb (asked st) [t] of
               Inl e \<Rightarrow> (Inl (EmbedErr e), st')
             | Inr [] \<Rightarrow> (Inl IndexPanic, st')
             | Inr (v # vs) \<Rightarrow> (Inr v, st'\<lparr>vecs := (t, v) # vecs st\<rparr>))"

definition deltaText :: "embedder \<Rightarrow> string \<Rightarrow> string \<Rightarrow> dstate \<Rightarrow> (diff_err + f64) \<times> dstate" where
  "deltaText emb a b st =
     (if a = b then (Inr 0, st)
      else case embedOne emb a st of
        (Inl e, st1) \<Rightarrow> (Inl e, st1)
      | (Inr va, st1) \<Rightarrow>
          (case embedOne emb b st1 of
             (Inl e, st2) \<Rightarrow> (Inl e, st2)
           | (Inr vb, st2) \<Rightarrow> (Inr (max 0 (min 1 (fsub 1 (cosine va vb)))), st2)))"

subsection \<open>Windows\<close>

record window =
  Radius :: nat
  Delta :: f64

record direction =
  Curve :: "window list"
  StoppedAtBoundary :: bool

text \<open>A window is a function of the radius: the two texts and whether it reached both edges.\<close>

partial_function (option) expand_loop ::
    "embedder \<Rightarrow> (nat \<Rightarrow> string \<times> string \<times> bool) \<Rightarrow> f64 \<Rightarrow> nat \<Rightarrow> window list \<Rightarrow> dstate
      \<Rightarrow> ((diff_err + direction) \<times> dstate) option" where
  "expand_loop emb w prev r curve st =
     (case w r of (oldT, newT, atBoundary) \<Rightarrow>
        (case deltaText emb oldT newT st of
           (Inl e, st') \<Rightarrow> Some (Inl e, st')
         | (Inr delta, st') \<Rightarrow>
             let curve' = curve @ [\<lparr>Radius = r, Delta = delta\<rparr>]
             in if abs (fsub delta prev) < flattenEps
                then Some (Inr \<lparr>Curve = curve', StoppedAtBoundary = False\<rparr>, st')
                else if atBoundary then Some (Inr \<lparr>Curve = curve', StoppedAtBoundary = True\<rparr>, st')
                else expand_loop emb w delta (r + 2) curve' st'))"

declare expand_loop.simps [code]

definition expand :: "f64 \<Rightarrow> (nat \<Rightarrow> string \<times> string \<times> bool) \<Rightarrow> embedder \<Rightarrow> dstate
    \<Rightarrow> ((diff_err + direction) \<times> dstate) option" where
  "expand s2 w emb st = expand_loop emb w s2 2 [] st"

definition newline :: string where "newline = [CHR 0x0A]"

definition join :: "string list \<Rightarrow> string" where
  "join lines = Join lines newline"

definition sub_lines :: "'a list \<Rightarrow> nat \<Rightarrow> nat \<Rightarrow> 'a list" where
  "sub_lines xs i j = take (j - i) (drop i xs)"

text \<open>The two windows of a hunk: grown upwards (natural subtraction is the \<open>max(0, \<dots>)\<close>), and
  downwards.\<close>

definition up_window :: "string list \<Rightarrow> string list \<Rightarrow> change \<Rightarrow> nat \<Rightarrow> string \<times> string \<times> bool" where
  "up_window old new ch r =
     (let oS = OldStart ch - r; nS = NewStart ch - r
      in (join (sub_lines old oS (OldEnd ch)), join (sub_lines new nS (NewEnd ch)), oS = 0 \<and> nS = 0))"

definition down_window :: "string list \<Rightarrow> string list \<Rightarrow> change \<Rightarrow> nat \<Rightarrow> string \<times> string \<times> bool" where
  "down_window old new ch r =
     (let oE = min (length old) (OldEnd ch + r); nE = min (length new) (NewEnd ch + r)
      in (join (sub_lines old (OldStart ch) oE), join (sub_lines new (NewStart ch) nE),
          oE = length old \<and> nE = length new))"

subsection \<open>Classification\<close>

definition persists :: "f64 \<Rightarrow> f64 \<Rightarrow> direction \<Rightarrow> bool" where
  "persists s2 pf d =
     (if \<not> StoppedAtBoundary d \<or> Curve d = [] then False
      else let last = Delta (last (Curve d)) in structMinDelta \<le> last \<and> fmul s2 pf \<le> last)"

definition classify :: "f64 \<Rightarrow> direction \<Rightarrow> direction \<Rightarrow> f64 \<Rightarrow> string" where
  "classify s2 up down pf =
     (if persists s2 pf up \<or> persists s2 pf down then ''structural''
      else if localThresh \<le> s2 then ''localized tweak'' else ''minor edit'')"

record result =
  Hunk :: change
  Signal2 :: f64
  Up :: direction
  Down :: direction
  Class :: string

definition analyzeChange :: "embedder \<Rightarrow> string list \<Rightarrow> string list \<Rightarrow> change \<Rightarrow> f64 \<Rightarrow> dstate
    \<Rightarrow> ((diff_err + result) \<times> dstate) option" where
  "analyzeChange emb old new ch pf st =
     (case deltaText emb (join (sub_lines old (OldStart ch) (OldEnd ch)))
             (join (sub_lines new (NewStart ch) (NewEnd ch))) st of
        (Inl e, st1) \<Rightarrow> Some (Inl e, st1)
      | (Inr s2, st1) \<Rightarrow>
          (case expand s2 (up_window old new ch) emb st1 of
             None \<Rightarrow> None
           | Some (Inl e, st2) \<Rightarrow> Some (Inl e, st2)
           | Some (Inr up, st2) \<Rightarrow>
               (case expand s2 (down_window old new ch) emb st2 of
                  None \<Rightarrow> None
                | Some (Inl e, st3) \<Rightarrow> Some (Inl e, st3)
                | Some (Inr down, st3) \<Rightarrow>
                    Some (Inr \<lparr>Hunk = ch, Signal2 = s2, Up = up, Down = down,
                               Class = classify s2 up down pf\<rparr>, st3))))"

text \<open>The loop of \<open>Analyze\<close> over the hunks.\<close>

fun analyze_all :: "embedder \<Rightarrow> string list \<Rightarrow> string list \<Rightarrow> f64 \<Rightarrow> change list \<Rightarrow> dstate
    \<Rightarrow> ((diff_err + result list) \<times> dstate) option" where
  "analyze_all emb old new pf [] st = Some (Inr [], st)"
| "analyze_all emb old new pf (ch # chs) st =
     (case analyzeChange emb old new ch pf st of
        None \<Rightarrow> None
      | Some (Inl e, st1) \<Rightarrow> Some (Inl e, st1)
      | Some (Inr r, st1) \<Rightarrow>
          (case analyze_all emb old new pf chs st1 of
             None \<Rightarrow> None
           | Some (Inl e, st2) \<Rightarrow> Some (Inl e, st2)
           | Some (Inr rs, st2) \<Rightarrow> Some (Inr (r # rs), st2)))"

text \<open>\<open>Analyze\<close>, with the calls made to the embedder so far; the vector cache starts empty.\<close>

definition Analyze :: "embedder \<Rightarrow> string list list \<Rightarrow> string list \<Rightarrow> string list
    \<Rightarrow> ((diff_err + result list) \<times> dstate) option" where
  "Analyze emb calls old new =
     analyze_all emb old new (persistFracFor emb) (changes old new) \<lparr>vecs = [], asked = calls\<rparr>"

text \<open>\<open>Worst\<close>: the rank of a class that is not in Go's map is 0.\<close>

definition rank :: "string \<Rightarrow> nat" where
  "rank c = (if c = ''minor edit'' then 1 else if c = ''localized tweak'' then 2
     else if c = ''structural'' then 3 else 0)"

definition Worst :: "result list \<Rightarrow> string" where
  "Worst results =
     foldl (\<lambda>worst r. if rank (Class r) > rank worst then Class r else worst) [] results"

text \<open>\<open>Kind\<close> labels a hunk.\<close>

definition Kind :: "change \<Rightarrow> string" where
  "Kind c = (if OldStart c = OldEnd c then ''insert''
     else if NewStart c = NewEnd c then ''delete'' else ''replace'')"

subsection \<open>The distance is between 0 and 1\<close>

lemma deltaText_range: "deltaText emb a b st = (Inr x, st') \<Longrightarrow> 0 \<le> x \<and> x \<le> 1"
  by (auto simp: deltaText_def split: if_splits prod.splits sum.splits)

lemma cos_sums_swap: "cos_sums ys xs (dot, nb, na) =
    (case cos_sums xs ys (dot, na, nb) of (d, a, b) \<Rightarrow> (d, b, a))"
proof (induction xs ys "(dot, na, nb)" arbitrary: dot na nb rule: cos_sums.induct)
  case (1 x xs y ys dot na nb)
  have swap: "fmul y x = fmul x y" by (rule fmul_commute)
  show ?case using 1 by (simp add: swap)
qed auto

lemma cosine_commute: "cosine a b = cosine b a"
proof -
  have "cos_sums b a (0, 0, 0) = (case cos_sums a b (0, 0, 0) of (d, x, y) \<Rightarrow> (d, y, x))"
    by (rule cos_sums_swap)
  then show ?thesis
    by (cases "cos_sums a b (0, 0, 0)") (auto simp: cosine_def fmul_commute)
qed

subsection \<open>The window loop\<close>

text \<open>What a finished curve looks like: radii 2, 4, \<open>\<dots>\<close>; it ends flat at the first window that
  moves less than \<open>flattenEps\<close>, or else at the first that reaches both edges.\<close>

fun settled :: "(nat \<Rightarrow> string \<times> string \<times> bool) \<Rightarrow> f64 \<Rightarrow> nat \<Rightarrow> window list \<Rightarrow> bool \<Rightarrow> bool" where
  "settled w prev r [] b \<longleftrightarrow> False"
| "settled w prev r (x # xs) b \<longleftrightarrow> Radius x = r \<and> 0 \<le> Delta x \<and> Delta x \<le> 1 \<and>
     (if abs (fsub (Delta x) prev) < flattenEps then xs = [] \<and> \<not> b
      else if snd (snd (w r)) then xs = [] \<and> b
      else settled w (Delta x) (r + 2) xs b)"

lemma expand_loop_settled:
  assumes "expand_loop emb w prev r curve st = Some (Inr d, st')"
  shows "\<exists>ws. Curve d = curve @ ws \<and> settled w prev r ws (StoppedAtBoundary d)"
proof -
  have "\<forall>d st'. y = (Inr d, st') \<longrightarrow> (\<exists>ws. Curve d = curve @ ws \<and> settled w prev r ws (StoppedAtBoundary d))"
    if "expand_loop emb w prev r curve st = Some y" for y
    using that
  proof (induction rule: expand_loop.raw_induct [rotated, consumes 1])
    case (1 f emb w prev r curve st y)
    obtain oldT newT b where w: "w r = (oldT, newT, b)" by (cases "w r") auto
    obtain x st1 where dt: "deltaText emb oldT newT st = (x, st1)" by fastforce
    show ?case
    proof (cases x)
      case (Inl e)
      with 1(2) w dt show ?thesis by auto
    next
      case (Inr delta)
      with dt have range: "0 \<le> delta \<and> delta \<le> 1" using deltaText_range by blast
      let ?x = "\<lparr>Radius = r, Delta = delta\<rparr>"
      show ?thesis
      proof (cases "abs (fsub delta prev) < flattenEps \<or> b")
        case True
        with 1(2) w dt Inr range show ?thesis by (auto simp: Let_def split: if_splits)
      next
        case False
        with 1(2) w dt Inr have "f emb w delta (r + 2) (curve @ [?x]) st1 = Some y" by (simp add: Let_def)
        from 1(1) [OF this] show ?thesis
        proof (intro allI impI)
          fix d st'
          assume "y = (Inr d, st')"
          with 1(1) [OF \<open>f emb w delta (r + 2) (curve @ [?x]) st1 = Some y\<close>]
          obtain ws where "Curve d = (curve @ [?x]) @ ws" "settled w delta (r + 2) ws (StoppedAtBoundary d)"
            by blast
          with False w range show "\<exists>ws. Curve d = curve @ ws \<and> settled w prev r ws (StoppedAtBoundary d)"
            by (intro exI [of _ "?x # ws"]) simp
        qed
      qed
    qed
  qed
  with assms show ?thesis by blast
qed

lemma expand_loop_returns:
  assumes "\<And>r. B \<le> r \<Longrightarrow> snd (snd (w r))"
  shows "\<exists>y. expand_loop emb w prev r curve st = Some y"
proof (induction "B - r" arbitrary: prev r curve st rule: less_induct)
  case less
  obtain oldT newT b where w: "w r = (oldT, newT, b)" by (cases "w r") auto
  obtain x st1 where dt: "deltaText emb oldT newT st = (x, st1)" by fastforce
  show ?case
  proof (cases "b \<or> (\<exists>e. x = Inl e)")
    case True
    with w dt show ?thesis
      by (cases x) (auto simp: expand_loop.simps [of emb w prev r] Let_def)
  next
    case False
    then obtain delta where x: "x = Inr delta" by (cases x) auto
    have "r < B" using assms [of r] False w by (cases "B \<le> r") auto
    then have "\<exists>y. expand_loop emb w delta (r + 2) c st1 = Some y" for c by (intro less) simp
    with w dt x False show ?thesis
      by (simp add: expand_loop.simps [of emb w prev r] Let_def)
  qed
qed

lemma up_window_edge: "max (OldStart ch) (NewStart ch) \<le> r \<Longrightarrow> snd (snd (up_window old new ch r))"
  by (simp add: up_window_def Let_def)

lemma down_window_edge:
  "OldEnd ch \<le> length old \<Longrightarrow> NewEnd ch \<le> length new \<Longrightarrow>
     max (length old - OldEnd ch) (length new - NewEnd ch) \<le> r \<Longrightarrow> snd (snd (down_window old new ch r))"
  by (auto simp: down_window_def Let_def)

lemma expand_up_returns: "\<exists>y. expand s2 (up_window old new ch) emb st = Some y"
  unfolding expand_def by (rule expand_loop_returns) (rule up_window_edge)

lemma expand_down_returns: "\<exists>y. expand s2 (down_window old new ch) emb st = Some y"
  unfolding expand_def
proof (rule expand_loop_returns)
  show "max (length old) (length new) \<le> r \<Longrightarrow> snd (snd (down_window old new ch r))" for r
    by (auto simp: down_window_def Let_def)
qed

lemma analyzeChange_returns: "\<exists>y. analyzeChange emb old new ch pf st = Some y"
proof -
  have "analyzeChange emb old new ch pf st \<noteq> None"
    using expand_up_returns expand_down_returns
    by (auto simp: analyzeChange_def split: prod.split sum.split option.split)
      (metis option.distinct(1))+
  then show ?thesis by blast
qed

lemma analyze_all_returns: "\<exists>y. analyze_all emb old new pf chs st = Some y"
proof (induction chs arbitrary: st)
  case (Cons ch chs)
  obtain x st1 where "analyzeChange emb old new ch pf st = Some (x, st1)"
    using analyzeChange_returns [of emb old new ch pf st] by auto
  with Cons [of st1] show ?case by (cases x) (auto split: sum.splits)
qed simp

subsection \<open>What a result says\<close>

definition result_ok :: "string list \<Rightarrow> string list \<Rightarrow> f64 \<Rightarrow> result \<Rightarrow> bool" where
  "result_ok old new pf r \<longleftrightarrow> 0 \<le> Signal2 r \<and> Signal2 r \<le> 1
     \<and> settled (up_window old new (Hunk r)) (Signal2 r) 2 (Curve (Up r)) (StoppedAtBoundary (Up r))
     \<and> settled (down_window old new (Hunk r)) (Signal2 r) 2 (Curve (Down r)) (StoppedAtBoundary (Down r))
     \<and> Class r = classify (Signal2 r) (Up r) (Down r) pf"

lemma analyzeChange_ok:
  assumes "analyzeChange emb old new ch pf st = Some (Inr r, st')"
  shows "Hunk r = ch \<and> result_ok old new pf r"
proof -
  from assms obtain s2 st1 up st2 down where
    s2: "deltaText emb (join (sub_lines old (OldStart ch) (OldEnd ch))) (join (sub_lines new (NewStart ch) (NewEnd ch))) st
      = (Inr s2, st1)"
    and up: "expand s2 (up_window old new ch) emb st1 = Some (Inr up, st2)"
    and down: "expand s2 (down_window old new ch) emb st2 = Some (Inr down, st')"
    and r: "r = \<lparr>Hunk = ch, Signal2 = s2, Up = up, Down = down, Class = classify s2 up down pf\<rparr>"
    by (auto simp: analyzeChange_def split: prod.splits sum.splits option.splits)
  from up down have "settled (up_window old new ch) s2 2 (Curve up) (StoppedAtBoundary up)"
    "settled (down_window old new ch) s2 2 (Curve down) (StoppedAtBoundary down)"
    using expand_loop_settled by (fastforce simp: expand_def)+
  with r deltaText_range [OF s2] show ?thesis by (simp add: result_ok_def)
qed

lemma analyze_all_ok:
  "analyze_all emb old new pf chs st = Some (Inr rs, st') \<Longrightarrow>
     map Hunk rs = chs \<and> (\<forall>r \<in> set rs. result_ok old new pf r)"
proof (induction chs arbitrary: st rs)
  case (Cons ch chs)
  then show ?case
    by (fastforce dest: analyzeChange_ok split: option.splits prod.splits sum.splits)
qed simp

text \<open>Every delta of a curve is the distance of the two texts its window shows.\<close>

definition measured :: "embedder \<Rightarrow> (nat \<Rightarrow> string \<times> string \<times> bool) \<Rightarrow> window \<Rightarrow> bool" where
  "measured emb w x \<longleftrightarrow> (\<exists>st st'.
     deltaText emb (fst (w (Radius x))) (fst (snd (w (Radius x)))) st = (Inr (Delta x), st'))"

lemma expand_loop_measured:
  assumes "expand_loop emb w prev r curve st = Some (Inr d, st')"
    and "\<forall>x \<in> set curve. measured emb w x"
  shows "\<forall>x \<in> set (Curve d). measured emb w x"
proof -
  have "\<forall>d st'. y = (Inr d, st') \<longrightarrow> (\<forall>x \<in> set curve. measured emb w x) \<longrightarrow> (\<forall>x \<in> set (Curve d). measured emb w x)"
    if "expand_loop emb w prev r curve st = Some y" for y
    using that
  proof (induction rule: expand_loop.raw_induct [rotated, consumes 1])
    case (1 f emb w prev r curve st y)
    obtain oldT newT b where w: "w r = (oldT, newT, b)" by (cases "w r") auto
    obtain x st1 where dt: "deltaText emb oldT newT st = (x, st1)" by fastforce
    show ?case
    proof (cases x)
      case (Inl e)
      with 1(2) w dt show ?thesis by auto
    next
      case (Inr delta)
      let ?x = "\<lparr>Radius = r, Delta = delta\<rparr>"
      have m: "measured emb w ?x" using w dt Inr by (auto simp: measured_def)
      show ?thesis
      proof (cases "abs (fsub delta prev) < flattenEps \<or> b")
        case True
        with 1(2) w dt Inr m show ?thesis by (auto simp: Let_def split: if_splits)
      next
        case False
        with 1(2) w dt Inr have "f emb w delta (r + 2) (curve @ [?x]) st1 = Some y" by (simp add: Let_def)
        from 1(1) [OF this] m show ?thesis by simp
      qed
    qed
  qed
  with assms show ?thesis by blast
qed

lemma analyzeChange_measured:
  assumes "analyzeChange emb old new ch pf st = Some (Inr r, st')"
  shows "(\<forall>x \<in> set (Curve (Up r)). measured emb (up_window old new (Hunk r)) x)
    \<and> (\<forall>x \<in> set (Curve (Down r)). measured emb (down_window old new (Hunk r)) x)"
  using assms
  by (auto simp: analyzeChange_def expand_def split: prod.splits sum.splits option.splits
      dest!: expand_loop_measured)

lemma analyze_all_measured:
  "analyze_all emb old new pf chs st = Some (Inr rs, st') \<Longrightarrow> r \<in> set rs \<Longrightarrow>
     (\<forall>x \<in> set (Curve (Up r)). measured emb (up_window old new (Hunk r)) x)
     \<and> (\<forall>x \<in> set (Curve (Down r)). measured emb (down_window old new (Hunk r)) x)"
proof (induction chs arbitrary: st rs)
  case (Cons ch chs)
  from Cons.prems(1) obtain q qs st1 where q: "rs = q # qs" "analyzeChange emb old new ch pf st = Some (Inr q, st1)"
    "analyze_all emb old new pf chs st1 = Some (Inr qs, st')"
    by (auto split: option.splits prod.splits sum.splits)
  with Cons.prems(2) analyzeChange_measured [OF q(2)] Cons.IH [OF q(3)] show ?case by auto
qed simp

subsection \<open>Calls to the embedder\<close>

text \<open>Behind the calls \<open>calls\<close> made before, one text per call, none twice; on success the cache
  holds the texts that were sent.\<close>

definition asks :: "string list list \<Rightarrow> dstate \<Rightarrow> bool \<Rightarrow> bool" where
  "asks calls st good \<longleftrightarrow> (\<exists>ts. asked st = calls @ map (\<lambda>t. [t]) ts \<and> distinct ts
     \<and> (good \<longrightarrow> set ts = fst ` set (vecs st)))"

abbreviation good :: "'e + 'a \<Rightarrow> bool" where "good x \<equiv> (\<exists>v. x = Inr v)"

lemma embedOne_asks:
  assumes "embedOne emb t st = (x, st')" and "asks calls st True"
  shows "asks calls st' (good x)"
proof (cases "map_of (vecs st) t")
  case (Some v)
  with assms show ?thesis by (auto simp: embedOne_def)
next
  case None
  from assms(2) obtain ts where ts: "asked st = calls @ map (\<lambda>t. [t]) ts" "distinct ts" "set ts = fst ` set (vecs st)"
    by (auto simp: asks_def)
  with None have "t \<notin> set ts" by (simp add: map_of_eq_None_iff)
  with ts have new: "distinct (ts @ [t])" "asked st @ [[t]] = calls @ map (\<lambda>t. [t]) (ts @ [t])" by simp_all
  show ?thesis
  proof (cases "Embed emb (asked st) [t]")
    case (Inl e)
    with None assms(1) have "x = Inl (EmbedErr e)" "asked st' = asked st @ [[t]]"
      by (auto simp: embedOne_def Let_def)
    with new show ?thesis unfolding asks_def by (metis Inl_Inr_False)
  next
    case (Inr vs)
    show ?thesis
    proof (cases vs)
      case Nil
      with None Inr assms(1) have "x = Inl IndexPanic" "asked st' = asked st @ [[t]]"
        by (auto simp: embedOne_def Let_def)
      with new show ?thesis unfolding asks_def by (metis Inl_Inr_False)
    next
      case (Cons v vs')
      with None Inr assms(1) have "st' = \<lparr>vecs = (t, v) # vecs st, asked = asked st @ [[t]]\<rparr>"
        by (cases st) (auto simp: embedOne_def Let_def)
      with new ts(3) show ?thesis unfolding asks_def by (intro exI [of _ "ts @ [t]"]) simp
    qed
  qed
qed

lemma deltaText_asks:
  "deltaText emb a b st = (x, st') \<Longrightarrow> asks calls st True \<Longrightarrow> asks calls st' (good x)"
  by (auto simp: deltaText_def split: if_splits prod.splits sum.splits dest!: embedOne_asks)

lemma expand_loop_asks:
  assumes "expand_loop emb w prev r curve st = Some (x, st')" and "asks calls st True"
  shows "asks calls st' (good x)"
proof -
  have "asks calls st True \<longrightarrow> asks calls (snd y) (good (fst y))"
    if "expand_loop emb w prev r curve st = Some y" for y
    using that
  proof (induction rule: expand_loop.raw_induct [rotated, consumes 1])
    case (1 f emb w prev r curve st y)
    obtain oldT newT b where w: "w r = (oldT, newT, b)" by (cases "w r") auto
    obtain x st1 where dt: "deltaText emb oldT newT st = (x, st1)" by fastforce
    show ?case
    proof
      assume "asks calls st True"
      with dt have a: "asks calls st1 (good x)" using deltaText_asks by blast
      show "asks calls (snd y) (good (fst y))"
      proof (cases x)
        case (Inl e)
        with 1(2) w dt a show ?thesis by auto
      next
        case (Inr delta)
        let ?x = "\<lparr>Radius = r, Delta = delta\<rparr>"
        show ?thesis
        proof (cases "abs (fsub delta prev) < flattenEps \<or> b")
          case True
          with 1(2) w dt Inr a show ?thesis by (auto simp: Let_def split: if_splits)
        next
          case False
          with 1(2) w dt Inr have "f emb w delta (r + 2) (curve @ [?x]) st1 = Some y" by (simp add: Let_def)
          from 1(1) [OF this] a Inr show ?thesis by simp
        qed
      qed
    qed
  qed
  from this [OF assms(1)] assms(2) show ?thesis by simp
qed

lemma analyzeChange_asks:
  assumes "analyzeChange emb old new ch pf st = Some (x, st')" and "asks calls st True"
  shows "asks calls st' (good x)"
  using assms
  by (auto simp: analyzeChange_def expand_def split: prod.splits sum.splits option.splits
      dest!: deltaText_asks expand_loop_asks)

lemma analyze_all_asks:
  "analyze_all emb old new pf chs st = Some (x, st') \<Longrightarrow> asks calls st True \<Longrightarrow> asks calls st' (good x)"
proof (induction chs arbitrary: st x st')
  case (Cons ch chs)
  obtain y st1 where y: "analyzeChange emb old new ch pf st = Some (y, st1)"
    using analyzeChange_returns [of emb old new ch pf st] by auto
  with Cons.prems(2) have a: "asks calls st1 (good y)" using analyzeChange_asks by blast
  show ?case
  proof (cases y)
    case (Inl e)
    with Cons.prems(1) y a show ?thesis by auto
  next
    case (Inr r)
    obtain z st2 where z: "analyze_all emb old new pf chs st1 = Some (z, st2)"
      using analyze_all_returns [of emb old new pf chs st1] by auto
    with Cons.IH a Inr have "asks calls st2 (good z)" by simp
    with Cons.prems(1) y z Inr show ?thesis by (cases z) auto
  qed
qed auto

subsection \<open>The verdict of a change\<close>

text \<open>The classes in the order of their rank; the empty string is the verdict of no change.\<close>

datatype verdict = NoVerdict | MinorEdit | LocalizedTweak | Structural

fun verdict_text :: "verdict \<Rightarrow> string" where
  "verdict_text NoVerdict = []"
| "verdict_text MinorEdit = ''minor edit''"
| "verdict_text LocalizedTweak = ''localized tweak''"
| "verdict_text Structural = ''structural''"

instantiation verdict :: linorder
begin

definition less_eq_verdict :: "verdict \<Rightarrow> verdict \<Rightarrow> bool" where
  "less_eq_verdict a b \<longleftrightarrow> rank (verdict_text a) \<le> rank (verdict_text b)"

definition less_verdict :: "verdict \<Rightarrow> verdict \<Rightarrow> bool" where
  "less_verdict a b \<longleftrightarrow> rank (verdict_text a) < rank (verdict_text b)"

instance
proof
  fix a b :: verdict
  show "a \<le> b \<Longrightarrow> b \<le> a \<Longrightarrow> a = b"
    by (cases a; cases b) (simp_all add: less_eq_verdict_def rank_def)
qed (auto simp: less_eq_verdict_def less_verdict_def)

end

lemma classify_cases:
  obtains v where "classify s2 up down pf = verdict_text v" "v \<noteq> NoVerdict"
  by (metis classify_def verdict.distinct(1,3,5) verdict_text.simps(2-4))

lemma Worst_fold:
  "\<forall>r \<in> set rs. \<exists>v. Class r = verdict_text v \<Longrightarrow>
     \<exists>v. foldl (\<lambda>worst r. if rank (Class r) > rank worst then Class r else worst) (verdict_text u) rs = verdict_text v
       \<and> u \<le> v \<and> (\<forall>r \<in> set rs. \<forall>x. Class r = verdict_text x \<longrightarrow> x \<le> v)
       \<and> (v = u \<or> (\<exists>r \<in> set rs. Class r = verdict_text v))"
proof (induction rs arbitrary: u)
  case (Cons r rs)
  then obtain x where x: "Class r = verdict_text x" by auto
  define y where "y = (if u < x then x else u)"
  have "verdict_text y = (if rank (Class r) > rank (verdict_text u) then Class r else verdict_text u)"
    by (simp add: y_def x less_verdict_def)
  with Cons.IH [of y] Cons.prems obtain v where v:
    "foldl (\<lambda>worst r. if rank (Class r) > rank worst then Class r else worst) (verdict_text u) (r # rs) = verdict_text v"
    "y \<le> v" "\<forall>r \<in> set rs. \<forall>x. Class r = verdict_text x \<longrightarrow> x \<le> v"
    "v = y \<or> (\<exists>r \<in> set rs. Class r = verdict_text v)"
    by auto
  have "u \<le> y" "x \<le> y" by (auto simp: y_def)
  moreover have "z = x" if "verdict_text z = verdict_text x" for z
    using that by (cases z; cases x) simp_all
  ultimately show ?case
    using v x by (intro exI [of _ v]) (auto simp: y_def intro: order_trans split: if_splits)
qed auto

subsection \<open>A concrete diff\<close>

text \<open>An embedder with one component per byte of the text, and its diff of a rewritten line between
  equal ones: vectors of different lengths are as far apart as can be.\<close>

definition letters :: embedder where
  "letters = \<lparr>Embed = \<lambda>calls ts. Inr (map (\<lambda>t. map (\<lambda>_. 1) t) ts), PersistFrac = None\<rparr>"

definition steady :: direction where
  "steady = \<lparr>Curve = [\<lparr>Radius = 2, Delta = 1\<rparr>], StoppedAtBoundary = False\<rparr>"

lemma letters_diff:
  "map_option (\<lambda>(x, st). (x, asked st)) (Analyze letters [] [''x'', ''aa'', ''z''] [''x'', ''b'', ''z'']) =
    Some (Inr [\<lparr>Hunk = Change 1 2 1 2, Signal2 = 1, Up = steady, Down = steady,
      Class = ''localized tweak''\<rparr>],
      [[''aa''], [''b''], [''x'' @ newline @ ''aa''], [''x'' @ newline @ ''b''],
       [''aa'' @ newline @ ''z''], [''b'' @ newline @ ''z'']])"
  by code_simp

lemma letters_diff_obtain:
  obtains st where "Analyze letters [] [''x'', ''aa'', ''z''] [''x'', ''b'', ''z''] =
    Some (Inr [\<lparr>Hunk = Change 1 2 1 2, Signal2 = 1, Up = steady, Down = steady,
      Class = ''localized tweak''\<rparr>], st)"
  using letters_diff by (auto simp: map_option_case split: option.splits)

subsection \<open>The promises of the semantic diff\<close>

lemma Analyze_ok:
  "Analyze emb calls old new = Some (Inr rs, st) \<Longrightarrow>
     map Hunk rs = changes old new \<and> (\<forall>r \<in> set rs. result_ok old new (persistFracFor emb) r)"
  unfolding Analyze_def by (rule analyze_all_ok)

lemma Analyze_returns: "\<exists>x st. Analyze emb calls old new = Some (x, st)"
  unfolding Analyze_def using analyze_all_returns by fastforce


lemma settled_nonempty: "settled w prev r ws b \<Longrightarrow> ws \<noteq> []"
  by (cases ws) auto

lemma settled_window:
  "settled w prev r ws b \<Longrightarrow> i < length ws \<Longrightarrow>
     Radius (ws ! i) = r + 2 * i \<and> 0 \<le> Delta (ws ! i) \<and> Delta (ws ! i) \<le> 1"
proof (induction ws arbitrary: prev r i)
  case (Cons x ws)
  then show ?case by (cases i) (auto split: if_splits)
qed simp

lemma settled_moves:
  "settled w prev r ws b \<Longrightarrow> i < length ws \<Longrightarrow> i + 1 < length ws \<or> b \<Longrightarrow>
     flattenEps \<le> abs (fsub (Delta (ws ! i)) ((prev # map Delta ws) ! i))"
proof (induction ws arbitrary: prev r i)
  case (Cons x ws)
  then show ?case by (cases i) (auto split: if_splits)
qed simp

lemma settled_inside: "settled w prev r ws b \<Longrightarrow> i + 1 < length ws \<Longrightarrow> \<not> snd (snd (w (r + 2 * i)))"
proof (induction ws arbitrary: prev r i)
  case (Cons x ws)
  then show ?case by (cases i) (fastforce split: if_splits)+
qed simp

lemma settled_flat:
  "settled w prev r ws False \<Longrightarrow> abs (fsub (Delta (last ws)) ((prev # map Delta ws) ! (length ws - 1))) < flattenEps"
proof (induction ws arbitrary: prev r)
  case (Cons x ws)
  then show ?case by (cases ws) (auto split: if_splits)
qed simp

lemma settled_edge: "settled w prev r ws True \<Longrightarrow> snd (snd (w (r + 2 * (length ws - 1))))"
proof (induction ws arbitrary: prev r)
  case (Cons x ws)
  then show ?case by (cases ws) (auto split: if_splits)
qed simp

lemma up_edge: "snd (snd (up_window old new ch k)) \<longleftrightarrow> OldStart ch \<le> k \<and> NewStart ch \<le> k"
  by (auto simp: up_window_def Let_def)

lemma down_edge:
  "snd (snd (down_window old new ch k)) \<longleftrightarrow> length old \<le> OldEnd ch + k \<and> length new \<le> NewEnd ch + k"
  by (auto simp: down_window_def Let_def)

text \<open>Both directions of a result at once: the window, and when it has reached both edges.\<close>

lemma result_direction:
  assumes "Analyze emb calls old new = Some (Inr rs, st)" and "r \<in> set rs"
    and "(d, w, edge) \<in>
      {(Up r, up_window old new (Hunk r), \<lambda>k. OldStart (Hunk r) \<le> k \<and> NewStart (Hunk r) \<le> k),
       (Down r, down_window old new (Hunk r),
          \<lambda>k. length old \<le> OldEnd (Hunk r) + k \<and> length new \<le> NewEnd (Hunk r) + k)}"
  shows "settled w (Signal2 r) 2 (Curve d) (StoppedAtBoundary d)" "snd (snd (w k)) = edge k"
    "x \<in> set (Curve d) \<Longrightarrow> measured emb w x"
  using Analyze_ok [OF assms(1)] analyze_all_measured [OF assms(1) [unfolded Analyze_def] assms(2)] assms(2,3)
  by (auto simp: result_ok_def up_edge down_edge)



text \<open>A text is sent to the embedder at most once per diff, alone in its call, however many windows
  show it.\<close>

theorem each_text_embedded_once:
  assumes "Analyze emb calls old new = Some (x, st)"
  shows "\<exists>ts. asked st = calls @ map (\<lambda>t. [t]) ts \<and> distinct ts"
  using analyze_all_asks [OF assms [unfolded Analyze_def], of calls] by (auto simp: asks_def)

theorem each_text_embedded_once_witness:
  "\<exists>x st ts. Analyze letters [] [''x'', ''aa'', ''z''] [''x'', ''b'', ''z''] = Some (x, st)
    \<and> asked st = map (\<lambda>t. [t]) ts \<and> distinct ts"
proof -
  obtain x st where a: "Analyze letters [] [''x'', ''aa'', ''z''] [''x'', ''b'', ''z''] = Some (x, st)"
    using Analyze_returns by blast
  with each_text_embedded_once [OF a] show ?thesis by auto
qed

lemma changes_nonempty: "old \<noteq> new \<Longrightarrow> changes old new \<noteq> []"
  using changes_explains [of old new] by auto

lemma Worst_verdict:
  assumes "\<forall>r \<in> set rs. \<exists>v. Class r = verdict_text v \<and> v \<noteq> NoVerdict"
  shows "\<exists>vs. map Class rs = map verdict_text vs \<and> NoVerdict \<notin> set vs
    \<and> Worst rs = verdict_text (Max (insert NoVerdict (set vs)))"
proof -
  have "\<exists>vs. map Class rs = map verdict_text vs \<and> NoVerdict \<notin> set vs"
    using assms
  proof (induction rs)
    case (Cons r rs)
    then obtain vs v where "map Class rs = map verdict_text vs" "NoVerdict \<notin> set vs" "Class r = verdict_text v" "v \<noteq> NoVerdict"
      by auto
    then show ?case by (intro exI [of _ "v # vs"]) auto
  qed simp
  then obtain vs where vs: "map Class rs = map verdict_text vs" "NoVerdict \<notin> set vs" by blast
  from assms obtain v where v: "Worst rs = verdict_text v" "NoVerdict \<le> v"
    "\<forall>r \<in> set rs. \<forall>x. Class r = verdict_text x \<longrightarrow> x \<le> v" "v = NoVerdict \<or> (\<exists>r \<in> set rs. Class r = verdict_text v)"
    using Worst_fold [of rs NoVerdict] unfolding Worst_def verdict_text.simps by blast
  have inj: "a = b" if "verdict_text a = verdict_text b" for a b
    using that by (cases a; cases b) simp_all
  have im: "Class ` set rs = verdict_text ` set vs" using vs(1) by (metis set_map)
  have "Max (insert NoVerdict (set vs)) = v"
  proof (rule Max_eqI)
    fix y assume "y \<in> insert NoVerdict (set vs)"
    then show "y \<le> v"
    proof
      assume "y \<in> set vs"
      then have "verdict_text y \<in> Class ` set rs" by (simp add: im)
      then obtain r where "r \<in> set rs" "Class r = verdict_text y" by force
      with v(3) show "y \<le> v" by blast
    qed (use v(2) in simp)
  next
    show "v \<in> insert NoVerdict (set vs)"
    proof (cases "v = NoVerdict")
      case False
      with v(4) have "verdict_text v \<in> verdict_text ` set vs" using im by force
      then show ?thesis using inj by blast
    qed simp
  qed simp
  with vs v(1) show ?thesis by blast
qed

text \<open>The verdict of a change is the most significant class of its hunks, in the order minor edit,
  localized tweak, structural; it is empty exactly if the versions are equal, and structural exactly
  if one of the hunks is.\<close>

theorem worst_is_maximum:
  assumes "Analyze emb calls old new = Some (Inr rs, st)"
  shows "\<exists>vs. map Class rs = map verdict_text vs \<and> NoVerdict \<notin> set vs
    \<and> Worst rs = verdict_text (Max (insert NoVerdict (set vs))) \<and> (Worst rs = [] \<longleftrightarrow> old = new)
    \<and> (Worst rs = ''structural'' \<longleftrightarrow> ''structural'' \<in> set (map Class rs))"
proof -
  note ok = Analyze_ok [OF assms]
  have "\<forall>r \<in> set rs. \<exists>v. Class r = verdict_text v \<and> v \<noteq> NoVerdict"
    using ok classify_cases by (metis result_ok_def)
  then obtain vs where vs: "map Class rs = map verdict_text vs" "NoVerdict \<notin> set vs"
    "Worst rs = verdict_text (Max (insert NoVerdict (set vs)))"
    using Worst_verdict by blast
  let ?m = "Max (insert NoVerdict (set vs))"
  have inj: "a = b" if "verdict_text a = verdict_text b" for a b
    using that by (cases a; cases b) simp_all
  have m: "?m \<in> insert NoVerdict (set vs)" "\<forall>x \<in> insert NoVerdict (set vs). x \<le> ?m"
    by (rule Max_in; simp) (simp del: Max_insert)
  have "vs = [] \<longleftrightarrow> old = new"
    using ok vs(1) changes_nonempty [of old new] changes_same [of old] by (metis map_is_Nil_conv)
  moreover have "?m = NoVerdict \<longleftrightarrow> vs = []"
  proof
    assume e: "?m = NoVerdict"
    have "x = NoVerdict" if "x \<in> set vs" for x
      using m(2) that unfolding e by (cases x) (auto simp: less_eq_verdict_def rank_def)
    with vs(2) show "vs = []" by (cases vs) auto
  qed simp
  moreover have "Worst rs = [] \<longleftrightarrow> ?m = NoVerdict"
    unfolding vs(3) using inj [of ?m NoVerdict] by auto
  moreover have "?m = Structural \<longleftrightarrow> Structural \<in> set vs"
  proof
    assume "Structural \<in> set vs"
    with m(2) have "Structural \<le> ?m" by simp
    then show "?m = Structural"
      by (cases ?m) (auto simp del: Max_insert simp: less_eq_verdict_def rank_def)
  qed (use m(1) in auto)
  moreover have "Worst rs = ''structural'' \<longleftrightarrow> ?m = Structural"
    unfolding vs(3) using inj [of ?m Structural] by auto
  moreover have "''structural'' \<in> set (map Class rs) \<longleftrightarrow> Structural \<in> set vs"
    unfolding vs(1) using inj [of _ Structural] by force
  ultimately show ?thesis using vs by blast
qed

theorem worst_is_maximum_witness:
  "\<exists>rs st. Analyze letters [] [''x'', ''aa'', ''z''] [''x'', ''b'', ''z''] = Some (Inr rs, st)
    \<and> Worst rs \<noteq> [] \<and> Worst rs \<noteq> ''structural''"
proof -
  obtain st where a: "Analyze letters [] [''x'', ''aa'', ''z''] [''x'', ''b'', ''z''] =
    Some (Inr [\<lparr>Hunk = Change 1 2 1 2, Signal2 = 1, Up = steady, Down = steady,
      Class = ''localized tweak''\<rparr>], st)" by (rule letters_diff_obtain)
  from worst_is_maximum [OF a] a show ?thesis by auto
qed

lemma stopped_iff_moving:
  assumes s: "settled w prev r ws b"
  shows "b \<longleftrightarrow> (\<forall>i < length ws. flattenEps \<le> abs (fsub (Delta (ws ! i)) ((prev # map Delta ws) ! i)))
    \<and> snd (snd (w (r + 2 * (length ws - 1))))"
proof (cases b)
  case True
  with s settled_moves [OF s] settled_edge show ?thesis by auto
next
  case False
  with s have "settled w prev r ws False" by simp
  from settled_flat [OF this] settled_nonempty [OF s]
  have "\<not> flattenEps \<le> abs (fsub (Delta (ws ! (length ws - 1))) ((prev # map Delta ws) ! (length ws - 1)))"
    by (simp add: last_conv_nth)
  moreover have "length ws - 1 < length ws" using settled_nonempty [OF s] by simp
  ultimately show ?thesis using False by blast
qed

text \<open>C34: a hunk is structural exactly if in one direction the curve never settled: its last window,
  with two lines of context per step, reaches both edges (the first lines of both versions upwards,
  their ends downwards), every step up to it still moved, and its last delta is at least
  \<open>structMinDelta\<close> and the embedder's fraction of the point delta. Otherwise the point delta alone
  decides between localized tweak and minor edit.\<close>

theorem structural_means_unsettled_at_the_edge:
  assumes "Analyze emb calls old new = Some (Inr rs, st)" and "r \<in> set rs"
  shows "(Class r = ''structural'' \<longleftrightarrow> (\<exists>(d, edge) \<in>
        {(Up r, \<lambda>k. OldStart (Hunk r) \<le> k \<and> NewStart (Hunk r) \<le> k),
         (Down r, \<lambda>k. length old \<le> OldEnd (Hunk r) + k \<and> length new \<le> NewEnd (Hunk r) + k)}.
      edge (2 * length (Curve d))
      \<and> (\<forall>i < length (Curve d). flattenEps \<le>
         abs (fsub (Delta (Curve d ! i)) ((Signal2 r # map Delta (Curve d)) ! i)))
      \<and> structMinDelta \<le> Delta (last (Curve d))
      \<and> fmul (Signal2 r) (persistFracFor emb) \<le> Delta (last (Curve d))))
    \<and> (Class r \<noteq> ''structural'' \<longrightarrow>
        Class r = (if localThresh \<le> Signal2 r then ''localized tweak'' else ''minor edit''))"
proof -
  have r: "result_ok old new (persistFracFor emb) r" using Analyze_ok [OF assms(1)] assms(2) by blast
  have ne: "Curve (Up r) \<noteq> []" "Curve (Down r) \<noteq> []"
    using r settled_nonempty by (auto simp: result_ok_def)
  have last: "2 + 2 * (length (Curve d) - 1) = 2 * length (Curve d)" if "Curve d \<noteq> []" for d
    using that by (cases "Curve d") auto
  note up = stopped_iff_moving [of "up_window old new (Hunk r)" "Signal2 r" 2 "Curve (Up r)", unfolded up_edge last [OF ne(1)]]
    and down = stopped_iff_moving [of "down_window old new (Hunk r)" "Signal2 r" 2 "Curve (Down r)", unfolded down_edge last [OF ne(2)]]
  from r ne up down show ?thesis
    by (auto simp: result_ok_def classify_def persists_def Let_def)
qed

theorem structural_means_unsettled_at_the_edge_witness:
  "\<exists>rs st r. Analyze letters [] [''x'', ''aa'', ''z''] [''x'', ''b'', ''z''] = Some (Inr rs, st) \<and> r \<in> set rs
    \<and> Class r = (if localThresh \<le> Signal2 r then ''localized tweak'' else ''minor edit'')"
proof -
  obtain st where a: "Analyze letters [] [''x'', ''aa'', ''z''] [''x'', ''b'', ''z''] =
    Some (Inr [\<lparr>Hunk = Change 1 2 1 2, Signal2 = 1, Up = steady, Down = steady,
      Class = ''localized tweak''\<rparr>], st)" by (rule letters_diff_obtain)
  from structural_means_unsettled_at_the_edge [OF a list.set_intros(1)] a show ?thesis by auto
qed

text \<open>A meaning shift that stays at one high level up to both edges is not structural: a rewritten
  middle line whose delta is 1 in every window, with all windows covering both versions to the edge,
  is classified as a localized tweak.\<close>

theorem steady_high_curve_is_not_structural:
  "\<exists>st. Analyze letters [] [''x'', ''aa'', ''z''] [''x'', ''b'', ''z''] =
      Some (Inr [\<lparr>Hunk = Change 1 2 1 2, Signal2 = 1, Up = steady, Down = steady,
        Class = ''localized tweak''\<rparr>], st)
    \<and> snd (snd (up_window [''x'', ''aa'', ''z''] [''x'', ''b'', ''z''] (Change 1 2 1 2) 2))
    \<and> snd (snd (down_window [''x'', ''aa'', ''z''] [''x'', ''b'', ''z''] (Change 1 2 1 2) 2))"
proof -
  obtain st where "Analyze letters [] [''x'', ''aa'', ''z''] [''x'', ''b'', ''z''] =
    Some (Inr [\<lparr>Hunk = Change 1 2 1 2, Signal2 = 1, Up = steady, Down = steady,
      Class = ''localized tweak''\<rparr>], st)" by (rule letters_diff_obtain)
  then show ?thesis by (simp add: up_window_def down_window_def)
qed

text \<open>An endpoint that answers a call with no vector does not make the diff fail but panic: it is
  enough that the first call, for the old side of the first hunk, is answered so.\<close>

theorem empty_answer_panics:
  assumes "changes old new = ch # chs"
    and "join (sub_lines old (OldStart ch) (OldEnd ch)) \<noteq> join (sub_lines new (NewStart ch) (NewEnd ch))"
    and "Embed emb calls [join (sub_lines old (OldStart ch) (OldEnd ch))] = Inr []"
  shows "\<exists>st. Analyze emb calls old new = Some (Inl IndexPanic, st)"
  using assms by (simp add: Analyze_def analyzeChange_def deltaText_def embedOne_def Let_def)

theorem empty_answer_panics_witness:
  "\<exists>st. Analyze \<lparr>Embed = \<lambda>calls ts. Inr [], PersistFrac = None\<rparr> [] [''a''] [''b''] = Some (Inl IndexPanic, st)"
proof (rule empty_answer_panics)
  show "changes [''a''] [''b''] = [Change 0 1 0 0, Change 1 1 0 1]" by code_simp
qed (simp_all add: sub_lines_def join_def)

end
