(* ===== verification/Embedders.thy ===== *)
theory Embedders
  imports Semdiff Codec "HOL-Library.Word" "HOL-Library.Multiset"
begin

text \<open>
  The embedders of \<^verbatim>\<open>internal/semdiff/semdiff.go\<close>: the offline bag of words, with its FNV-1a
  hash on 32-bit words, and the HTTP client. Beyond ASCII, what is a letter or a digit and what
  the lower case of a rune is come from tables that are arguments; the answers of the endpoint
  are an argument too.
\<close>

unbundle bit_operations_syntax

subsection \<open>Words of a text\<close>

text \<open>Go's \<open>unicode\<close> tables above \<open>0x7F\<close>.\<close>

record unicode =
  uni_lower :: "int \<Rightarrow> int"
  uni_letter :: "int \<Rightarrow> bool"
  uni_digit :: "int \<Rightarrow> bool"

text \<open>Tables that leave every rune as it is, for the witnesses.\<close>

definition demo_unicode :: unicode where
  "demo_unicode = \<lparr>uni_lower = \<lambda>r. r, uni_letter = \<lambda>r. False, uni_digit = \<lambda>r. False\<rparr>"

definition ToLower_rune :: "unicode \<Rightarrow> int \<Rightarrow> int" where
  "ToLower_rune u r = (if r < 0x80 then (if 65 \<le> r \<and> r \<le> 90 then r + 32 else r) else uni_lower u r)"

definition IsLetter :: "unicode \<Rightarrow> int \<Rightarrow> bool" where
  "IsLetter u r = (if r < 0x80 then 65 \<le> r \<and> r \<le> 90 \<or> 97 \<le> r \<and> r \<le> 122 else uni_letter u r)"

definition IsDigit :: "unicode \<Rightarrow> int \<Rightarrow> bool" where
  "IsDigit u r = (if r < 0x80 then 48 \<le> r \<and> r \<le> 57 else uni_digit u r)"

text \<open>The runes of a string, \<open>None\<close> for a byte that starts no valid encoding.\<close>

function runes :: "string \<Rightarrow> int option list" where
  "runes [] = []"
| "runes (c # s) =
     (case decode_rune (c # s) of
        None \<Rightarrow> None # runes s
      | Some (r, n) \<Rightarrow> Some r # runes (drop n (c # s)))"
  by pat_completeness auto
termination
  by (relation "measure length") (auto dest: decode_rune_width)

text \<open>\<open>strings.FieldsFunc(strings.ToLower(t), \<dots>)\<close>: the maximal runs of lower-cased letters and
  digits. An invalid byte becomes \<open>U+FFFD\<close>, which is neither.\<close>

fun fields :: "unicode \<Rightarrow> int option list \<Rightarrow> string \<Rightarrow> string list" where
  "fields u [] w = (if w = [] then [] else [w])"
| "fields u (x # xs) w =
     (case x of
        Some r \<Rightarrow>
          let l = ToLower_rune u r in
          if IsLetter u l \<or> IsDigit u l then fields u xs (w @ encode_rune l)
          else (if w = [] then fields u xs [] else w # fields u xs [])
      | None \<Rightarrow> (if w = [] then fields u xs [] else w # fields u xs []))"

definition tokens :: "unicode \<Rightarrow> string \<Rightarrow> string list" where
  "tokens u t = fields u (runes t) []"

subsection \<open>The bag of words\<close>

text \<open>\<open>hash/fnv\<close>, \<open>New32a\<close>: xor the byte, multiply by the prime, modulo \<open>2^32\<close>.\<close>

definition fnv32a :: "string \<Rightarrow> 32 word" where
  "fnv32a tok = foldl (\<lambda>h c. (h XOR of_nat (of_char c)) * 16777619) 2166136261 tok"

text \<open>\<open>v[h.Sum32()%uint32(d)]++\<close> on \<open>float32\<close>.\<close>

definition bump :: "nat \<Rightarrow> string \<Rightarrow> vec \<Rightarrow> vec" where
  "bump d tok v = (let i = unat (fnv32a tok mod of_nat d) in v[i := rnd32 (v ! i + 1)])"

definition lex_vec :: "unicode \<Rightarrow> nat \<Rightarrow> string \<Rightarrow> vec" where
  "lex_vec u d t = fold (bump d) (tokens u t) (replicate d 0)"

text \<open>\<open>LexicalEmbedder{Dim}\<close>; a \<open>Dim\<close> of 0 stands for 256. It is \<open>Calibrated\<close>.\<close>

definition LexicalEmbedder :: "unicode \<Rightarrow> nat \<Rightarrow> embedder" where
  "LexicalEmbedder u Dim =
     (let d = if Dim = 0 then 256 else Dim
      in \<lparr>Embed = \<lambda>calls ts. Inr (map (lex_vec u d) ts), PersistFrac = Some (rnd64 (40 / 100))\<rparr>)"

subsection \<open>The endpoint\<close>

text \<open>What a POST meets: a bad URL, a transport error, or a response with its status code, status
  line and, if its body decodes, the vectors in it.\<close>

datatype http_answer =
    BadRequest string
  | TransportErr string
  | Response int string "vec list option"

record http_request =
  url :: string
  headers :: "(string \<times> string) list"
  req_model :: string
  input :: "string list"

definition HTTPEmbedder :: "(string list list \<Rightarrow> http_request \<Rightarrow> http_answer) \<Rightarrow> string \<Rightarrow> string
    \<Rightarrow> string \<Rightarrow> embedder" where
  "HTTPEmbedder post u model key =
     \<lparr>Embed = \<lambda>calls ts.
        (case post calls \<lparr>url = u,
             headers = (''Content-Type'', ''application/json'')
               # (if key \<noteq> [] then [(''Authorization'', ''Bearer '' @ key)] else []),
             req_model = model, input = ts\<rparr> of
           BadRequest e \<Rightarrow> Inl e
         | TransportErr e \<Rightarrow> Inl e
         | Response code line body \<Rightarrow>
             if code \<noteq> 200 then Inl (''embeddings endpoint: '' @ line)
             else of_option ''decode'' body),
      PersistFrac = None\<rparr>"

text \<open>\<open>buildEmbedder\<close>: lexical without a URL.\<close>

definition buildEmbedder :: "unicode \<Rightarrow> (string list list \<Rightarrow> http_request \<Rightarrow> http_answer)
    \<Rightarrow> string \<Rightarrow> string \<Rightarrow> string \<Rightarrow> embedder" where
  "buildEmbedder uni post u model key =
     (if u \<noteq> [] then HTTPEmbedder post u model key else LexicalEmbedder uni 0)"

subsection \<open>Facts\<close>

lemma length_bump [simp]: "length (bump d tok v) = length v"
  by (simp add: bump_def Let_def)

lemma length_fold_bump: "length (fold (bump d) toks v) = length v"
  by (induction toks arbitrary: v) simp_all

lemma length_lex_vec [simp]: "length (lex_vec u d t) = d"
  by (simp add: lex_vec_def length_fold_bump)

lemma bump_commute: "bump d a (bump d b v) = bump d b (bump d a v)"
proof -
  define i where "i = unat (fnv32a a mod of_nat d)"
  define j where "j = unat (fnv32a b mod of_nat d)"
  show ?thesis
  proof (cases "i = j")
    case True
    then show ?thesis by (cases "i < length v") (simp_all add: bump_def i_def j_def Let_def)
  next
    case False
    then show ?thesis
      by (simp add: bump_def i_def [symmetric] j_def [symmetric] Let_def list_update_swap)
  qed
qed

text \<open>Only which words occur, and how often, counts.\<close>

lemma lex_vec_bag:
  assumes "mset (tokens u s) = mset (tokens u t)"
  shows "lex_vec u d s = lex_vec u d t"
  unfolding lex_vec_def
  by (rule arg_cong [where f = "\<lambda>f. f (replicate d 0)"], rule fold_multiset_equiv)
    (use assms bump_commute in \<open>auto simp: fun_eq_iff\<close>)

text \<open>An embedder that answers every call with a vector per text, so that no diff can fail.\<close>

definition total_embedder :: "embedder \<Rightarrow> bool" where
  "total_embedder emb \<longleftrightarrow> (\<forall>calls t. \<exists>v vs. Embed emb calls [t] = Inr (v # vs))"

lemma lexical_total: "total_embedder (LexicalEmbedder u d)"
  by (simp add: total_embedder_def LexicalEmbedder_def Let_def)

lemma embedOne_total: "total_embedder emb \<Longrightarrow> good (fst (embedOne emb t st))"
proof -
  assume "total_embedder emb"
  then obtain v vs where "Embed emb (asked st) [t] = Inr (v # vs)"
    unfolding total_embedder_def by blast
  then show ?thesis by (cases "map_of (vecs st) t") (simp_all add: embedOne_def Let_def)
qed

lemma deltaText_total:
  assumes "total_embedder emb"
  shows "good (fst (deltaText emb a b st))"
proof (cases "a = b")
  case False
  obtain x st1 where x: "embedOne emb a st = (x, st1)" by fastforce
  obtain y st2 where y: "embedOne emb b st1 = (y, st2)" by fastforce
  from x y embedOne_total [OF assms, of a st] embedOne_total [OF assms, of b st1]
  obtain va vb where "x = Inr va" "y = Inr vb" by auto
  with x y False show ?thesis by (simp add: deltaText_def)
qed (simp add: deltaText_def)

lemma expand_loop_total:
  assumes "total_embedder emb" and "expand_loop emb w prev r curve st = Some y"
  shows "good (fst y)"
proof -
  have "total_embedder emb \<longrightarrow> good (fst y)"
    using assms(2)
  proof (induction rule: expand_loop.raw_induct [rotated, consumes 1])
    case (1 f emb w prev r curve st y)
    obtain oldT newT b where w: "w r = (oldT, newT, b)" by (cases "w r") auto
    obtain x st1 where dt: "deltaText emb oldT newT st = (x, st1)" by fastforce
    show ?case
    proof
      assume tot: "total_embedder emb"
      from deltaText_total [OF this, of oldT newT st] dt obtain delta where x: "x = Inr delta" by auto
      show "good (fst y)"
      proof (cases "abs (fsub delta prev) < flattenEps \<or> b")
        case True
        with 1(2) w dt x show ?thesis by (auto simp: Let_def split: if_splits)
      next
        case False
        with 1(2) w dt x have "f emb w delta (r + 2) (curve @ [\<lparr>Radius = r, Delta = delta\<rparr>]) st1 = Some y"
          by (simp add: Let_def)
        from 1(1) [OF this] tot show ?thesis by blast
      qed
    qed
  qed
  with assms(1) show ?thesis by blast
qed

lemma analyzeChange_total:
  assumes "total_embedder emb"
  obtains r st' where "analyzeChange emb old new ch pf st = Some (Inr r, st')"
proof -
  obtain s2 st1 where d: "deltaText emb (join (sub_lines old (OldStart ch) (OldEnd ch)))
      (join (sub_lines new (NewStart ch) (NewEnd ch))) st = (Inr s2, st1)"
    using deltaText_total [OF assms] by (metis fst_conv surj_pair)
  obtain up st2 where u: "expand s2 (up_window old new ch) emb st1 = Some (Inr up, st2)"
    using expand_up_returns [of s2 old new ch emb st1] expand_loop_total [OF assms]
    unfolding expand_def by (metis fst_conv surj_pair)
  obtain down st3 where "expand s2 (down_window old new ch) emb st2 = Some (Inr down, st3)"
    using expand_down_returns [of s2 old new ch emb st2] expand_loop_total [OF assms]
    unfolding expand_def by (metis fst_conv surj_pair)
  with d u that show thesis by (simp add: analyzeChange_def)
qed

lemma analyze_all_total:
  assumes "total_embedder emb"
  shows "\<exists>rs st'. analyze_all emb old new pf chs st = Some (Inr rs, st')"
proof (induction chs arbitrary: st)
  case (Cons ch chs)
  obtain r st1 where "analyzeChange emb old new ch pf st = Some (Inr r, st1)"
    using analyzeChange_total [OF assms] by blast
  moreover obtain rs st2 where "analyze_all emb old new pf chs st1 = Some (Inr rs, st2)"
    using Cons by blast
  ultimately show ?case by simp
qed simp

subsection \<open>The promises of the embedders\<close>

text \<open>The offline embedder never fails a diff: \<open>Analyze\<close> with it returns results for any two
  versions, as many as there are hunks.\<close>

theorem lexical_diff_never_fails:
  "\<exists>rs st. Analyze (LexicalEmbedder u d) calls old new = Some (Inr rs, st) \<and> length rs = length (changes old new)"
proof -
  obtain rs st where "Analyze (LexicalEmbedder u d) calls old new = Some (Inr rs, st)"
    using analyze_all_total [OF lexical_total] unfolding Analyze_def by blast
  with Analyze_ok [OF this] show ?thesis by (metis length_map)
qed

text \<open>The offline embedder sees a bag of words: texts with the same lower-cased words in any order,
  whatever separates them, have the same vector, of the dimension asked for.\<close>

theorem lexical_is_bag_of_words:
  assumes "mset (tokens u s) = mset (tokens u t)"
  shows "Embed (LexicalEmbedder u d) calls [s] = Embed (LexicalEmbedder u d) calls [t]
    \<and> (\<exists>v. Embed (LexicalEmbedder u d) calls [s] = Inr [v] \<and> length v = (if d = 0 then 256 else d))"
  using lex_vec_bag [OF assms] by (simp add: LexicalEmbedder_def Let_def)

theorem lexical_is_bag_of_words_witness:
  "Embed (LexicalEmbedder \<lparr>uni_lower = id, uni_letter = \<lambda>_. False, uni_digit = \<lambda>_. False\<rparr> 0) [] [''Be kind, be brief.'']
     = Embed (LexicalEmbedder \<lparr>uni_lower = id, uni_letter = \<lambda>_. False, uni_digit = \<lambda>_. False\<rparr> 0) [] [''brief: BE be/kind'']"
proof -
  have "tokens \<lparr>uni_lower = id, uni_letter = \<lambda>_. False, uni_digit = \<lambda>_. False\<rparr> ''Be kind, be brief.''
      = [''be'', ''kind'', ''be'', ''brief'']"
    and "tokens \<lparr>uni_lower = id, uni_letter = \<lambda>_. False, uni_digit = \<lambda>_. False\<rparr> ''brief: BE be/kind''
      = [''brief'', ''be'', ''be'', ''kind'']"
    by code_simp+
  then show ?thesis
    by (intro conjunct1 [OF lexical_is_bag_of_words]) simp
qed

end
