(* ===== verification/Cache.thy ===== *)
theory Cache
  imports Codec
begin

text \<open>
  The L2 cache: the interface of \<^verbatim>\<open>internal/server/cache.go\<close> with its in-process
  implementation, and \<^verbatim>\<open>internal/server/redis_cache.go\<close>. Go's interface is the record
  \<open>cache_ops\<close>; what the server relies on is the locale \<open>l2_cache\<close> (a hit was put under that URI)
  and \<open>coherent_cache\<close> (and not invalidated since) or \<open>expiring_cache\<close> (and within \<open>ttl\<close> of the call).
  The in-process cache gives all; Redis, whose deletions may fail, the first and the last. Instants count nanoseconds from Go's zero time.
\<close>

text \<open>\<open>GetPromptResponse\<close>.\<close>

record get_resp =
  g_Uri :: string
  g_Template :: string
  g_Slots :: "string list"
  g_VersionHash :: string
  g_CommitHash :: string

text \<open>The methods, at an instant; \<open>CPut\<close> and \<open>CInvalidate\<close> return the new state.\<close>

record 'c cache_ops =
  CGet :: "int \<Rightarrow> string \<Rightarrow> 'c \<Rightarrow> get_resp option"
  CPut :: "int \<Rightarrow> string \<Rightarrow> get_resp \<Rightarrow> 'c \<Rightarrow> 'c"
  CInvalidate :: "int \<Rightarrow> string \<Rightarrow> 'c \<Rightarrow> 'c"

subsection \<open>What a client may rely on\<close>

text \<open>\<open>entries c\<close> are the pairs a lookup may ever return from \<open>c\<close>.\<close>

locale l2_cache =
  fixes ops :: "'c cache_ops" and entries :: "'c \<Rightarrow> (string \<times> get_resp) set"
  assumes get_entry: "CGet ops t uri c = Some r \<Longrightarrow> (uri, r) \<in> entries c"
    and put_entries: "entries (CPut ops t uri r c) \<subseteq> insert (uri, r) (entries c)"
    and invalidate_entries: "entries (CInvalidate ops t uri c) \<subseteq> entries c"
begin

text \<open>A property of all cached responses is kept by every operation that caches only such.\<close>

lemma entries_inv_put:
  "\<forall>(u, x) \<in> entries c. P u x \<Longrightarrow> P uri r \<Longrightarrow> \<forall>(u, x) \<in> entries (CPut ops t uri r c). P u x"
  using put_entries [of t uri r c] by blast

lemma entries_inv_invalidate:
  "\<forall>(u, x) \<in> entries c. P u x \<Longrightarrow> \<forall>(u, x) \<in> entries (CInvalidate ops t uri c). P u x"
  using invalidate_entries [of t uri c] by blast

lemma hit_inv: "\<forall>(u, x) \<in> entries c. P u x \<Longrightarrow> CGet ops t uri c = Some r \<Longrightarrow> P uri r"
  using get_entry [of t uri c r] by blast

end

locale coherent_cache = l2_cache +
  assumes invalidate_removes: "(uri, r) \<notin> entries (CInvalidate ops t uri c)"
begin

text \<open>After an invalidation the entries may hold a property that is new for that URI.\<close>

lemma entries_inv_moved:
  "\<forall>(u, x) \<in> entries c. P u x \<Longrightarrow> (\<And>u x. u \<noteq> uri \<Longrightarrow> P u x \<Longrightarrow> Q u x) \<Longrightarrow>
     \<forall>(u, x) \<in> entries (CInvalidate ops t uri c). Q u x"
proof (clarify)
  fix u x
  assume inv: "\<forall>(u, x) \<in> entries c. P u x" and new: "\<And>u x. u \<noteq> uri \<Longrightarrow> P u x \<Longrightarrow> Q u x"
    and e: "(u, x) \<in> entries (CInvalidate ops t uri c)"
  then have "u \<noteq> uri" "(u, x) \<in> entries c"
    using invalidate_removes invalidate_entries by blast+
  with inv new show "Q u x" by blast
qed

end

text \<open>Entries with the last instant they may be returned at (\<open>None\<close>: there is none), \<open>ttl\<close> after
  they were put.\<close>

fun alive :: "int \<Rightarrow> int option \<Rightarrow> bool" where
  "alive t None = True"
| "alive t (Some x) = (t \<le> x)"

locale expiring_cache =
  fixes ops :: "'c cache_ops" and timed :: "'c \<Rightarrow> (string \<times> get_resp \<times> int option) set" and ttl :: int
  assumes get_timed: "CGet ops t uri c = Some r \<Longrightarrow> \<exists>x. (uri, r, x) \<in> timed c \<and> alive t x"
    and put_timed: "timed (CPut ops t uri r c) \<subseteq> insert (uri, r, Some (t + ttl)) (timed c)"
    and invalidate_timed: "timed (CInvalidate ops t uri c) \<subseteq> timed c"
begin

lemma timed_inv_put:
  "\<forall>(u, r, x) \<in> timed c. P u r x \<Longrightarrow> P uri y (Some (t + ttl)) \<Longrightarrow> \<forall>(u, r, x) \<in> timed (CPut ops t uri y c). P u r x"
  using put_timed [of t uri y c] by blast

lemma timed_inv_invalidate:
  "\<forall>(u, r, x) \<in> timed c. P u r x \<Longrightarrow> \<forall>(u, r, x) \<in> timed (CInvalidate ops t uri c). P u r x"
  using invalidate_timed [of t uri c] by blast

end

sublocale expiring_cache \<subseteq> l2_cache ops "\<lambda>c. {(u, r). \<exists>x. (u, r, x) \<in> timed c}"
  by unfold_locales (use get_timed put_timed invalidate_timed in \<open>blast+\<close>)

subsection \<open>No cache\<close>

text \<open>A nil \<open>Cache\<close>: the server skips the calls.\<close>

definition nil_ops :: "unit cache_ops" where
  "nil_ops = \<lparr>CGet = \<lambda>_ _ _. None, CPut = \<lambda>_ _ _ c. c, CInvalidate = \<lambda>_ _ c. c\<rparr>"

interpretation nil_cache: coherent_cache nil_ops "\<lambda>_. {}"
  by unfold_locales (simp_all add: nil_ops_def)

subsection \<open>In process\<close>

text \<open>\<open>ttlCache\<close>: the map from URIs to entries with an expiry. \<open>Get\<close> leaves an expired entry in
  place, as the code does.\<close>

type_synonym ttl_cache = "(string \<times> get_resp \<times> int) list"

definition ttl_Get :: "int \<Rightarrow> string \<Rightarrow> ttl_cache \<Rightarrow> get_resp option" where
  "ttl_Get now uri m =
     (case map_of m uri of
        None \<Rightarrow> None
      | Some (resp, expiry) \<Rightarrow> if expiry < now then None else Some resp)"

definition ttl_Put :: "int \<Rightarrow> int \<Rightarrow> string \<Rightarrow> get_resp \<Rightarrow> ttl_cache \<Rightarrow> ttl_cache" where
  "ttl_Put ttl now uri resp m = AList.update uri (resp, now + ttl) m"

definition ttl_Invalidate :: "int \<Rightarrow> string \<Rightarrow> ttl_cache \<Rightarrow> ttl_cache" where
  "ttl_Invalidate now uri m = AList.delete uri m"

definition ttl_ops :: "int \<Rightarrow> ttl_cache cache_ops" where
  "ttl_ops ttl = \<lparr>CGet = ttl_Get, CPut = ttl_Put ttl, CInvalidate = ttl_Invalidate\<rparr>"

definition ttl_entries :: "ttl_cache \<Rightarrow> (string \<times> get_resp) set" where
  "ttl_entries m = {(u, r). \<exists>x. map_of m u = Some (r, x)}"

text \<open>\<open>NewMemCache\<close>: caching is off for a TTL that is not positive.\<close>

definition mem_ops :: "int \<Rightarrow> ttl_cache cache_ops" where
  "mem_ops ttl = (if ttl \<le> 0 then \<lparr>CGet = \<lambda>_ _ _. None, CPut = \<lambda>_ _ _ c. c, CInvalidate = \<lambda>_ _ c. c\<rparr>
     else ttl_ops ttl)"

interpretation ttl: coherent_cache "ttl_ops ttl" ttl_entries for ttl
  by unfold_locales
    (auto simp: ttl_ops_def ttl_entries_def ttl_Get_def ttl_Put_def ttl_Invalidate_def delete_conv'
      split: option.splits if_splits)

text \<open>So whatever the TTL is, the in-process cache is coherent.\<close>

definition mem_entries :: "int \<Rightarrow> ttl_cache \<Rightarrow> (string \<times> get_resp) set" where
  "mem_entries ttl m = (if ttl \<le> 0 then {} else ttl_entries m)"

interpretation mem: coherent_cache "mem_ops ttl" "mem_entries ttl" for ttl
proof (cases "ttl \<le> 0")
  case True
  then show "coherent_cache (mem_ops ttl) (mem_entries ttl)"
    by unfold_locales (simp_all add: mem_ops_def mem_entries_def)
next
  case False
  then have "mem_ops ttl = ttl_ops ttl" "mem_entries ttl = ttl_entries"
    by (simp_all add: mem_ops_def mem_entries_def fun_eq_iff)
  then show "coherent_cache (mem_ops ttl) (mem_entries ttl)" using ttl.coherent_cache_axioms by simp
qed

lemma mem_entries_empty [simp]: "mem_entries ttl [] = {}"
  by (simp add: mem_entries_def ttl_entries_def)

definition ttl_timed :: "ttl_cache \<Rightarrow> (string \<times> get_resp \<times> int option) set" where
  "ttl_timed m = {(u, r, Some x) | u r x. map_of m u = Some (r, x)}"

interpretation ttl_x: expiring_cache "ttl_ops ttl" ttl_timed ttl for ttl
  by unfold_locales
    (auto simp: ttl_ops_def ttl_timed_def ttl_Get_def ttl_Put_def ttl_Invalidate_def delete_conv'
      split: option.splits if_splits)

text \<open>A hit is at most \<open>ttl\<close> old: an entry put at \<open>t\<close> is not returned after \<open>t + ttl\<close>.\<close>

lemma ttl_put_get: "ttl_Get now uri (ttl_Put ttl t uri r m) = (if t + ttl < now then None else Some r)"
  by (simp add: ttl_Get_def ttl_Put_def)

subsection \<open>Redis\<close>

text \<open>
  The Redis client and the protobuf codec are not part of the repository: they are parameters,
  functions over an abstract state of the service that may fail (\<open>None\<close>, or a state left as it
  was). \<open>redis_backend\<close> states what the code relies on: a \<open>GET\<close> answers bytes a \<open>SET\<close> stored under
  that key and that have not expired, \<open>DEL\<close> adds none, and unmarshalling inverts marshalling. Only a
  positive life makes a key expire.
\<close>

definition redisKey :: "string \<Rightarrow> string" where
  "redisKey uri = ''promptnet:cache:'' @ uri"

record 'r redis_client =
  RGet :: "int \<Rightarrow> string \<Rightarrow> 'r \<Rightarrow> bytes option"
  RSet :: "int \<Rightarrow> string \<Rightarrow> bytes \<Rightarrow> int \<Rightarrow> 'r \<Rightarrow> 'r"
  RDel :: "int \<Rightarrow> string \<Rightarrow> 'r \<Rightarrow> 'r"

definition redis_Get :: "'r redis_client \<Rightarrow> (bytes \<Rightarrow> get_resp option) \<Rightarrow> int \<Rightarrow> string \<Rightarrow> 'r \<Rightarrow> get_resp option" where
  "redis_Get rdb unmarshal now uri s =
     (case RGet rdb now (redisKey uri) s of None \<Rightarrow> None | Some b \<Rightarrow> unmarshal b)"

definition redis_Put :: "'r redis_client \<Rightarrow> (get_resp \<Rightarrow> bytes option) \<Rightarrow> int \<Rightarrow> int \<Rightarrow> string \<Rightarrow> get_resp \<Rightarrow> 'r \<Rightarrow> 'r" where
  "redis_Put rdb marshal ttl now uri resp s =
     (case marshal resp of None \<Rightarrow> s | Some b \<Rightarrow> RSet rdb now (redisKey uri) b ttl s)"

definition redis_Invalidate :: "'r redis_client \<Rightarrow> int \<Rightarrow> string \<Rightarrow> 'r \<Rightarrow> 'r" where
  "redis_Invalidate rdb now uri s = RDel rdb now (redisKey uri) s"

definition redis_ops :: "'r redis_client \<Rightarrow> (get_resp \<Rightarrow> bytes option) \<Rightarrow> (bytes \<Rightarrow> get_resp option) \<Rightarrow> int \<Rightarrow> 'r cache_ops" where
  "redis_ops rdb marshal unmarshal ttl =
     \<lparr>CGet = redis_Get rdb unmarshal, CPut = redis_Put rdb marshal ttl, CInvalidate = redis_Invalidate rdb\<rparr>"

locale redis_backend =
  fixes rdb :: "'r redis_client" and stored :: "'r \<Rightarrow> (string \<times> bytes \<times> int option) set"
    and marshal :: "get_resp \<Rightarrow> bytes option" and unmarshal :: "bytes \<Rightarrow> get_resp option"
  assumes get_stored: "RGet rdb t k s = Some b \<Longrightarrow> \<exists>x. (k, b, x) \<in> stored s \<and> alive t x"
    and set_stored: "\<exists>x. stored (RSet rdb t k b life s) \<subseteq> insert (k, b, x) (stored s) \<and> (0 < life \<longrightarrow> x = Some (t + life))"
    and del_stored: "stored (RDel rdb t k s) \<subseteq> stored s"
    and proto: "marshal r = Some b \<Longrightarrow> unmarshal b = Some r"
begin

definition timed :: "'r \<Rightarrow> (string \<times> get_resp \<times> int option) set" where
  "timed s = {(u, r, x). \<exists>b. (redisKey u, b, x) \<in> stored s \<and> unmarshal b = Some r}"

definition entries :: "'r \<Rightarrow> (string \<times> get_resp) set" where
  "entries s = {(u, r). \<exists>x. (u, r, x) \<in> timed s}"

lemma redis_get: "CGet (redis_ops rdb marshal unmarshal ttl) t uri c = Some r \<Longrightarrow> \<exists>x. (uri, r, x) \<in> timed c \<and> alive t x"
  by (fastforce simp: redis_ops_def redis_Get_def timed_def split: option.splits dest!: get_stored)

lemma redis_put: "\<exists>x. timed (CPut (redis_ops rdb marshal unmarshal ttl) t uri r c) \<subseteq> insert (uri, r, x) (timed c)
    \<and> (0 < ttl \<longrightarrow> x = Some (t + ttl))"
proof (cases "marshal r")
  case None
  then show ?thesis by (auto simp: redis_ops_def redis_Put_def)
next
  case (Some b)
  obtain x where x: "stored (RSet rdb t (redisKey uri) b ttl c) \<subseteq> insert (redisKey uri, b, x) (stored c)"
    "0 < ttl \<longrightarrow> x = Some (t + ttl)" using set_stored by blast
  from x(1) have "timed (CPut (redis_ops rdb marshal unmarshal ttl) t uri r c) \<subseteq> insert (uri, r, x) (timed c)"
    using Some proto [OF Some] by (fastforce simp: redis_ops_def redis_Put_def timed_def redisKey_def)
  with x(2) show ?thesis by blast
qed

lemma redis_invalidate: "timed (CInvalidate (redis_ops rdb marshal unmarshal ttl) t uri c) \<subseteq> timed c"
  using del_stored [of t "redisKey uri" c]
  by (fastforce simp: redis_ops_def redis_Invalidate_def timed_def)

lemma redis_l2: "l2_cache (redis_ops rdb marshal unmarshal ttl) entries"
proof
  fix t uri c r
  show "CGet (redis_ops rdb marshal unmarshal ttl) t uri c = Some r \<Longrightarrow> (uri, r) \<in> entries c"
    using redis_get by (force simp: entries_def)
  show "entries (CPut (redis_ops rdb marshal unmarshal ttl) t uri r c) \<subseteq> insert (uri, r) (entries c)"
    using redis_put [of ttl t uri r c] by (fastforce simp: entries_def)
  show "entries (CInvalidate (redis_ops rdb marshal unmarshal ttl) t uri c) \<subseteq> entries c"
    using redis_invalidate by (fastforce simp: entries_def)
qed

end

sublocale redis_backend \<subseteq> redis: l2_cache "redis_ops rdb marshal unmarshal ttl" entries for ttl
  by (rule redis_l2)

locale redis_with_ttl = redis_backend rdb stored marshal unmarshal
  for rdb :: "'r redis_client" and stored marshal unmarshal +
  fixes ttl :: int
  assumes ttl_pos: "0 < ttl"

sublocale redis_with_ttl \<subseteq> timed: expiring_cache "redis_ops rdb marshal unmarshal ttl" timed ttl
proof
  fix t uri c r
  show "CGet (redis_ops rdb marshal unmarshal ttl) t uri c = Some r \<Longrightarrow> \<exists>x. (uri, r, x) \<in> timed c \<and> alive t x"
    by (rule redis_get)
  show "timed (CPut (redis_ops rdb marshal unmarshal ttl) t uri r c) \<subseteq> insert (uri, r, Some (t + ttl)) (timed c)"
    using redis_put [of ttl t uri r c] ttl_pos by blast
  show "timed (CInvalidate (redis_ops rdb marshal unmarshal ttl) t uri c) \<subseteq> timed c"
    by (rule redis_invalidate)
qed

text \<open>
  A service that meets these laws: keys with values and expiries, whose commands fail while the
  service is not \<open>up\<close>, and a codec that, like protobuf's, refuses strings that are not UTF-8.
\<close>

type_synonym redis_db = "(string \<times> bytes \<times> int option) list"

definition ref_redis :: "(int \<Rightarrow> bool) \<Rightarrow> redis_db redis_client" where
  "ref_redis up =
     \<lparr>RGet = \<lambda>now k s. if up now then (case map_of s k of Some (b, x) \<Rightarrow> if alive now x then Some b else None | None \<Rightarrow> None) else None,
      RSet = \<lambda>now k b life s. if up now then AList.update k (b, if 0 < life then Some (now + life) else None) s else s,
      RDel = \<lambda>now k s. if up now then AList.delete k s else s\<rparr>"

definition ref_stored :: "redis_db \<Rightarrow> (string \<times> bytes \<times> int option) set" where
  "ref_stored s = {(k, b, x). map_of s k = Some (b, x)}"

definition ref_marshal :: "get_resp \<Rightarrow> bytes option" where
  "ref_marshal r =
     (let xs = g_Uri r # g_Template r # g_VersionHash r # g_CommitHash r # g_Slots r
      in if list_all valid_utf8 xs then Some (json_marshal xs) else None)"

definition ref_unmarshal :: "bytes \<Rightarrow> get_resp option" where
  "ref_unmarshal b =
     (case json_unmarshal b of
        Some (u # t # v # c # sl) \<Rightarrow>
          Some \<lparr>g_Uri = u, g_Template = t, g_Slots = sl, g_VersionHash = v, g_CommitHash = c\<rparr>
      | _ \<Rightarrow> None)"

interpretation ref_redis: redis_backend "ref_redis up" ref_stored ref_marshal ref_unmarshal for up
proof
  fix t k b s life
  have "stored \<subseteq> insert (k, b, if 0 < life then Some (t + life) else None) (ref_stored s)"
    if "stored = ref_stored (RSet (ref_redis up) t k b life s)" for stored
    unfolding that by (auto simp: ref_redis_def ref_stored_def split: if_splits)
  then show "\<exists>x. ref_stored (RSet (ref_redis up) t k b life s) \<subseteq> insert (k, b, x) (ref_stored s)
      \<and> (0 < life \<longrightarrow> x = Some (t + life))"
    by (metis (full_types))
qed (auto simp: ref_redis_def ref_stored_def ref_marshal_def ref_unmarshal_def Let_def json_roundtrip
      delete_conv' split: option.splits if_splits)

text \<open>The default of \<^verbatim>\<open>-cache-ttl\<close>, 30 seconds.\<close>

definition default_ttl :: int where "default_ttl = 30000000000"

interpretation ref_redis_ttl: redis_with_ttl "ref_redis up" ref_stored ref_marshal ref_unmarshal default_ttl for up
  by unfold_locales (simp add: default_ttl_def)

end
