(* ===== verification/Rpc.thy ===== *)
theory Rpc
  imports Store Cache Semdiff Validate "HOL-Library.Word"
begin

text \<open>
  The messages of \<^verbatim>\<open>proto/promptnet/v1/prompt.proto\<close> (the structs of
  \<^verbatim>\<open>gen/promptnet/v1/prompt.pb.go\<close>), the gRPC status a handler fails with, and the context an
  RPC runs in. A status keeps the arguments of its message: \<open>Fmt f xs\<close> is \<open>f\<close> with \<open>xs\<close> filled in.
\<close>

subsection \<open>Status\<close>

datatype code =
    InvalidArgument
  | NotFound
  | PermissionDenied
  | ResourceExhausted
  | Internal
  | DataLoss
  | Unauthenticated

datatype detail =
    Fmt string "string list"
  | FmtInvalid string verr
  | FmtStore string err
  | FmtDiff string diff_err

text \<open>A handler replies, fails with a status, or panics.\<close>

datatype 'a outcome =
    Reply 'a
  | Fail code detail
  | Panic

fun map_reply :: "('a \<Rightarrow> 'b) \<Rightarrow> 'a outcome \<Rightarrow> 'b outcome" where
  "map_reply f (Reply a) = Reply (f a)"
| "map_reply f (Fail c d) = Fail c d"
| "map_reply f Panic = Panic"

subsection \<open>Messages\<close>

text \<open>Fields in the order of the message definitions.\<close>

datatype request =
    PublishPromptRequest string string "string list" string string
  | GetPromptRequest string string
  | ListPromptsRequest string
  | DiffPromptRequest string string
  | HistoryRequest string string
  | CreateBranchRequest string string string
  | MergeBranchRequest string string string string
  | DiffCommitsRequest string string string
  | SetBranchRequest string string string

text \<open>\<open>Commit\<close> on the wire; its time stays an instant here, formatted as RFC 3339 there.\<close>

record pb_commit =
  p_Hash :: string
  p_VersionHash :: string
  p_Parent :: string
  p_Parent2 :: string
  p_Author :: string
  p_Message :: string
  p_CreatedAt :: int

text \<open>Line numbers and radii travel as \<open>int32\<close>.\<close>

record pb_window =
  w_Radius :: "32 word"
  w_Delta :: f64

record pb_change =
  p_OldStart :: "32 word"
  p_OldEnd :: "32 word"
  p_NewStart :: "32 word"
  p_NewEnd :: "32 word"
  p_Kind :: string
  p_PointDelta :: f64
  p_Up :: "pb_window list"
  p_Down :: "pb_window list"
  p_UpBoundary :: bool
  p_DownBoundary :: bool
  p_Classification :: string

datatype response =
    PublishPromptResponse string
  | GetPromptResponse get_resp
  | ListPromptsResponse "(string \<times> string) list"
  | DiffPromptResponse "pb_change list"
  | HistoryResponse "pb_commit list"
  | CreateBranchResponse string
  | MergeBranchResponse string
  | SetBranchResponse string

text \<open>\<open>uriOf\<close>: the URI of a request that carries one; \<open>ListPromptsRequest\<close> has only a prefix.\<close>

fun uriOf :: "request \<Rightarrow> string" where
  "uriOf (PublishPromptRequest uri template slots message branch) = uri"
| "uriOf (GetPromptRequest uri ref) = uri"
| "uriOf (ListPromptsRequest pre) = []"
| "uriOf (DiffPromptRequest uri template) = uri"
| "uriOf (HistoryRequest uri branch) = uri"
| "uriOf (CreateBranchRequest uri name src) = uri"
| "uriOf (MergeBranchRequest uri into src message) = uri"
| "uriOf (DiffCommitsRequest uri a b) = uri"
| "uriOf (SetBranchRequest uri branch h) = uri"

fun rpc_name :: "request \<Rightarrow> string" where
  "rpc_name (PublishPromptRequest uri template slots message branch) = ''/promptnet.v1.PromptService/PublishPrompt''"
| "rpc_name (GetPromptRequest uri ref) = ''/promptnet.v1.PromptService/GetPrompt''"
| "rpc_name (ListPromptsRequest pre) = ''/promptnet.v1.PromptService/ListPrompts''"
| "rpc_name (DiffPromptRequest uri template) = ''/promptnet.v1.PromptService/DiffPrompt''"
| "rpc_name (HistoryRequest uri branch) = ''/promptnet.v1.PromptService/History''"
| "rpc_name (CreateBranchRequest uri name src) = ''/promptnet.v1.PromptService/CreateBranch''"
| "rpc_name (MergeBranchRequest uri into src message) = ''/promptnet.v1.PromptService/MergeBranch''"
| "rpc_name (DiffCommitsRequest uri a b) = ''/promptnet.v1.PromptService/DiffCommits''"
| "rpc_name (SetBranchRequest uri branch h) = ''/promptnet.v1.PromptService/SetBranch''"

text \<open>What a request is authorized by, and whether it writes.\<close>

fun subject_of :: "request \<Rightarrow> string" where
  "subject_of (ListPromptsRequest pre) = pre"
| "subject_of r = uriOf r"

fun writes :: "request \<Rightarrow> bool" where
  "writes (PublishPromptRequest uri template slots message branch) = True"
| "writes (CreateBranchRequest uri name src) = True"
| "writes (MergeBranchRequest uri into src message) = True"
| "writes (SetBranchRequest uri branch h) = True"
| "writes _ = False"

subsection \<open>Context\<close>

text \<open>The two values the interceptors put on the context; \<open>None\<close> if absent.\<close>

record ctx =
  scopeKey :: "string option"
  writeKey :: "bool option"

definition no_ctx :: ctx where "no_ctx = \<lparr>scopeKey = None, writeKey = None\<rparr>"

definition scope_value :: "ctx \<Rightarrow> string" where
  "scope_value c = (case scopeKey c of None \<Rightarrow> [] | Some s \<Rightarrow> s)"

text \<open>\<open>orgOf\<close>: the first path segment of a prompt URI.\<close>

definition orgOf :: "string \<Rightarrow> string" where
  "orgOf uri =
     (let s = TrimPrefix uri ''promptnet://''; i = IndexByte s (CHR ''/'')
      in if 0 \<le> i then take (nat i) s else s)"

definition authorize :: "ctx \<Rightarrow> string \<Rightarrow> (code \<times> detail) option" where
  "authorize c uri =
     (if scope_value c = [] \<or> scope_value c = orgOf uri then None
      else Some (PermissionDenied, Fmt ''token not authorized for org %q'' [orgOf uri]))"

definition requireWrite :: "ctx \<Rightarrow> (code \<times> detail) option" where
  "requireWrite c =
     (if writeKey c = Some False then Some (PermissionDenied, Fmt ''token is read-only'' []) else None)"

definition scopeOf :: "ctx \<Rightarrow> string" where
  "scopeOf c = (if scope_value c \<noteq> [] then scope_value c else ''anonymous'')"

subsection \<open>Orgs\<close>

lemma orgOf_takeWhile: "orgOf uri = takeWhile (\<lambda>c. c \<noteq> CHR ''/'') (TrimPrefix uri ''promptnet://'')"
proof -
  define s where "s = TrimPrefix uri ''promptnet://''"
  show ?thesis
  proof (cases "CHR ''/'' \<in> set s")
    case True
    moreover from this have "0 \<le> IndexByte s (CHR ''/'')" using IndexByte_neg [of s "CHR ''/''"] by linarith
    ultimately show ?thesis using IndexByte_take [of "CHR ''/''" s] by (simp add: orgOf_def s_def [symmetric] Let_def)
  next
    case False
    then have "IndexByte s (CHR ''/'') < 0" by (simp add: IndexByte_neg)
    moreover have t: "takeWhile (\<lambda>c. c \<noteq> CHR ''/'') s = s"
      by (rule takeWhile_eq_all_conv [THEN iffD2]) (use False in blast)
    ultimately show ?thesis unfolding orgOf_def s_def [symmetric] Let_def t by simp
  qed
qed

lemma orgOf_uri:
  assumes "CHR ''/'' \<notin> set org"
  shows "orgOf (''promptnet://'' @ org @ ''/'' @ path) = org" and "orgOf (''promptnet://'' @ org) = org"
proof -
  have "takeWhile (\<lambda>c. c \<noteq> CHR ''/'') (org @ CHR ''/'' # path) = org"
    using assms by (subst takeWhile_append2) auto
  then show "orgOf (''promptnet://'' @ org @ ''/'' @ path) = org"
    unfolding orgOf_takeWhile TrimPrefix_append by simp
  show "orgOf (''promptnet://'' @ org) = org"
    unfolding orgOf_takeWhile TrimPrefix_append using assms by (auto simp: takeWhile_eq_all_conv)
qed

end
