(* ===== verification/Server.thy ===== *)
theory Server
  imports Rpc
begin

text \<open>
  \<^verbatim>\<open>internal/server/server.go\<close>: the handlers of the prompt service. The server is a store handle,
  a cache, an embedder (\<open>None\<close> for nil) and whether a notifier is attached; its world is the
  database, the cache, the calls made to the embedder and the notifications published so far. A
  handler maps the context, the environment of the operation, the request and the world to an
  outcome and the world behind it. A server without a cache has operations that do nothing.
\<close>

record 'c server =
  srv_store :: store
  srv_cache :: "'c cache_ops"
  srv_embedder :: "embedder option"
  srv_notifier :: bool

record 'c world =
  w_db :: db
  w_cache :: 'c
  w_calls :: "string list list"
  w_notes :: "(string \<times> string \<times> string) list"

text \<open>Early returns: a failed guard ends the handler with its status and leaves the world.\<close>

definition guard :: "(code \<times> detail) option \<Rightarrow> ('w \<Rightarrow> 'a outcome \<times> 'w) \<Rightarrow> 'w \<Rightarrow> 'a outcome \<times> 'w" where
  "guard g k w = (case g of Some (c, d) \<Rightarrow> (Fail c d, w) | None \<Rightarrow> k w)"

definition branchOr :: "string \<Rightarrow> string" where
  "branchOr b = (if b = [] then DefaultBranch else b)"

definition branchErr :: "err \<Rightarrow> 'a outcome" where
  "branchErr er = (if er = ErrBranchNotFound then Fail NotFound (Fmt ''branch not found'' [])
     else Fail Internal (FmtStore ''%v'' er))"

definition diffCommitErr :: "err \<Rightarrow> 'a outcome" where
  "diffCommitErr er = (if er = ErrNotFound then Fail NotFound (Fmt ''commit not found'' [])
     else Fail Internal (FmtStore ''%v'' er))"

subsection \<open>Diffs\<close>

definition crlf :: string where "crlf = [CHR 0x0D, CHR 0x0A]"

definition splitLines :: "string \<Rightarrow> string list" where
  "splitLines s = SplitByte (ReplaceAll s crlf newline) (CHR 0x0A)"

text \<open>Calling \<open>Embed\<close> on a nil embedder panics; so does indexing its empty answer.\<close>

definition nil_embedder :: embedder where
  "nil_embedder = \<lparr>Embed = \<lambda>calls ts. Inr [], PersistFrac = None\<rparr>"

definition run_diff :: "embedder \<Rightarrow> string \<Rightarrow> string \<Rightarrow> 'c world \<Rightarrow> (diff_err + result list) \<times> 'c world" where
  "run_diff emb oldT newT w =
     (case the (Analyze emb (w_calls w) (splitLines oldT) (splitLines newT)) of
        (x, st) \<Rightarrow> (x, w\<lparr>w_calls := asked st\<rparr>))"

text \<open>The server's \<open>classify\<close>: \<open>None\<close> is a panic.\<close>

definition classify_edit :: "'c server \<Rightarrow> string \<Rightarrow> string \<Rightarrow> 'c world \<Rightarrow> string option \<times> 'c world" where
  "classify_edit srv oldT newT w =
     (case srv_embedder srv of
        None \<Rightarrow> (Some [], w)
      | Some emb \<Rightarrow>
          if oldT = [] then (Some [], w)
          else case run_diff emb oldT newT w of
            (Inl (EmbedErr _), w') \<Rightarrow> (Some [], w')
          | (Inl IndexPanic, w') \<Rightarrow> (None, w')
          | (Inr res, w') \<Rightarrow> (Some (Worst res), w'))"

definition toWindows :: "window list \<Rightarrow> pb_window list" where
  "toWindows ws = map (\<lambda>w. \<lparr>w_Radius = of_nat (Radius w), w_Delta = Delta w\<rparr>) ws"

definition toChange :: "result \<Rightarrow> pb_change" where
  "toChange r =
     \<lparr>p_OldStart = of_nat (OldStart (Hunk r)), p_OldEnd = of_nat (OldEnd (Hunk r)),
      p_NewStart = of_nat (NewStart (Hunk r)), p_NewEnd = of_nat (NewEnd (Hunk r)),
      p_Kind = Kind (Hunk r), p_PointDelta = Signal2 r,
      p_Up = toWindows (Curve (Up r)), p_Down = toWindows (Curve (Down r)),
      p_UpBoundary = StoppedAtBoundary (Up r), p_DownBoundary = StoppedAtBoundary (Down r),
      p_Classification = Class r\<rparr>"

definition diff_templates :: "'c server \<Rightarrow> string \<Rightarrow> string \<Rightarrow> 'c world \<Rightarrow> pb_change list outcome \<times> 'c world" where
  "diff_templates srv oldT newT w =
     (case run_diff (case srv_embedder srv of None \<Rightarrow> nil_embedder | Some emb \<Rightarrow> emb) oldT newT w of
        (Inl (EmbedErr m), w') \<Rightarrow> (Fail Internal (FmtDiff ''diff failed: %v'' (EmbedErr m)), w')
      | (Inl IndexPanic, w') \<Rightarrow> (Panic, w')
      | (Inr res, w') \<Rightarrow> (Reply (map toChange res), w'))"

subsection \<open>Publishing\<close>

definition invalidate :: "'c server \<Rightarrow> env \<Rightarrow> string \<Rightarrow> 'c world \<Rightarrow> 'c world" where
  "invalidate srv e uri w = w\<lparr>w_cache := CInvalidate (srv_cache srv) (now e) uri (w_cache w)\<rparr>"

definition notify :: "'c server \<Rightarrow> string \<Rightarrow> string \<Rightarrow> string \<Rightarrow> 'c world \<Rightarrow> 'c world" where
  "notify srv uri versionHash classification w =
     (if srv_notifier srv then w\<lparr>w_notes := w_notes w @ [(uri, versionHash, classification)]\<rparr> else w)"

text \<open>What the switch on the served prompt decides: nothing to do, a panic, or the class to publish.\<close>

datatype prev_verdict = Unchanged | Panicked | Publish string

definition judge_prev :: "'c server \<Rightarrow> env \<Rightarrow> string \<Rightarrow> string \<Rightarrow> string \<Rightarrow> 'c world \<Rightarrow> prev_verdict \<times> 'c world" where
  "judge_prev srv e uri template hash w =
     (case Get (srv_store srv) e (w_db w) uri of
        Inr prev \<Rightarrow>
          if VersionHash prev = hash then (Unchanged, w)
          else (case classify_edit srv (Template prev) template w of
                  (None, w') \<Rightarrow> (Panicked, w')
                | (Some class, w') \<Rightarrow> (Publish class, w'))
      | Inl er \<Rightarrow> (Publish (if er = ErrNotFound then ''new'' else []), w))"

definition PublishPrompt :: "'c server \<Rightarrow> ctx \<Rightarrow> env \<Rightarrow> string \<Rightarrow> string \<Rightarrow> string list \<Rightarrow> string \<Rightarrow> string
    \<Rightarrow> 'c world \<Rightarrow> string outcome \<times> 'c world" where
  "PublishPrompt srv c e uri template slots message branch =
     guard (authorize c uri) (guard (requireWrite c)
       (guard (map_option (\<lambda>v. (InvalidArgument, FmtInvalid ''invalid prompt: %v'' v))
                 (validate_Prompt uri template slots))
         (\<lambda>w.
           let hash = Hash (sha (srv_store srv)) template slots;
               b = branchOr branch;
               onMain = (b = DefaultBranch)
           in case (if onMain then judge_prev srv e uri template hash w else (Publish [], w)) of
                (Unchanged, w1) \<Rightarrow> (Reply hash, w1)
              | (Panicked, w1) \<Rightarrow> (Panic, w1)
              | (Publish class, w1) \<Rightarrow>
                  (case Commit (srv_store srv) e uri b template slots (scopeOf c) message (w_db w1) of
                     (Inl er, d) \<Rightarrow> (Fail Internal (FmtStore ''store failed: %v'' er), w1\<lparr>w_db := d\<rparr>)
                   | (Inr _, d) \<Rightarrow>
                       let w2 = w1\<lparr>w_db := d\<rparr>
                       in (Reply hash,
                           if onMain then notify srv uri hash class (invalidate srv e uri w2) else w2)))))"

subsection \<open>Reading\<close>

definition getByRef :: "'c server \<Rightarrow> env \<Rightarrow> string \<Rightarrow> string \<Rightarrow> 'c world \<Rightarrow> get_resp outcome \<times> 'c world" where
  "getByRef srv e uri ref w =
     (case Resolve (srv_store srv) e (w_db w) uri ref of
        Inl er \<Rightarrow>
          (if er = ErrNotFound \<or> er = ErrBranchNotFound
           then Fail NotFound (Fmt ''ref %q not found for %q'' [ref, uri])
           else Fail Internal (FmtStore ''resolve failed: %v'' er), w)
      | Inr c \<Rightarrow>
          (case validate_Prompt uri (c_Template c) (c_Slots c) of
             Some v \<Rightarrow> (Fail DataLoss (FmtInvalid ''stored prompt invalid: %v'' v), w)
           | None \<Rightarrow> (Reply \<lparr>g_Uri = uri, g_Template = c_Template c, g_Slots = c_Slots c,
                g_VersionHash = c_VersionHash c, g_CommitHash = c_Hash c\<rparr>, w)))"

definition GetPrompt :: "'c server \<Rightarrow> ctx \<Rightarrow> env \<Rightarrow> string \<Rightarrow> string \<Rightarrow> 'c world \<Rightarrow> get_resp outcome \<times> 'c world" where
  "GetPrompt srv c e uri ref =
     guard (authorize c uri) (\<lambda>w.
       if ref \<noteq> [] then getByRef srv e uri ref w
       else case CGet (srv_cache srv) (now e) uri (w_cache w) of
         Some resp \<Rightarrow> (Reply resp, w)
       | None \<Rightarrow>
           (case Get (srv_store srv) e (w_db w) uri of
              Inl er \<Rightarrow>
                (if er = ErrNotFound then Fail NotFound (Fmt ''prompt %q not found'' [uri])
                 else Fail Internal (FmtStore ''lookup failed: %v'' er), w)
            | Inr p \<Rightarrow>
                (case validate_Prompt (URI p) (Template p) (Slots p) of
                   Some v \<Rightarrow> (Fail DataLoss (FmtInvalid ''stored prompt invalid: %v'' v), w)
                 | None \<Rightarrow>
                     let resp = \<lparr>g_Uri = URI p, g_Template = Template p, g_Slots = Slots p,
                           g_VersionHash = VersionHash p, g_CommitHash = []\<rparr>
                     in (Reply resp, w\<lparr>w_cache := CPut (srv_cache srv) (now e) uri resp (w_cache w)\<rparr>))))"

definition ListPrompts :: "'c server \<Rightarrow> ctx \<Rightarrow> env \<Rightarrow> string \<Rightarrow> 'c world \<Rightarrow> (string \<times> string) list outcome \<times> 'c world" where
  "ListPrompts srv c e pre =
     guard (authorize c pre) (\<lambda>w.
       (case Store.List (srv_store srv) e (w_db w) pre of
          Inl er \<Rightarrow> Fail Internal (FmtStore ''list failed: %v'' er)
        | Inr ps \<Rightarrow> Reply (map (\<lambda>p. (URI p, VersionHash p)) ps), w))"

definition DiffPrompt :: "'c server \<Rightarrow> ctx \<Rightarrow> env \<Rightarrow> string \<Rightarrow> string \<Rightarrow> 'c world \<Rightarrow> pb_change list outcome \<times> 'c world" where
  "DiffPrompt srv c e uri newTemplate =
     guard (authorize c uri) (\<lambda>w.
       case Get (srv_store srv) e (w_db w) uri of
         Inl er \<Rightarrow>
           (if er = ErrNotFound then Fail NotFound (Fmt ''prompt %q not found'' [uri])
            else Fail Internal (FmtStore ''lookup failed: %v'' er), w)
       | Inr p \<Rightarrow> diff_templates srv (Template p) newTemplate w)"

definition toCommit :: "commit \<Rightarrow> pb_commit" where
  "toCommit c =
     \<lparr>p_Hash = c_Hash c, p_VersionHash = c_VersionHash c, p_Parent = c_Parent c, p_Parent2 = c_Parent2 c,
      p_Author = c_Author c, p_Message = c_Message c, p_CreatedAt = c_CreatedAt c\<rparr>"

text \<open>\<open>Log\<close> always returns on the databases the store reaches (\<open>log_always_returns\<close>).\<close>

definition run_log :: "'c server \<Rightarrow> env \<Rightarrow> string \<Rightarrow> string \<Rightarrow> 'c world \<Rightarrow> err + commit list" where
  "run_log srv e uri branch w = the (Log (srv_store srv) e (w_db w) uri branch)"

definition History :: "'c server \<Rightarrow> ctx \<Rightarrow> env \<Rightarrow> string \<Rightarrow> string \<Rightarrow> 'c world \<Rightarrow> pb_commit list outcome \<times> 'c world" where
  "History srv c e uri branch =
     guard (authorize c uri) (\<lambda>w.
       (case run_log srv e uri (branchOr branch) w of
          Inl er \<Rightarrow> branchErr er
        | Inr ks \<Rightarrow> Reply (map toCommit ks), w))"

definition DiffCommits :: "'c server \<Rightarrow> ctx \<Rightarrow> env \<Rightarrow> string \<Rightarrow> string \<Rightarrow> string \<Rightarrow> 'c world \<Rightarrow> pb_change list outcome \<times> 'c world" where
  "DiffCommits srv c e uri fromHash toHash =
     guard (authorize c uri) (\<lambda>w.
       case GetCommit (srv_store srv) e (w_db w) fromHash of
         Inl er \<Rightarrow> (diffCommitErr er, w)
       | Inr a \<Rightarrow>
           (case GetCommit (srv_store srv) e (w_db w) toHash of
              Inl er \<Rightarrow> (diffCommitErr er, w)
            | Inr b \<Rightarrow> diff_templates srv (c_Template a) (c_Template b) w))"

subsection \<open>Branches\<close>

text \<open>\<open>c[0]\<close> of an empty log is a panic.\<close>

definition CreateBranch :: "'c server \<Rightarrow> ctx \<Rightarrow> env \<Rightarrow> string \<Rightarrow> string \<Rightarrow> string \<Rightarrow> 'c world \<Rightarrow> string outcome \<times> 'c world" where
  "CreateBranch srv c e uri name from =
     guard (authorize c uri) (guard (requireWrite c)
       (guard (if name = [] then Some (InvalidArgument, Fmt ''branch name required'' []) else None)
         (\<lambda>w.
           case Branch e uri name (branchOr from) (w_db w) of
             (Inl er, d) \<Rightarrow> (branchErr er, w\<lparr>w_db := d\<rparr>)
           | (Inr _, d) \<Rightarrow>
               let w' = w\<lparr>w_db := d\<rparr>
               in (case run_log srv e uri name w' of
                     Inl er \<Rightarrow> branchErr er
                   | Inr [] \<Rightarrow> Panic
                   | Inr (k # _) \<Rightarrow> Reply (c_Hash k), w'))))"

definition MergeBranch :: "'c server \<Rightarrow> ctx \<Rightarrow> env \<Rightarrow> string \<Rightarrow> string \<Rightarrow> string \<Rightarrow> string \<Rightarrow> 'c world \<Rightarrow> string outcome \<times> 'c world" where
  "MergeBranch srv c e uri into from message =
     guard (authorize c uri) (guard (requireWrite c) (\<lambda>w.
       case Merge (srv_store srv) e uri (branchOr into) from (scopeOf c) message (w_db w) of
         (Inl er, d) \<Rightarrow> (branchErr er, w\<lparr>w_db := d\<rparr>)
       | (Inr h, d) \<Rightarrow>
           let w' = w\<lparr>w_db := d\<rparr>
           in (Reply h, if branchOr into = DefaultBranch then invalidate srv e uri w' else w')))"

text \<open>The rollback path; the served template before it (\<open>""\<close> if it cannot be read) is what the
  notification compares with.\<close>

definition SetBranchRpc :: "'c server \<Rightarrow> ctx \<Rightarrow> env \<Rightarrow> string \<Rightarrow> string \<Rightarrow> string \<Rightarrow> 'c world \<Rightarrow> string outcome \<times> 'c world" where
  "SetBranchRpc srv c e uri branch commitHash =
     guard (authorize c uri) (guard (requireWrite c)
       (guard (if commitHash = [] then Some (InvalidArgument, Fmt ''commit_hash required'' []) else None)
         (\<lambda>w.
           let b = branchOr branch;
               prevT = (if b = DefaultBranch
                 then (case Get (srv_store srv) e (w_db w) uri of Inr prev \<Rightarrow> Template prev | Inl _ \<Rightarrow> [])
                 else [])
           in case SetBranch (srv_store srv) e uri b commitHash (w_db w) of
                (Inl er, d) \<Rightarrow>
                  (if er = ErrNotFound then Fail NotFound (Fmt ''commit %q not found for %q'' [commitHash, uri])
                   else Fail Internal (FmtStore ''set branch failed: %v'' er), w\<lparr>w_db := d\<rparr>)
              | (Inr k, d) \<Rightarrow>
                  let w1 = w\<lparr>w_db := d\<rparr>
                  in if b \<noteq> DefaultBranch then (Reply (c_VersionHash k), w1)
                     else let w2 = invalidate srv e uri w1
                          in if \<not> srv_notifier srv then (Reply (c_VersionHash k), w2)
                             else (case classify_edit srv prevT (c_Template k) w2 of
                                     (None, w3) \<Rightarrow> (Panic, w3)
                                   | (Some class, w3) \<Rightarrow>
                                       (Reply (c_VersionHash k), notify srv uri (c_VersionHash k) class w3)))))"

subsection \<open>Dispatch\<close>

definition reply :: "('a \<Rightarrow> response) \<Rightarrow> 'a outcome \<times> 'w \<Rightarrow> response outcome \<times> 'w" where
  "reply f x = (map_reply f (fst x), snd x)"

fun dispatch :: "'c server \<Rightarrow> ctx \<Rightarrow> env \<Rightarrow> request \<Rightarrow> 'c world \<Rightarrow> response outcome \<times> 'c world" where
  "dispatch srv c e (PublishPromptRequest uri template slots message branch) w =
     reply PublishPromptResponse (PublishPrompt srv c e uri template slots message branch w)"
| "dispatch srv c e (GetPromptRequest uri ref) w = reply GetPromptResponse (GetPrompt srv c e uri ref w)"
| "dispatch srv c e (ListPromptsRequest pre) w = reply ListPromptsResponse (ListPrompts srv c e pre w)"
| "dispatch srv c e (DiffPromptRequest uri t) w = reply DiffPromptResponse (DiffPrompt srv c e uri t w)"
| "dispatch srv c e (HistoryRequest uri branch) w = reply HistoryResponse (History srv c e uri branch w)"
| "dispatch srv c e (CreateBranchRequest uri name src) w =
     reply CreateBranchResponse (CreateBranch srv c e uri name src w)"
| "dispatch srv c e (MergeBranchRequest uri into src message) w =
     reply MergeBranchResponse (MergeBranch srv c e uri into src message w)"
| "dispatch srv c e (DiffCommitsRequest uri a b) w = reply DiffPromptResponse (DiffCommits srv c e uri a b w)"
| "dispatch srv c e (SetBranchRequest uri branch h) w =
     reply SetBranchResponse (SetBranchRpc srv c e uri branch h w)"

end
