(* ===== verification/ServerInv.thy ===== *)
theory ServerInv
  imports Server StoreBranches
begin

text \<open>
  What the handlers keep. Frame lemmas say which parts of the world a request can touch; in the
  locale of the cache interface, every response the server caches stays valid, and with a cache
  that forgets what it is told to, current: equal to the served row of the database.
\<close>

subsection \<open>Frames\<close>

lemma guard_None [simp]: "guard None k w = k w"
  by (simp add: guard_def)

lemma guard_Some [simp]: "guard (Some (c, d)) k w = (Fail c d, w)"
  by (simp add: guard_def)

lemma run_diff_frame:
  assumes "run_diff emb a b w = (x, w')"
  shows "w_db w' = w_db w" "w_cache w' = w_cache w" "w_notes w' = w_notes w"
  using assms by (auto simp: run_diff_def split: prod.splits)

lemma classify_edit_frame:
  assumes "classify_edit srv a b w = (x, w')"
  shows "w_db w' = w_db w" "w_cache w' = w_cache w" "w_notes w' = w_notes w"
  using assms
  by (auto simp: classify_edit_def split: option.splits if_splits prod.splits sum.splits diff_err.splits
      dest: run_diff_frame)

lemma diff_templates_frame:
  assumes "diff_templates srv a b w = (x, w')"
  shows "w_db w' = w_db w" "w_cache w' = w_cache w" "w_notes w' = w_notes w"
  using assms
  by (auto simp: diff_templates_def split: option.splits prod.splits sum.splits diff_err.splits
      dest: run_diff_frame)

lemma diff_templates_snd [simp]:
  "w_db (snd (diff_templates srv a b w)) = w_db w" "w_cache (snd (diff_templates srv a b w)) = w_cache w"
  "w_notes (snd (diff_templates srv a b w)) = w_notes w"
  by (metis diff_templates_frame surjective_pairing)+

lemma judge_prev_frame:
  assumes "judge_prev srv e uri t h w = (x, w')"
  shows "w_db w' = w_db w" "w_cache w' = w_cache w" "w_notes w' = w_notes w"
  using assms
  by (auto simp: judge_prev_def split: option.splits if_splits prod.splits sum.splits dest: classify_edit_frame)

lemma reply_simps [simp]: "fst (reply f x) = map_reply f (fst x)" "snd (reply f x) = snd x"
  by (simp_all add: reply_def)

text \<open>Authorization and the write capability come first, on every request.\<close>

lemma dispatch_unauthorized:
  "authorize c (subject_of r) = Some (k, d) \<Longrightarrow> dispatch srv c e r w = (Fail k d, w)"
  by (cases r)
    (simp_all add: reply_def PublishPrompt_def GetPrompt_def ListPrompts_def DiffPrompt_def History_def
      CreateBranch_def MergeBranch_def DiffCommits_def SetBranchRpc_def)

lemma dispatch_read_only:
  "authorize c (subject_of r) = None \<Longrightarrow> requireWrite c = Some (k, d) \<Longrightarrow> writes r \<Longrightarrow>
     dispatch srv c e r w = (Fail k d, w)"
  by (cases r)
    (simp_all add: reply_def PublishPrompt_def CreateBranch_def MergeBranch_def SetBranchRpc_def)

lemma read_db: "\<not> writes r \<Longrightarrow> w_db (snd (dispatch srv c e r w)) = w_db w"
  by (cases r; simp add: GetPrompt_def ListPrompts_def DiffPrompt_def History_def DiffCommits_def guard_def
      getByRef_def Let_def split: option.splits sum.splits prod.splits)

lemma read_notes: "\<not> writes r \<Longrightarrow> w_notes (snd (dispatch srv c e r w)) = w_notes w"
  by (cases r; simp add: GetPrompt_def ListPrompts_def DiffPrompt_def History_def DiffCommits_def guard_def
      getByRef_def Let_def split: option.splits sum.splits prod.splits)

subsection \<open>What a writing request does\<close>

lemma Commit_prompts:
  "Commit s e uri branch t sl a m d = (r, d') \<Longrightarrow> branch \<noteq> DefaultBranch \<Longrightarrow> prompts d' = prompts d"
  by (erule Commit_cases) simp_all

lemma Merge_prompts:
  "Merge s e uri into src a m d = (r, d') \<Longrightarrow> into \<noteq> DefaultBranch \<Longrightarrow> prompts d' = prompts d"
  by (erule Merge_cases) simp_all

lemma SetBranch_prompts:
  "SetBranch s e uri branch h d = (r, d') \<Longrightarrow> branch \<noteq> DefaultBranch \<Longrightarrow> prompts d' = prompts d"
  by (erule SetBranch_cases) simp_all

lemma Branch_prompts: "Branch e uri name src d = (r, d') \<Longrightarrow> prompts d' = prompts d"
  by (erule Branch_cases) simp_all

lemma failed_frames:
  "Commit s e uri branch t sl a m d = (Inl er, d') \<Longrightarrow> d' = d"
  "Merge s e uri into src a m d = (Inl er, d') \<Longrightarrow> d' = d"
  "SetBranch s e uri branch h d = (Inl er, d') \<Longrightarrow> d' = d"
  "Branch e uri name src d = (Inl er, d') \<Longrightarrow> d' = d"
  by (auto elim: Commit_cases Merge_cases SetBranch_cases Branch_cases)

text \<open>The store operation of a writing request.\<close>

fun op_of :: "ctx \<Rightarrow> request \<Rightarrow> store_op" where
  "op_of c (PublishPromptRequest uri t sl message branch) = OpCommit uri (branchOr branch) t sl (scopeOf c) message"
| "op_of c (CreateBranchRequest uri name src) = OpBranch uri name (branchOr src)"
| "op_of c (MergeBranchRequest uri into src message) = OpMerge uri (branchOr into) src (scopeOf c) message"
| "op_of c (SetBranchRequest uri branch h) = OpSetBranch uri (branchOr branch) h"
| "op_of c _ = OpBranch [] [] []"

text \<open>It was let through, ran its operation, and dropped the cached response if the served row may
  have changed.\<close>

definition ran :: "'c server \<Rightarrow> ctx \<Rightarrow> env \<Rightarrow> request \<Rightarrow> 'c world \<Rightarrow> 'c world \<Rightarrow> bool" where
  "ran srv c e r w w' \<longleftrightarrow>
     authorize c (uriOf r) = None \<and> requireWrite c = None
     \<and> apply_op (srv_store srv) e (op_of c r) (w_db w) = (None, w_db w')
     \<and> (case r of PublishPromptRequest uri t sl message branch \<Rightarrow> validate_Prompt uri t sl = None | _ \<Rightarrow> True)
     \<and> (w_cache w' = CInvalidate (srv_cache srv) (now e) (uriOf r) (w_cache w)
        \<or> w_cache w' = w_cache w \<and> prompts (w_db w') = prompts (w_db w))"

definition idle :: "'c world \<Rightarrow> 'c world \<Rightarrow> bool" where
  "idle w w' \<longleftrightarrow> w_db w' = w_db w \<and> w_cache w' = w_cache w \<and> w_notes w' = w_notes w"

lemma notify_frame [simp]:
  "w_db (notify srv uri h k w) = w_db w" "w_cache (notify srv uri h k w) = w_cache w"
  "w_calls (notify srv uri h k w) = w_calls w"
  by (simp_all add: notify_def)

lemma invalidate_frame [simp]:
  "w_db (invalidate srv e uri w) = w_db w" "w_notes (invalidate srv e uri w) = w_notes w"
  "w_cache (invalidate srv e uri w) = CInvalidate (srv_cache srv) (now e) uri (w_cache w)"
  by (simp_all add: invalidate_def)

lemma guard_cases:
  assumes "guard g k w = (x, w')"
  obtains (stop) c d where "g = Some (c, d)" "x = Fail c d" "w' = w" | (go) "g = None" "k w = (x, w')"
  using assms by (cases g) (auto simp: guard_def)

lemma Publish_cases:
  assumes "PublishPrompt srv c e uri t sl m branch w = (x, w')"
  obtains (stopped) k dt where "x = Fail k dt" "idle w w'" | (panicked) "x = Panic" "idle w w'"
    | (same) prev where "x = Reply (VersionHash prev)" "w' = w" "branchOr branch = DefaultBranch"
        "Get (srv_store srv) e (w_db w) uri = Inr prev" "VersionHash prev = Hash (sha (srv_store srv)) t sl"
        "validate_Prompt uri t sl = None"
    | (stored) h cls d where "x = Reply (Hash (sha (srv_store srv)) t sl)" "authorize c uri = None" "requireWrite c = None"
        "validate_Prompt uri t sl = None"
        "Commit (srv_store srv) e uri (branchOr branch) t sl (scopeOf c) m (w_db w) = (Inr h, d)" "w_db w' = d"
        "w_cache w' = (if branchOr branch = DefaultBranch then CInvalidate (srv_cache srv) (now e) uri (w_cache w)
           else w_cache w)"
        "w_notes w' = (if branchOr branch = DefaultBranch \<and> srv_notifier srv
           then w_notes w @ [(uri, Hash (sha (srv_store srv)) t sl, cls)] else w_notes w)"
  using assms unfolding PublishPrompt_def
proof (elim guard_cases)
  assume ok: "authorize c uri = None" "requireWrite c = None"
    "map_option (\<lambda>v. (InvalidArgument, FmtInvalid ''invalid prompt: %v'' v)) (validate_Prompt uri t sl) = None"
  define b where "b = branchOr branch"
  define hash where "hash = Hash (sha (srv_store srv)) t sl"
  assume run: "(let hash = Hash (sha (srv_store srv)) t sl; b = branchOr branch; onMain = b = DefaultBranch
       in case if onMain then judge_prev srv e uri t hash w else (Publish [], w) of
          (Unchanged, w1) \<Rightarrow> (Reply hash, w1) | (Panicked, w1) \<Rightarrow> (Panic, w1)
          | (Publish class, w1) \<Rightarrow>
              (case Commit (srv_store srv) e uri b t sl (scopeOf c) m (w_db w1) of
                 (Inl er, d) \<Rightarrow> (Fail Internal (FmtStore ''store failed: %v'' er), w1\<lparr>w_db := d\<rparr>)
               | (Inr _, d) \<Rightarrow>
                   let w2 = w1\<lparr>w_db := d\<rparr>
                   in (Reply hash, if onMain then notify srv uri hash class (invalidate srv e uri w2) else w2)))
      = (x, w')"
  obtain v w1 where j: "(if b = DefaultBranch then judge_prev srv e uri t hash w else (Publish [], w)) = (v, w1)"
    by fastforce
  then have fr: "w_db w1 = w_db w" "w_cache w1 = w_cache w" "w_notes w1 = w_notes w"
    using judge_prev_frame by (auto split: if_splits)
  obtain y d where cm: "Commit (srv_store srv) e uri b t sl (scopeOf c) m (w_db w1) = (y, d)" by fastforce
  note run = run [folded b_def hash_def, unfolded Let_def j]
  show ?thesis
  proof (cases v)
    case (Publish cls)
    show ?thesis
    proof (cases y)
      case (Inl er)
      with cm failed_frames(1) have "d = w_db w1" by metis
      with run cm Publish Inl fr have "x = Fail Internal (FmtStore ''store failed: %v'' er)" "idle w w'"
        by (auto simp: idle_def)
      then show ?thesis by (rule stopped)
    next
      case (Inr h)
      have "w' = (if b = DefaultBranch then notify srv uri hash cls (invalidate srv e uri (w1\<lparr>w_db := d\<rparr>))
          else w1\<lparr>w_db := d\<rparr>)" and x: "x = Reply hash"
        using run cm Publish Inr by simp_all
      then have "w_db w' = d" "w_cache w' = (if b = DefaultBranch
          then CInvalidate (srv_cache srv) (now e) uri (w_cache w) else w_cache w)"
        "w_notes w' = (if b = DefaultBranch \<and> srv_notifier srv then w_notes w @ [(uri, hash, cls)] else w_notes w)"
        using fr by (simp_all add: notify_def)
      with ok x cm Inr fr show ?thesis unfolding b_def hash_def by (intro stored) simp_all
    qed
  next
    case Unchanged
    with j obtain prev where "Get (srv_store srv) e (w_db w) uri = Inr prev" "VersionHash prev = hash" "b = DefaultBranch" "w1 = w"
      by (auto simp: judge_prev_def split: if_splits sum.splits prod.splits option.splits)
    moreover from this Unchanged run have "x = Reply (VersionHash prev)" "w' = w" by simp_all
    ultimately show ?thesis using ok(3) unfolding b_def hash_def by (intro same) simp_all
  next
    case Panicked
    with run fr have "x = Panic" "idle w w'" by (simp_all add: idle_def)
    then show ?thesis by (rule panicked)
  qed
qed (auto simp: idle_def intro: stopped)

lemma Publish_effect:
  assumes "PublishPrompt srv c e uri t sl m branch w = (x, w')"
  shows "idle w w' \<or> ran srv c e (PublishPromptRequest uri t sl m branch) w w'"
  using assms
proof (cases rule: Publish_cases)
  case (stored h cls d)
  have "branchOr branch \<noteq> DefaultBranch \<Longrightarrow> prompts d = prompts (w_db w)"
    using Commit_prompts [OF stored(5)] by simp
  with stored have "ran srv c e (PublishPromptRequest uri t sl m branch) w w'"
    by (auto simp: ran_def err_of_def)
  then show ?thesis ..
qed (simp_all add: idle_def)

lemma Create_effect:
  assumes "CreateBranch srv c e uri name src w = (x, w')"
  shows "idle w w' \<or> ran srv c e (CreateBranchRequest uri name src) w w'"
  using assms unfolding CreateBranch_def
proof (elim guard_cases)
  assume ok: "authorize c uri = None" "requireWrite c = None"
  obtain y d where b: "Branch e uri name (branchOr src) (w_db w) = (y, d)" by fastforce
  assume run: "(case Branch e uri name (branchOr src) (w_db w) of
       (Inl er, d) \<Rightarrow> (branchErr er, w\<lparr>w_db := d\<rparr>)
     | (Inr _, d) \<Rightarrow>
         let w' = w\<lparr>w_db := d\<rparr>
         in (case run_log srv e uri name w' of Inl er \<Rightarrow> branchErr er | Inr [] \<Rightarrow> Panic
               | Inr (k # _) \<Rightarrow> Reply (c_Hash k), w')) = (x, w')"
  show ?thesis
  proof (cases y)
    case (Inl er)
    with b failed_frames(4) have "d = w_db w" by metis
    with run b Inl show ?thesis by (auto simp: idle_def)
  next
    case (Inr u)
    with run b have "w' = w\<lparr>w_db := d\<rparr>" by (simp add: Let_def)
    then show ?thesis using b Inr ok Branch_prompts [OF b] by (simp add: ran_def err_of_def)
  qed
qed (simp_all add: idle_def)

lemma Merge_effect:
  assumes "MergeBranch srv c e uri into src m w = (x, w')"
  shows "idle w w' \<or> ran srv c e (MergeBranchRequest uri into src m) w w'"
  using assms unfolding MergeBranch_def
proof (elim guard_cases)
  assume ok: "authorize c uri = None" "requireWrite c = None"
  obtain y d where b: "Merge (srv_store srv) e uri (branchOr into) src (scopeOf c) m (w_db w) = (y, d)" by fastforce
  assume run: "(case Merge (srv_store srv) e uri (branchOr into) src (scopeOf c) m (w_db w) of
       (Inl er, d) \<Rightarrow> (branchErr er, w\<lparr>w_db := d\<rparr>)
     | (Inr h, d) \<Rightarrow>
         let w' = w\<lparr>w_db := d\<rparr>
         in (Reply h, if branchOr into = DefaultBranch then invalidate srv e uri w' else w')) = (x, w')"
  show ?thesis
  proof (cases y)
    case (Inl er)
    with b failed_frames(2) have "d = w_db w" by metis
    with run b Inl show ?thesis by (auto simp: idle_def)
  next
    case (Inr h)
    with run b have "w' = (if branchOr into = DefaultBranch then invalidate srv e uri (w\<lparr>w_db := d\<rparr>) else w\<lparr>w_db := d\<rparr>)"
      by (simp add: Let_def)
    then show ?thesis using b Inr ok Merge_prompts [OF b] by (auto simp: ran_def err_of_def)
  qed
qed (simp_all add: idle_def)

lemma SetBranch_effect:
  assumes "SetBranchRpc srv c e uri branch h w = (x, w')"
  shows "idle w w' \<or> ran srv c e (SetBranchRequest uri branch h) w w'"
  using assms unfolding SetBranchRpc_def
proof (elim guard_cases)
  assume ok: "authorize c uri = None" "requireWrite c = None"
  define b where "b = branchOr branch"
  define prevT where "prevT = (if b = DefaultBranch
      then (case Get (srv_store srv) e (w_db w) uri of Inr prev \<Rightarrow> Template prev | Inl _ \<Rightarrow> []) else [])"
  obtain y d where s: "SetBranch (srv_store srv) e uri b h (w_db w) = (y, d)" by fastforce
  assume run: "(let b = branchOr branch;
          prevT = if b = DefaultBranch
            then case Get (srv_store srv) e (w_db w) uri of Inr prev \<Rightarrow> Template prev | Inl _ \<Rightarrow> [] else []
       in case SetBranch (srv_store srv) e uri b h (w_db w) of
          (Inl er, d) \<Rightarrow>
            (if er = ErrNotFound then Fail NotFound (Fmt ''commit %q not found for %q'' [h, uri])
             else Fail Internal (FmtStore ''set branch failed: %v'' er), w\<lparr>w_db := d\<rparr>)
        | (Inr k, d) \<Rightarrow>
            let w1 = w\<lparr>w_db := d\<rparr>
            in if b \<noteq> DefaultBranch then (Reply (c_VersionHash k), w1)
               else let w2 = invalidate srv e uri w1
                    in if \<not> srv_notifier srv then (Reply (c_VersionHash k), w2)
                       else case classify_edit srv prevT (c_Template k) w2 of
                              (None, w3) \<Rightarrow> (Panic, w3)
                            | (Some class, w3) \<Rightarrow>
                                (Reply (c_VersionHash k), notify srv uri (c_VersionHash k) class w3)) = (x, w')"
  note run = run [folded b_def, unfolded Let_def, folded prevT_def]
  show ?thesis
  proof (cases y)
    case (Inl er)
    with s failed_frames(3) have "d = w_db w" by metis
    with run s Inl show ?thesis by (auto simp: idle_def)
  next
    case (Inr k)
    obtain v w3 where cl: "classify_edit srv prevT (c_Template k) (invalidate srv e uri (w\<lparr>w_db := d\<rparr>)) = (v, w3)"
      by fastforce
    have "w_db w' = d \<and> w_cache w' = (if b = DefaultBranch
        then CInvalidate (srv_cache srv) (now e) uri (w_cache w) else w_cache w)"
      using run s Inr cl classify_edit_frame [OF cl] by (auto split: if_splits option.splits)
    then show ?thesis using s Inr ok SetBranch_prompts [OF s] by (auto simp: ran_def err_of_def b_def)
  qed
qed (simp_all add: idle_def)

lemma write_effect:
  assumes "dispatch srv c e r w = (x, w')" and "writes r"
  shows "idle w w' \<or> ran srv c e r w w'"
proof -
  have w': "w' = snd (dispatch srv c e r w)" by (simp add: assms(1))
  show ?thesis
  proof (cases r)
    case (PublishPromptRequest uri t sl m branch)
    with w' Publish_effect [of srv c e uri t sl m branch w _ w'] show ?thesis by (metis dispatch.simps(1) reply_simps(2) surjective_pairing)
  next
    case (CreateBranchRequest uri name src)
    with w' Create_effect [of srv c e uri name src w _ w'] show ?thesis by (metis dispatch.simps(6) reply_simps(2) surjective_pairing)
  next
    case (MergeBranchRequest uri into src m)
    with w' Merge_effect [of srv c e uri into src m w _ w'] show ?thesis by (metis dispatch.simps(7) reply_simps(2) surjective_pairing)
  next
    case (SetBranchRequest uri branch h)
    with w' SetBranch_effect [of srv c e uri branch h w _ w'] show ?thesis by (metis dispatch.simps(9) reply_simps(2) surjective_pairing)
  qed (use assms(2) in simp_all)
qed

subsection \<open>What the cache holds\<close>

text \<open>A response the server may serve under a URI.\<close>

definition valid_resp :: "string \<Rightarrow> get_resp \<Rightarrow> bool" where
  "valid_resp uri r \<longleftrightarrow> g_Uri r = uri \<and> well_formed uri (g_Template r) (g_Slots r)"

text \<open>The response that the served row of a URI stands for, \<open>None\<close> if there is none or it cannot be
  read.\<close>

definition head_resp :: "store \<Rightarrow> db \<Rightarrow> string \<Rightarrow> get_resp option" where
  "head_resp s d uri =
     (case map_of (prompts d) uri of
        None \<Rightarrow> None
      | Some row \<Rightarrow>
          (case read_columns s (pr_template row) (pr_slots row) of
             Inl er \<Rightarrow> None
           | Inr (t, sl) \<Rightarrow> Some \<lparr>g_Uri = uri, g_Template = t, g_Slots = sl,
               g_VersionHash = pr_vhash row, g_CommitHash = []\<rparr>))"

lemma Get_head_resp:
  "Get s e d uri = Inr p \<Longrightarrow> head_resp s d uri = Some \<lparr>g_Uri = URI p, g_Template = Template p,
     g_Slots = Slots p, g_VersionHash = VersionHash p, g_CommitHash = []\<rparr> \<and> URI p = uri"
  by (auto simp: Get_def head_resp_def rbind_eq_Inr split: if_splits)

lemma head_resp_frame: "map_of (prompts d') uri = map_of (prompts d) uri \<Longrightarrow> head_resp s d' uri = head_resp s d uri"
  by (simp add: head_resp_def)

text \<open>A read leaves the cache as it is, or puts the valid current response of its URI.\<close>

lemma GetPrompt_cases:
  assumes "GetPrompt srv c e uri ref w = (x, w')"
  obtains (pinned) "w' = w" "ref \<noteq> []" | (stopped) k d where "x = Fail k d" "w' = w"
    | (hit) r where "CGet (srv_cache srv) (now e) uri (w_cache w) = Some r" "x = Reply r" "w' = w" "ref = []"
    | (miss) r where "x = Reply r" "head_resp (srv_store srv) (w_db w) uri = Some r" "valid_resp uri r" "ref = []"
        "w' = w\<lparr>w_cache := CPut (srv_cache srv) (now e) uri r (w_cache w)\<rparr>"
  using assms unfolding GetPrompt_def
proof (elim guard_cases)
  assume run: "(if ref \<noteq> [] then getByRef srv e uri ref w
     else case CGet (srv_cache srv) (now e) uri (w_cache w) of
       Some resp \<Rightarrow> (Reply resp, w)
     | None \<Rightarrow>
         (case Get (srv_store srv) e (w_db w) uri of
            Inl er \<Rightarrow>
              (if er = ErrNotFound then Fail NotFound (Fmt ''prompt %q not found'' [uri])
               else Fail Internal (FmtStore ''lookup failed: %v'' er), w)
          | Inr p \<Rightarrow>
              (case validate_Prompt (URI p) (Template p) (Slots p) of
                 Some v \<Rightarrow> (Fail DataLoss (FmtInvalid ''stored prompt invalid: %v'' v), w)
               | None \<Rightarrow>
                   let resp = \<lparr>g_Uri = URI p, g_Template = Template p, g_Slots = Slots p,
                         g_VersionHash = VersionHash p, g_CommitHash = []\<rparr>
                   in (Reply resp, w\<lparr>w_cache := CPut (srv_cache srv) (now e) uri resp (w_cache w)\<rparr>)))) = (x, w')"
  show ?thesis
  proof (cases "ref = []")
    case False
    with run have "w' = w" by (auto simp: getByRef_def split: sum.splits option.splits)
    with False that(1) show ?thesis by blast
  next
    case True
    show ?thesis
    proof (cases "CGet (srv_cache srv) (now e) uri (w_cache w)")
      case (Some r)
      with run True have "x = Reply r" "w' = w" by simp_all
      with Some True show ?thesis using that(3) by blast
    next
      case None
      show ?thesis
      proof (cases "Get (srv_store srv) e (w_db w) uri")
        case (Inl er)
        with run True None have "w' = w" "\<exists>k d. x = Fail k d" by (auto split: if_splits)
        then show ?thesis using that(2) by blast
      next
        case (Inr p)
        show ?thesis
        proof (cases "validate_Prompt (URI p) (Template p) (Slots p)")
          case None': None
          from Get_head_resp [OF Inr] have h: "head_resp (srv_store srv) (w_db w) uri = Some \<lparr>g_Uri = URI p,
              g_Template = Template p, g_Slots = Slots p, g_VersionHash = VersionHash p, g_CommitHash = []\<rparr>"
            "URI p = uri" by simp_all
          moreover from None' h(2) have "valid_resp uri \<lparr>g_Uri = URI p, g_Template = Template p,
              g_Slots = Slots p, g_VersionHash = VersionHash p, g_CommitHash = []\<rparr>"
            by (simp add: valid_resp_def validate_None_iff)
          moreover from run True None Inr None' have "x = Reply \<lparr>g_Uri = URI p, g_Template = Template p,
              g_Slots = Slots p, g_VersionHash = VersionHash p, g_CommitHash = []\<rparr>"
            "w' = w\<lparr>w_cache := CPut (srv_cache srv) (now e) uri \<lparr>g_Uri = URI p, g_Template = Template p,
              g_Slots = Slots p, g_VersionHash = VersionHash p, g_CommitHash = []\<rparr> (w_cache w)\<rparr>"
            by (simp_all add: Let_def)
          ultimately show ?thesis using True that(4) by blast
        next
          case (Some v)
          with run True None Inr have "w' = w" "\<exists>k d. x = Fail k d" by auto
          then show ?thesis using that(2) by blast
        qed
      qed
    qed
  qed
qed (use that(2) in blast)

lemma read_cache_cases:
  assumes "dispatch srv c e r w = (x, w')" and "\<not> writes r"
  obtains "w_cache w' = w_cache w"
    | uri y where "head_resp (srv_store srv) (w_db w) uri = Some y" "valid_resp uri y"
        "w_cache w' = CPut (srv_cache srv) (now e) uri y (w_cache w)"
proof -
  have w': "w' = snd (dispatch srv c e r w)" by (simp add: assms(1))
  show thesis
  proof (cases r)
    case (GetPromptRequest uri ref)
    obtain y where "GetPrompt srv c e uri ref w = (y, w')"
      using w' GetPromptRequest by (metis dispatch.simps(2) reply_simps(2) surjective_pairing)
    then show thesis
      by (cases rule: GetPrompt_cases) (use that in \<open>auto\<close>)
  qed (use w' assms(2) that(1) in \<open>auto simp: ListPrompts_def DiffPrompt_def History_def DiffCommits_def guard_def
      split: option.splits sum.splits prod.splits\<close>)
qed

context l2_cache
begin

text \<open>With any cache that keeps the interface, every response it may return stays valid.\<close>

lemma dispatch_valid:
  assumes "srv_cache srv = ops" and "\<forall>(u, y) \<in> entries (w_cache w). valid_resp u y"
    and "dispatch srv c e r w = (x, w')"
  shows "\<forall>(u, y) \<in> entries (w_cache w'). valid_resp u y"
proof (cases "writes r")
  case True
  from write_effect [OF assms(3) True] assms(1)
  have "w_cache w' = w_cache w \<or> w_cache w' = CInvalidate ops (now e) (uriOf r) (w_cache w)"
    by (auto simp: idle_def ran_def)
  then show ?thesis using assms(2) entries_inv_invalidate [OF assms(2)] by presburger
next
  case False
  from assms(3) False show ?thesis
  proof (cases rule: read_cache_cases)
    case 1
    with assms(2) show ?thesis by simp
  next
    case (2 uri y)
    show ?thesis unfolding 2(3) assms(1) by (rule entries_inv_put [OF assms(2) 2(2)])
  qed
qed

end

context coherent_cache
begin

text \<open>With a cache that forgets, every response it may return is the one the database stands for.\<close>

lemma dispatch_current:
  assumes "srv_cache srv = ops" and "srv_store srv = s"
    and "\<forall>(u, y) \<in> entries (w_cache w). head_resp s (w_db w) u = Some y"
    and "dispatch srv c e r w = (x, w')"
  shows "\<forall>(u, y) \<in> entries (w_cache w'). head_resp s (w_db w') u = Some y"
proof (cases "writes r")
  case True
  from write_effect [OF assms(4) True] show ?thesis
  proof
    assume "idle w w'"
    with assms(3) show ?thesis by (simp add: idle_def)
  next
    assume ran: "ran srv c e r w w'"
    then have op: "apply_op s e (op_of c r) (w_db w) = (None, w_db w')"
      using assms(2) by (simp add: ran_def)
    have uri: "op_uri (op_of c r) = uriOf r" using True by (cases r) simp_all
    show ?thesis
    proof (cases "w_cache w' = w_cache w \<and> prompts (w_db w') = prompts (w_db w)")
      case True
      then have "head_resp s (w_db w') u = head_resp s (w_db w) u" for u
        by (simp add: head_resp_def)
      with True assms(3) show ?thesis by simp
    next
      case False
      with ran assms(1) have "w_cache w' = CInvalidate ops (now e) (uriOf r) (w_cache w)"
        by (auto simp: ran_def)
      moreover have "u \<noteq> uriOf r \<Longrightarrow> head_resp s (w_db w') u = head_resp s (w_db w) u" for u
        by (rule head_resp_frame, rule apply_op_prompts [OF op]) (simp add: uri)
      ultimately show ?thesis
        using entries_inv_moved [OF assms(3), of "uriOf r" "\<lambda>u y. head_resp s (w_db w') u = Some y" "now e"]
        by simp
    qed
  qed
next
  case False
  have "w_db w' = w_db w" using read_db [OF False] assms(4) by (metis snd_conv)
  from assms(4) False show ?thesis
  proof (cases rule: read_cache_cases)
    case 1
    with assms(3) \<open>w_db w' = w_db w\<close> show ?thesis by simp
  next
    case (2 uri y)
    have "head_resp s (w_db w) uri = Some y" using 2(1) assms(2) by simp
    then show ?thesis
      unfolding 2(3) assms(1) \<open>w_db w' = w_db w\<close> by (rule entries_inv_put [OF assms(3)])
  qed
qed

end

end
