(* ===== verification/ServerCache.thy ===== *)
theory ServerCache
  imports ServerInv
begin

text \<open>
  The server with a cache against the server without one. \<open>uncached\<close> is the same server with a nil
  cache and \<open>forget\<close> its view of a world; every handler but \<open>GetPrompt\<close> of the head runs the same on
  both. With a coherent cache whose entries are current, the cached server refines the uncached
  one; with a cache that only expires its entries, it does \<open>ttl\<close> after the last change.
\<close>

subsection \<open>The server without its cache\<close>

definition uncached :: "'c server \<Rightarrow> unit server" where
  "uncached srv = \<lparr>srv_store = srv_store srv, srv_cache = nil_ops, srv_embedder = srv_embedder srv,
     srv_notifier = srv_notifier srv\<rparr>"

definition forget :: "'c world \<Rightarrow> unit world" where
  "forget w = \<lparr>w_db = w_db w, w_cache = (), w_calls = w_calls w, w_notes = w_notes w\<rparr>"

lemma uncached_simps [simp]:
  "srv_store (uncached srv) = srv_store srv" "srv_embedder (uncached srv) = srv_embedder srv"
  "srv_notifier (uncached srv) = srv_notifier srv" "srv_cache (uncached srv) = nil_ops"
  by (simp_all add: uncached_def)

lemma forget_simps [simp]:
  "w_db (forget w) = w_db w" "w_calls (forget w) = w_calls w" "w_notes (forget w) = w_notes w"
  "forget (w\<lparr>w_cache := k\<rparr>) = forget w"
  "(forget w)\<lparr>w_db := d\<rparr> = forget (w\<lparr>w_db := d\<rparr>)" "(forget w)\<lparr>w_calls := cs\<rparr> = forget (w\<lparr>w_calls := cs\<rparr>)"
  "(forget w)\<lparr>w_notes := ns\<rparr> = forget (w\<lparr>w_notes := ns\<rparr>)" "(forget w)\<lparr>w_cache := u\<rparr> = forget w"
  by (simp_all add: forget_def)

named_theorems forgets \<open>steps of the uncached server as views of steps of the cached one\<close>

lemma run_diff_forget [forgets]: "run_diff emb a b (forget w) = apsnd forget (run_diff emb a b w)"
  by (simp add: run_diff_def split: prod.splits)

lemma classify_edit_forget [forgets]:
  "classify_edit (uncached srv) a b (forget w) = apsnd forget (classify_edit srv a b w)"
  by (simp add: classify_edit_def run_diff_forget apsnd_def map_prod_def
      split: option.splits prod.splits sum.splits diff_err.splits)

lemma diff_templates_forget [forgets]:
  "diff_templates (uncached srv) a b (forget w) = apsnd forget (diff_templates srv a b w)"
  by (simp add: diff_templates_def run_diff_forget apsnd_def map_prod_def
      split: option.splits prod.splits sum.splits diff_err.splits)

lemma judge_prev_forget [forgets]:
  "judge_prev (uncached srv) e uri t h (forget w) = apsnd forget (judge_prev srv e uri t h w)"
  by (simp add: judge_prev_def classify_edit_forget apsnd_def map_prod_def split: option.splits prod.splits sum.splits)

lemma invalidate_forget [forgets]: "invalidate (uncached srv) e uri (forget w) = forget (invalidate srv e uri w)"
  by (simp add: invalidate_def)

lemma notify_forget [forgets]: "notify (uncached srv) uri h k (forget w) = forget (notify srv uri h k w)"
  by (simp add: notify_def)

lemma run_log_forget [forgets]: "run_log (uncached srv) e uri b (forget w) = run_log srv e uri b w"
  by (simp add: run_log_def)

lemma guard_forget:
  "(\<And>w. k' (forget w) = apsnd forget (k w)) \<Longrightarrow> guard g k' (forget w) = apsnd forget (guard g k w)"
  by (simp add: guard_def split: option.splits)

lemma Publish_forget:
  "PublishPrompt (uncached srv) c e uri t sl m branch (forget w) = apsnd forget (PublishPrompt srv c e uri t sl m branch w)"
  unfolding PublishPrompt_def
proof (intro guard_forget)
  fix w :: "'a world"
  define b where "b = branchOr branch"
  define h where "h = Hash (sha (srv_store srv)) t sl"
  obtain v w1 where j: "(if b = DefaultBranch then judge_prev srv e uri t h w else (Publish [], w)) = (v, w1)"
    by fastforce
  then have j': "(if b = DefaultBranch then judge_prev (uncached srv) e uri t h (forget w) else (Publish [], forget w))
      = (v, forget w1)" by (auto simp: judge_prev_forget split: if_splits)
  obtain y d where cm: "Commit (srv_store srv) e uri b t sl (scopeOf c) m (w_db w1) = (y, d)" by fastforce
  show "(let hash = Hash (sha (srv_store (uncached srv))) t sl; b = branchOr branch; onMain = b = DefaultBranch
       in case if onMain then judge_prev (uncached srv) e uri t hash (forget w) else (Publish [], forget w) of
          (Unchanged, w1) \<Rightarrow> (Reply hash, w1) | (Panicked, w1) \<Rightarrow> (Panic, w1)
          | (Publish class, w1) \<Rightarrow>
              (case Commit (srv_store (uncached srv)) e uri b t sl (scopeOf c) m (w_db w1) of
                 (Inl er, d) \<Rightarrow> (Fail Internal (FmtStore ''store failed: %v'' er), w1\<lparr>w_db := d\<rparr>)
               | (Inr _, d) \<Rightarrow>
                   let w2 = w1\<lparr>w_db := d\<rparr>
                   in (Reply hash, if onMain then notify (uncached srv) uri hash class (invalidate (uncached srv) e uri w2) else w2)))
    = apsnd forget (let hash = Hash (sha (srv_store srv)) t sl; b = branchOr branch; onMain = b = DefaultBranch
       in case if onMain then judge_prev srv e uri t hash w else (Publish [], w) of
          (Unchanged, w1) \<Rightarrow> (Reply hash, w1) | (Panicked, w1) \<Rightarrow> (Panic, w1)
          | (Publish class, w1) \<Rightarrow>
              (case Commit (srv_store srv) e uri b t sl (scopeOf c) m (w_db w1) of
                 (Inl er, d) \<Rightarrow> (Fail Internal (FmtStore ''store failed: %v'' er), w1\<lparr>w_db := d\<rparr>)
               | (Inr _, d) \<Rightarrow>
                   let w2 = w1\<lparr>w_db := d\<rparr>
                   in (Reply hash, if onMain then notify srv uri hash class (invalidate srv e uri w2) else w2)))"
    unfolding uncached_simps b_def [symmetric] h_def [symmetric] Let_def j j'
    by (cases v; cases y) (simp_all add: cm forgets)
qed

lemma SetBranch_forget:
  "SetBranchRpc (uncached srv) c e uri b h (forget w) = apsnd forget (SetBranchRpc srv c e uri b h w)"
  unfolding SetBranchRpc_def
  by (intro guard_forget)
    (simp add: forgets Let_def apsnd_def map_prod_def split: option.splits prod.splits sum.splits)

lemma other_forget:
  "CreateBranch (uncached srv) c e uri n src (forget w) = apsnd forget (CreateBranch srv c e uri n src w)"
  "MergeBranch (uncached srv) c e uri into src m (forget w) = apsnd forget (MergeBranch srv c e uri into src m w)"
  "ListPrompts (uncached srv) c e pre (forget w) = apsnd forget (ListPrompts srv c e pre w)"
  "DiffPrompt (uncached srv) c e uri t (forget w) = apsnd forget (DiffPrompt srv c e uri t w)"
  "History (uncached srv) c e uri n (forget w) = apsnd forget (History srv c e uri n w)"
  "DiffCommits (uncached srv) c e uri n m (forget w) = apsnd forget (DiffCommits srv c e uri n m w)"
  unfolding CreateBranch_def MergeBranch_def ListPrompts_def DiffPrompt_def History_def DiffCommits_def
  by (intro guard_forget; simp add: forgets Let_def apsnd_def map_prod_def split: prod.splits sum.splits)+

text \<open>Everything but a read of the head.\<close>

fun head_read :: "request \<Rightarrow> bool" where
  "head_read (GetPromptRequest uri ref) = (ref = [])"
| "head_read _ = False"

lemma getByRef_forget: "getByRef (uncached srv) e uri ref (forget w) = apsnd forget (getByRef srv e uri ref w)"
  by (simp add: getByRef_def split: sum.splits option.splits)

lemma reply_apsnd: "reply f (apsnd g x) = apsnd g (reply f x)"
  by (cases x) (simp add: reply_def)

lemma dispatch_forget:
  "\<not> head_read r \<Longrightarrow> dispatch (uncached srv) c e r (forget w) = apsnd forget (dispatch srv c e r w)"
proof (cases r)
  case (GetPromptRequest uri ref)
  moreover assume "\<not> head_read r"
  moreover have "guard g (\<lambda>w. if ref \<noteq> [] then getByRef (uncached srv) e uri ref w else k' w) (forget w)
      = apsnd forget (guard g (\<lambda>w. if ref \<noteq> [] then getByRef srv e uri ref w else k w) w)" if "ref \<noteq> []" for g k k'
    using that by (intro guard_forget) (simp add: getByRef_forget)
  ultimately show ?thesis by (simp add: GetPrompt_def reply_apsnd)
qed (simp_all add: Publish_forget SetBranch_forget other_forget reply_apsnd)

text \<open>And a read of the head whose hit, if there is one, is current and valid.\<close>

lemma GetPrompt_forget:
  assumes hit: "\<And>y. CGet (srv_cache srv) (now e) uri (w_cache w) = Some y \<Longrightarrow>
      head_resp (srv_store srv) (w_db w) uri = Some y \<and> valid_resp uri y"
    and db: "\<not> fails e (QPrompt uri)"
  shows "GetPrompt (uncached srv) c e uri [] (forget w) = apsnd forget (GetPrompt srv c e uri [] w)"
proof (cases "authorize c uri = None \<and> (\<exists>y. CGet (srv_cache srv) (now e) uri (w_cache w) = Some y)")
  case True
  then obtain y where y: "CGet (srv_cache srv) (now e) uri (w_cache w) = Some y" by blast
  from hit [OF y] obtain row t sl where
      row: "map_of (prompts (w_db w)) uri = Some row" "read_columns (srv_store srv) (pr_template row) (pr_slots row) = Inr (t, sl)"
    and yr: "y = \<lparr>g_Uri = uri, g_Template = t, g_Slots = sl, g_VersionHash = pr_vhash row, g_CommitHash = []\<rparr>"
    and v: "validate_Prompt uri t sl = None"
    by (auto simp: head_resp_def valid_resp_def validate_None_iff split: option.splits sum.splits)
  from row db have "Get (srv_store srv) e (w_db w) uri = Inr \<lparr>URI = uri, Template = t, Slots = sl, VersionHash = pr_vhash row\<rparr>"
    by (simp add: Get_def)
  with v y True show ?thesis by (simp add: GetPrompt_def nil_ops_def yr)
next
  case False
  then show ?thesis
    by (auto simp: GetPrompt_def guard_def nil_ops_def Let_def split: option.splits sum.splits)
qed

subsection \<open>Requests one after another\<close>

fun serve_all :: "'c server \<Rightarrow> 'c world \<Rightarrow> (ctx \<times> env \<times> request) list \<Rightarrow> response outcome list \<times> 'c world" where
  "serve_all srv w [] = ([], w)"
| "serve_all srv w ((c, e, r) # rs) =
     (let (x, w') = dispatch srv c e r w; (xs, w'') = serve_all srv w' rs in (x # xs, w''))"

definition boot :: "db \<Rightarrow> 'c \<Rightarrow> 'c world" where
  "boot d k = \<lparr>w_db = d, w_cache = k, w_calls = [], w_notes = []\<rparr>"

lemma boot_simps [simp]:
  "w_db (boot d k) = d" "w_cache (boot d k) = k" "w_calls (boot d k) = []" "w_notes (boot d k) = []"
  "forget (boot d k) = boot d ()"
  by (simp_all add: boot_def forget_def)

text \<open>One request to both servers, when a hit of the cache is current and valid: the same answer, except
  that a hit saves the read of a database that fails.\<close>

lemma dispatch_saves:
  assumes "\<And>uri y. r = GetPromptRequest uri [] \<Longrightarrow> CGet (srv_cache srv) (now e) uri (w_cache w) = Some y \<Longrightarrow>
      head_resp (srv_store srv) (w_db w) uri = Some y \<and> valid_resp uri y"
    and "dispatch srv c e r w = (x, w')"
  obtains y where "dispatch (uncached srv) c e r (forget w) = (y, forget w')"
    and "y = x \<or> (\<exists>uri z. r = GetPromptRequest uri [] \<and> fails e (QPrompt uri)
      \<and> y = Fail Internal (FmtStore ''lookup failed: %v'' (DbErr (QPrompt uri)))
      \<and> x = Reply (GetPromptResponse z) \<and> head_resp (srv_store srv) (w_db w) uri = Some z)"
proof (cases "head_read r")
  case False
  from that [of x] dispatch_forget [OF False, of srv c e w] assms(2) show ?thesis by simp
next
  case True
  then obtain uri where r: "r = GetPromptRequest uri []" by (cases r) simp_all
  show ?thesis
  proof (cases "fails e (QPrompt uri)")
    case False
    from GetPrompt_forget [OF assms(1) [OF r] False, of c]
    have "dispatch (uncached srv) c e r (forget w) = apsnd forget (dispatch srv c e r w)"
      by (simp add: r reply_apsnd)
    with that [of x] assms(2) show ?thesis by simp
  next
    case f: True
    show ?thesis
    proof (cases "authorize c uri = None \<and> (\<exists>y. CGet (srv_cache srv) (now e) uri (w_cache w) = Some y)")
      case True
      then obtain z where z: "CGet (srv_cache srv) (now e) uri (w_cache w) = Some z" by blast
      note h = assms(1) [OF r z, THEN conjunct1]
      from True z assms(2) have x: "x = Reply (GetPromptResponse z)" "w' = w"
        by (simp_all add: r GetPrompt_def reply_def)
      from True f have "dispatch (uncached srv) c e r (forget w)
          = (Fail Internal (FmtStore ''lookup failed: %v'' (DbErr (QPrompt uri))), forget w')"
        by (simp add: r GetPrompt_def Get_def nil_ops_def reply_def x(2))
      from that [OF this] r f x(1) h show ?thesis by blast
    next
      case False
      then have "GetPrompt (uncached srv) c e uri [] (forget w) = apsnd forget (GetPrompt srv c e uri [] w)"
        using f by (auto simp: GetPrompt_def Get_def guard_def nil_ops_def split: option.splits)
      with that [of x] assms(2) show ?thesis by (simp add: r reply_apsnd)
    qed
  qed
qed

lemma serve_all_append:
  "serve_all srv w rs = (xs, w') \<Longrightarrow> dispatch srv c e r w' = (x, w'') \<Longrightarrow>
     serve_all srv w (rs @ [(c, e, r)]) = (xs @ [x], w'')"
  by (induction srv w rs arbitrary: xs rule: serve_all.induct) (auto simp: Let_def split: prod.splits)

context coherent_cache
begin

lemma serve_all_current:
  assumes "srv_cache srv = ops" and "serve_all srv w rs = (xs, w')"
    and "\<forall>(u, y) \<in> entries (w_cache w). head_resp (srv_store srv) (w_db w) u = Some y"
  shows "\<forall>(u, y) \<in> entries (w_cache w'). head_resp (srv_store srv) (w_db w') u = Some y"
  using assms(2,3)
proof (induction rs arbitrary: w xs)
  case (Cons q rs)
  obtain c e r where q: "q = (c, e, r)" by (cases q)
  obtain x w1 where d: "dispatch srv c e r w = (x, w1)" by fastforce
  with Cons.prems(1) q obtain ys where "serve_all srv w1 rs = (ys, w')"
    by (auto simp: Let_def split: prod.splits)
  then show ?case using Cons.IH dispatch_current [OF assms(1) refl Cons.prems(2) d] by blast
qed simp

lemma serve_all_saves:
  assumes "srv_cache srv = ops" and "\<forall>(u, y) \<in> entries (w_cache w). head_resp (srv_store srv) (w_db w) u = Some y"
    and "\<forall>(u, y) \<in> entries (w_cache w). valid_resp u y"
    and "serve_all srv w rs = (xs, w')"
  shows "\<exists>ys. serve_all (uncached srv) (forget w) rs = (ys, forget w') \<and> length xs = length rs \<and> length ys = length rs
    \<and> (\<forall>i < length rs. ys ! i = xs ! i \<or> (\<exists>c e uri z. rs ! i = (c, e, GetPromptRequest uri []) \<and> fails e (QPrompt uri)
         \<and> ys ! i = Fail Internal (FmtStore ''lookup failed: %v'' (DbErr (QPrompt uri)))
         \<and> xs ! i = Reply (GetPromptResponse z)
         \<and> head_resp (srv_store srv) (w_db (snd (serve_all srv w (take i rs)))) uri = Some z))"
  using assms(2-)
proof (induction rs arbitrary: w xs)
  case (Cons q rs)
  obtain c e r where q: "q = (c, e, r)" by (cases q)
  obtain x w1 where d: "dispatch srv c e r w = (x, w1)" by fastforce
  obtain xs' where xs: "xs = x # xs'" "serve_all srv w1 rs = (xs', w')"
    using Cons.prems(3) by (auto simp: q d Let_def split: prod.splits)
  have hit: "head_resp (srv_store srv) (w_db w) uri = Some y \<and> valid_resp uri y"
    if "CGet (srv_cache srv) (now e) uri (w_cache w) = Some y" for uri y
    using that Cons.prems(1,2) assms(1) get_entry [of "now e" uri "w_cache w" y] by auto
  obtain y where y: "dispatch (uncached srv) c e r (forget w) = (y, forget w1)"
    "y = x \<or> (\<exists>uri z. r = GetPromptRequest uri [] \<and> fails e (QPrompt uri)
      \<and> y = Fail Internal (FmtStore ''lookup failed: %v'' (DbErr (QPrompt uri)))
      \<and> x = Reply (GetPromptResponse z) \<and> head_resp (srv_store srv) (w_db w) uri = Some z)"
    by (rule dispatch_saves [OF hit d])
  from Cons.IH [OF dispatch_current [OF assms(1) refl Cons.prems(1) d] dispatch_valid [OF assms(1) Cons.prems(2) d] xs(2)]
  obtain ys where ys: "serve_all (uncached srv) (forget w1) rs = (ys, forget w')" "length xs' = length rs" "length ys = length rs"
    and each: "\<And>i. i < length rs \<Longrightarrow> ys ! i = xs' ! i \<or> (\<exists>c e uri z. rs ! i = (c, e, GetPromptRequest uri []) \<and> fails e (QPrompt uri)
         \<and> ys ! i = Fail Internal (FmtStore ''lookup failed: %v'' (DbErr (QPrompt uri)))
         \<and> xs' ! i = Reply (GetPromptResponse z)
         \<and> head_resp (srv_store srv) (w_db (snd (serve_all srv w1 (take i rs)))) uri = Some z)"
    by blast
  have step: "snd (serve_all srv w (q # ps)) = snd (serve_all srv w1 ps)" for ps
    by (simp add: q d Let_def split: prod.splits)
  show ?case
  proof (intro exI conjI allI impI)
    show "serve_all (uncached srv) (forget w) (q # rs) = (y # ys, forget w')"
      by (simp add: q y(1) ys(1) Let_def)
    show "length xs = length (q # rs)" "length (y # ys) = length (q # rs)" using xs(1) ys(2,3) by simp_all
  next
    fix i assume "i < length (q # rs)"
    then show "(y # ys) ! i = xs ! i \<or> (\<exists>c e uri z. (q # rs) ! i = (c, e, GetPromptRequest uri []) \<and> fails e (QPrompt uri)
         \<and> (y # ys) ! i = Fail Internal (FmtStore ''lookup failed: %v'' (DbErr (QPrompt uri)))
         \<and> xs ! i = Reply (GetPromptResponse z)
         \<and> head_resp (srv_store srv) (w_db (snd (serve_all srv w (take i (q # rs))))) uri = Some z)"
    proof (cases i)
      case 0
      with y(2) show ?thesis by (auto simp: xs(1) q)
    next
      case (Suc j)
      with \<open>i < length (q # rs)\<close> each [of j] show ?thesis
        unfolding Suc nth_Cons_Suc take_Suc_Cons step xs(1) by simp
    qed
  qed
qed simp

end

subsection \<open>Convergence\<close>

text \<open>
  A node of a deployment, its clock \<open>t\<close>, and \<open>T\<close>, the instant at which the served row of \<open>uri\<close>
  last changed: requests of this node, and writes of other nodes to the shared database, which
  this node's cache hears nothing of.
\<close>

inductive node :: "'c server \<Rightarrow> 'c \<Rightarrow> string \<Rightarrow> int \<Rightarrow> int \<Rightarrow> 'c world \<Rightarrow> bool" for srv k uri where
  node_start: "node srv k uri t t (boot d k)"
| node_request: "node srv k uri T t w \<Longrightarrow> t \<le> now e \<Longrightarrow> dispatch srv c e r w = (x, w') \<Longrightarrow>
    T' = (if head_resp (srv_store srv) (w_db w') uri = head_resp (srv_store srv) (w_db w) uri then T else now e) \<Longrightarrow>
    node srv k uri T' (now e) w'"
| node_other: "node srv k uri T t w \<Longrightarrow> t \<le> t' \<Longrightarrow>
    T' = (if head_resp (srv_store srv) d uri = head_resp (srv_store srv) (w_db w) uri then T else t') \<Longrightarrow>
    node srv k uri T' t' (w\<lparr>w_db := d\<rparr>)"

lemma node_bound: "node srv k uri T t w \<Longrightarrow> T \<le> t"
  by (induction rule: node.induct) auto

text \<open>An entry is current, or gone \<open>ttl\<close> after the last change.\<close>

definition settles :: "store \<Rightarrow> string \<Rightarrow> int \<Rightarrow> int \<Rightarrow> db \<Rightarrow> string \<Rightarrow> get_resp \<Rightarrow> int option \<Rightarrow> bool" where
  "settles s uri by_t t d u y x \<longleftrightarrow>
     valid_resp u y \<and> (\<exists>z. x = Some z \<and> z \<le> t \<and> (u = uri \<longrightarrow> head_resp s d uri = Some y \<or> z \<le> by_t))"

lemma settles_later:
  "settles s uri a t d u y x \<Longrightarrow> t \<le> t' \<Longrightarrow>
     a' = (if head_resp s d' uri = head_resp s d uri then a else t'') \<Longrightarrow> t \<le> t'' \<Longrightarrow> settles s uri a' t' d' u y x"
  by (auto simp: settles_def)

context expiring_cache
begin

lemma node_settles:
  assumes "node srv k uri T t w" and ops: "srv_cache srv = ops" and "timed k = {}"
  shows "\<forall>(u, y, x) \<in> timed (w_cache w). settles (srv_store srv) uri (T + ttl) (t + ttl) (w_db w) u y x"
  using assms(1)
proof induction
  case (node_start t d)
  then show ?case using assms(3) by simp
next
  case (node_request T t w e c r x w' T')
  have later: "\<forall>(u, y, x) \<in> timed (w_cache w). settles (srv_store srv) uri (T' + ttl) (now e + ttl) (w_db w') u y x"
  proof clarify
    fix u y x assume "(u, y, x) \<in> timed (w_cache w)"
    with node_request.IH have "settles (srv_store srv) uri (T + ttl) (t + ttl) (w_db w) u y x" by blast
    then show "settles (srv_store srv) uri (T' + ttl) (now e + ttl) (w_db w') u y x"
      by (rule settles_later [where t'' = "now e + ttl"]) (use node_request.hyps in auto)
  qed
  show ?case
  proof (cases "writes r")
    case True
    from write_effect [OF node_request.hyps(3) True] ops
    have "w_cache w' = w_cache w \<or> w_cache w' = CInvalidate ops (now e) (uriOf r) (w_cache w)"
      by (auto simp: idle_def ran_def)
    with later timed_inv_invalidate [OF later] show ?thesis by presburger
  next
    case False
    have db: "w_db w' = w_db w" using read_db [OF False] node_request.hyps(3) by (metis snd_conv)
    from node_request.hyps(3) False show ?thesis
    proof (cases rule: read_cache_cases)
      case 1
      with later show ?thesis by simp
    next
      case (2 u y)
      then have "settles (srv_store srv) uri (T' + ttl) (now e + ttl) (w_db w') u y (Some (now e + ttl))"
        by (auto simp: settles_def db)
      with 2 later show ?thesis unfolding 2(3) ops by (intro timed_inv_put)
    qed
  qed
next
  case (node_other T t w t' T' d)
  show ?case
  proof clarify
    fix u y x assume "(u, y, x) \<in> timed (w_cache (w\<lparr>w_db := d\<rparr>))"
    with node_other.IH have "settles (srv_store srv) uri (T + ttl) (t + ttl) (w_db w) u y x" by simp blast
    then show "settles (srv_store srv) uri (T' + ttl) (t' + ttl) (w_db (w\<lparr>w_db := d\<rparr>)) u y x"
      by (rule settles_later [where t'' = "t' + ttl"]) (use node_other.hyps in auto)
  qed
qed

lemma node_converges:
  assumes "node srv k uri T t w" and "srv_cache srv = ops" and "timed k = {}"
    and "T + ttl < now e" and "\<not> fails e (QPrompt uri)"
  shows "GetPrompt (uncached srv) c e uri [] (forget w) = apsnd forget (GetPrompt srv c e uri [] w)"
proof (rule GetPrompt_forget)
  fix y assume "CGet (srv_cache srv) (now e) uri (w_cache w) = Some y"
  then obtain x where x: "(uri, y, x) \<in> timed (w_cache w)" "alive (now e) x"
    using assms(2) get_timed by blast
  from node_settles [OF assms(1-3)] x(1)
  have "settles (srv_store srv) uri (T + ttl) (t + ttl) (w_db w) uri y x" by blast
  with x(2) assms(4) show "head_resp (srv_store srv) (w_db w) uri = Some y \<and> valid_resp uri y"
    by (auto simp: settles_def)
qed (rule assms(5))

end

end
