(* ===== verification/ServerProps.thy ===== *)
theory ServerProps
  imports ServerCache
begin

text \<open>
  What clients of the prompt service may rely on: only valid prompts are served, a published
  version is the one read back, notifications name the new head, staleness is bounded by the
  cache's time to live, and no handler panics. Two exceptions are proved as they are: a merge into
  \<open>main\<close> notifies nobody, and \<open>DiffCommits\<close> shows commits of other prompts.
\<close>

subsection \<open>A concrete service\<close>

definition demo_srv :: "'c cache_ops \<Rightarrow> 'c server" where
  "demo_srv ops = \<lparr>srv_store = demo, srv_cache = ops, srv_embedder = None, srv_notifier = True\<rparr>"

lemma demo_srv_simps [simp]:
  "srv_store (demo_srv ops) = demo" "srv_cache (demo_srv ops) = ops" "srv_embedder (demo_srv ops) = None"
  "srv_notifier (demo_srv ops)"
  by (simp_all add: demo_srv_def)

lemma sha_demo: "sha demo = demo_sha"
  by (simp add: demo_def)

lemma demo_Get:
  assumes "\<not> fails e (QPrompt demo_uri)"
  shows "Get demo e demo_db demo_uri = Inr \<lparr>URI = demo_uri, Template = ''Hi {n}'',
    Slots = [''n''], VersionHash = Hash demo_sha ''Hi {n}'' [''n'']\<rparr>"
  unfolding sha_demo [symmetric]
proof (rule Get_served)
  show "map_of (prompts demo_db) demo_uri = Some (served_row demo calm ''Hi {n}'' [''n''] (Hash (sha demo) ''Hi {n}'' [''n'']))"
    by (subst demo_db_eq) (simp add: DefaultBranch_def sha_demo)
  show "served_content demo (served_row demo calm ''Hi {n}'' [''n''] (Hash (sha demo) ''Hi {n}'' [''n''])) ''Hi {n}'' [''n'']"
    by (simp add: served_content_def)
qed (rule assms)

lemma demo_valid: "validate_Prompt demo_uri ''Hi {n}'' [''n''] = None"
  unfolding demo_uri_def by (rule example_valid)

definition demo_resp :: get_resp where
  "demo_resp = \<lparr>g_Uri = demo_uri, g_Template = ''Hi {n}'', g_Slots = [''n''],
     g_VersionHash = Hash demo_sha ''Hi {n}'' [''n''], g_CommitHash = []\<rparr>"

lemma demo_head: "head_resp demo demo_db demo_uri = Some demo_resp" "valid_resp demo_uri demo_resp"
  using Get_head_resp [OF demo_Get [of calm]] demo_valid
  by (simp_all add: demo_resp_def valid_resp_def validate_None_iff)

lemma authorize_no_ctx [simp]: "authorize no_ctx uri = None" "requireWrite no_ctx = None" "scopeOf no_ctx = ''anonymous''"
  by (simp_all add: authorize_def no_ctx_def scope_value_def requireWrite_def scopeOf_def)

subsection \<open>The cache\<close>

text \<open>C1: a coherent cache is transparent. Over any sequence of requests to one server, whichever of
  them fail and whenever they come, the server with such a cache (none, or the in-process one with any
  time to live) leaves the same database, embedder calls and notifications as the server without one,
  and gives the same answers, with one exception: where the server without a cache fails to read the
  served row, the other may answer with it from its cache, and then with the row as it is.\<close>

theorem cache_is_transparent:
  assumes "coherent_cache ops entries" and "srv_cache srv = ops" and "entries k = {}"
    and "serve_all srv (boot d k) rs = (xs, w)" and "serve_all (uncached srv) (boot d ()) rs = (ys, w0)"
  shows "w0 = forget w \<and> length xs = length rs \<and> length ys = length rs
    \<and> (\<forall>i < length rs. ys ! i = xs ! i \<or> (\<exists>c e uri z. rs ! i = (c, e, GetPromptRequest uri []) \<and> fails e (QPrompt uri)
         \<and> ys ! i = Fail Internal (FmtStore ''lookup failed: %v'' (DbErr (QPrompt uri)))
         \<and> xs ! i = Reply (GetPromptResponse z)
         \<and> head_resp (srv_store srv) (w_db (snd (serve_all srv (boot d k) (take i rs)))) uri = Some z))"
  using coherent_cache.serve_all_saves [OF assms(1,2) _ _ assms(4)] assms(3,5) by auto

theorem cache_is_transparent_witness:
  "let rs = [(no_ctx, calm, GetPromptRequest demo_uri []), (no_ctx, calm\<lparr>fails := \<lambda>_. True\<rparr>, GetPromptRequest demo_uri [])]
   in snd (serve_all (uncached (demo_srv (mem_ops 5))) (boot demo_db ()) rs)
      = forget (snd (serve_all (demo_srv (mem_ops 5)) (boot demo_db []) rs))"
  unfolding Let_def
  by (rule cache_is_transparent [OF mem.coherent_cache_axioms demo_srv_simps(2) mem_entries_empty
      surjective_pairing surjective_pairing, THEN conjunct1])

subsection \<open>Reading the head\<close>

text \<open>A read of the head with an up-to-date cache replies with the served row, if it is valid.\<close>

lemma GetPrompt_head:
  assumes "\<And>y. CGet (srv_cache srv) (now e) uri (w_cache w) = Some y \<Longrightarrow>
      head_resp (srv_store srv) (w_db w) uri = Some y"
    and "authorize c uri = None" and "\<not> fails e (QPrompt uri)"
    and "head_resp (srv_store srv) (w_db w) uri = Some r" and "valid_resp uri r"
  shows "\<exists>w'. GetPrompt srv c e uri [] w = (Reply r, w')"
proof (cases "CGet (srv_cache srv) (now e) uri (w_cache w)")
  case None
  from assms(4) obtain row t sl where "map_of (prompts (w_db w)) uri = Some row"
    "read_columns (srv_store srv) (pr_template row) (pr_slots row) = Inr (t, sl)"
    "r = \<lparr>g_Uri = uri, g_Template = t, g_Slots = sl, g_VersionHash = pr_vhash row, g_CommitHash = []\<rparr>"
    by (auto simp: head_resp_def split: option.splits sum.splits)
  moreover from this assms(5) have "validate_Prompt uri t sl = None" by (simp add: valid_resp_def validate_None_iff)
  ultimately show ?thesis using None assms(2,3) by (simp add: GetPrompt_def Get_def Let_def)
next
  case (Some y)
  with assms show ?thesis by (simp add: GetPrompt_def)
qed

subsection \<open>Only valid prompts\<close>

text \<open>The replies to a read, over any cache whose entries are valid.\<close>

lemma GetPrompt_valid:
  assumes "\<And>y. CGet (srv_cache srv) (now e) uri (w_cache w) = Some y \<Longrightarrow> valid_resp uri y"
    and "GetPrompt srv c e uri ref w = (Reply y, w')"
  shows "valid_resp uri y"
proof (cases "ref = []")
  case True
  from assms(2) show ?thesis
    by (cases rule: GetPrompt_cases) (use True assms(1) in auto)
next
  case False
  with assms(2) have "getByRef srv e uri ref w = (Reply y, w')"
    by (auto simp: GetPrompt_def guard_def split: option.splits)
  then show ?thesis
    by (auto simp: getByRef_def valid_resp_def validate_None_iff split: sum.splits option.splits if_splits)
qed

lemma slots_utf8:
  assumes "validate_Prompt uri t sl = None"
  shows "list_all valid_utf8 sl"
proof -
  have "byte x = int (of_char x)" for x by (simp only: byte_def of_nat_of_char)
  then have word: "is_word x \<Longrightarrow> byte x < 128" for x by (auto simp: is_word_def Let_def)
  have "valid_utf8 w" if "list_all is_word w" for w
    by (rule ascii_valid_utf8, rule list.pred_mono_strong [OF that]) (rule word)
  then show ?thesis
    using assms unfolding validate_None_iff well_formed_def slot_name_def by (auto simp: list_all_iff)
qed

text \<open>The version hash is that of the content; so it is in the served row of a database whose rows hold
  what their hashes say, and every request leaves such a database.\<close>

definition hashed_resp :: "store \<Rightarrow> get_resp \<Rightarrow> bool" where
  "hashed_resp s y \<longleftrightarrow> g_VersionHash y = Hash (sha s) (g_Template y) (g_Slots y)"

lemma head_resp_hashed:
  assumes "content_ok s d" and "head_resp s d uri = Some y"
  shows "hashed_resp s y"
proof -
  from assms(2) obtain row t sl where r: "map_of (prompts d) uri = Some row"
      "read_columns s (pr_template row) (pr_slots row) = Inr (t, sl)"
      "y = \<lparr>g_Uri = uri, g_Template = t, g_Slots = sl, g_VersionHash = pr_vhash row, g_CommitHash = []\<rparr>"
    by (auto simp: head_resp_def split: option.splits sum.splits)
  from r(1) have "row \<in> snd ` set (prompts d)" by (force dest: map_of_SomeD)
  with assms(1) obtain t' sl' where "served_content s row t' sl'" by (auto simp: content_ok_def)
  with r show ?thesis by (simp add: served_content_def hashed_resp_def)
qed

lemma dispatch_content:
  assumes "dispatch srv c e r w = (x, w')" and "content_ok (srv_store srv) (w_db w)" and "env_ok (srv_store srv) e"
  shows "content_ok (srv_store srv) (w_db w')"
proof (cases "writes r")
  case True
  from write_effect [OF assms(1) True] show ?thesis
  proof
    assume "ran srv c e r w w'"
    then have op: "apply_op (srv_store srv) e (op_of c r) (w_db w) = (None, w_db w')"
      and v: "case r of PublishPromptRequest uri t sl message branch \<Rightarrow> validate_Prompt uri t sl = None | _ \<Rightarrow> True"
      by (simp_all add: ran_def)
    have "op_utf8 (op_of c r)" using v slots_utf8 by (cases r) auto
    from apply_op_content [OF op assms(2,3) this] show ?thesis .
  qed (use assms(2) in \<open>simp add: idle_def\<close>)
next
  case False
  from read_db [OF False] assms(1,2) show ?thesis by (metis snd_conv)
qed

lemma GetPrompt_hashed:
  assumes "content_ok (srv_store srv) (w_db w)" and "GetPrompt srv c e uri ref w = (Reply y, w')"
    and "\<And>y. CGet (srv_cache srv) (now e) uri (w_cache w) = Some y \<Longrightarrow> hashed_resp (srv_store srv) y"
  shows "hashed_resp (srv_store srv) y"
proof (cases "ref = []")
  case True
  from assms(2) show ?thesis
    by (cases rule: GetPrompt_cases) (use True assms(3) head_resp_hashed [OF assms(1)] in auto)
next
  case False
  with assms(2) have "getByRef srv e uri ref w = (Reply y, w')"
    by (auto simp: GetPrompt_def guard_def split: option.splits)
  then obtain k where k: "Resolve (srv_store srv) e (w_db w) uri ref = Inr k"
    and y: "y = \<lparr>g_Uri = uri, g_Template = c_Template k, g_Slots = c_Slots k, g_VersionHash = c_VersionHash k, g_CommitHash = c_Hash k\<rparr>"
    by (auto simp: getByRef_def split: sum.splits option.splits if_splits)
  from k obtain h where "GetCommit (srv_store srv) e (w_db w) h = Inr k"
    by (auto simp: Resolve_def rbind_eq_Inr split: sum.splits if_splits)
  from GetCommit_hashes(1) [OF assms(1) this] show ?thesis by (simp add: y hashed_resp_def)
qed

context l2_cache
begin

lemma serve_all_valid:
  assumes "srv_cache srv = ops" and "\<forall>(u, y) \<in> entries (w_cache w). valid_resp u y"
    and "serve_all srv w rs = (xs, w')"
  shows "\<forall>(u, y) \<in> entries (w_cache w'). valid_resp u y"
  using assms(2,3)
proof (induction rs arbitrary: w xs)
  case (Cons q rs)
  obtain c e r where q: "q = (c, e, r)" by (cases q)
  obtain x w1 where d: "dispatch srv c e r w = (x, w1)" by fastforce
  with Cons.prems(2) q obtain ys where "serve_all srv w1 rs = (ys, w')"
    by (auto simp: Let_def split: prod.splits)
  then show ?case using Cons.IH dispatch_valid [OF assms(1) Cons.prems(1) d] by blast
qed simp

lemma dispatch_hashed:
  assumes "srv_cache srv = ops" and "\<forall>(u, y) \<in> entries (w_cache w). hashed_resp (srv_store srv) y"
    and "dispatch srv c e r w = (x, w')" and "content_ok (srv_store srv) (w_db w)"
  shows "\<forall>(u, y) \<in> entries (w_cache w'). hashed_resp (srv_store srv) y"
proof (cases "writes r")
  case True
  from write_effect [OF assms(3) True] assms(1)
  have "w_cache w' = w_cache w \<or> w_cache w' = CInvalidate ops (now e) (uriOf r) (w_cache w)"
    by (auto simp: idle_def ran_def)
  then show ?thesis using assms(2) entries_inv_invalidate [OF assms(2)] by presburger
next
  case False
  from assms(3) False show ?thesis
  proof (cases rule: read_cache_cases)
    case 1
    with assms(2) show ?thesis by simp
  next
    case (2 uri y)
    show ?thesis
      unfolding 2(3) assms(1) by (rule entries_inv_put [OF assms(2)]) (rule head_resp_hashed [OF assms(4) 2(1)])
  qed
qed

lemma serve_all_hashed:
  assumes "srv_cache srv = ops" and "\<forall>(c, e, r) \<in> set rs. env_ok (srv_store srv) e"
    and "serve_all srv w rs = (xs, w')" and "content_ok (srv_store srv) (w_db w)"
    and "\<forall>(u, y) \<in> entries (w_cache w). hashed_resp (srv_store srv) y"
  shows "content_ok (srv_store srv) (w_db w') \<and> (\<forall>(u, y) \<in> entries (w_cache w'). hashed_resp (srv_store srv) y)"
  using assms(2-)
proof (induction rs arbitrary: w xs)
  case (Cons q rs)
  obtain c e r where q: "q = (c, e, r)" by (cases q)
  obtain x w1 where d: "dispatch srv c e r w = (x, w1)" by fastforce
  with Cons.prems(2) q obtain ys where ys: "serve_all srv w1 rs = (ys, w')"
    by (auto simp: Let_def split: prod.splits)
  have "env_ok (srv_store srv) e" using Cons.prems(1) q by simp
  from Cons.IH [OF _ ys dispatch_content [OF d Cons.prems(3) this] dispatch_hashed [OF assms(1) Cons.prems(4) d Cons.prems(3)]]
    Cons.prems(1) show ?case by simp
qed simp

end

text \<open>C5: whatever the cache does within its interface (in process, Redis or none), and whatever was
  published or cached before, a \<open>GetPrompt\<close> that replies, for the head or for a pinned version, hands
  out a valid prompt of the URI asked for; and on a database that the store wrote, its version hash is
  that of the template and the slots handed out.\<close>

theorem only_valid_prompts_served:
  assumes "l2_cache ops entries" and "srv_cache srv = ops" and "entries k = {}"
    and "serve_all srv (boot d k) rs = (xs, w)" and "GetPrompt srv c e uri ref w = (Reply y, w')"
  shows "g_Uri y = uri \<and> validate_Prompt (g_Uri y) (g_Template y) (g_Slots y) = None
    \<and> (written (srv_store srv) d \<and> (\<forall>(c, e, r) \<in> set rs. env_ok (srv_store srv) e)
        \<longrightarrow> g_VersionHash y = Hash (sha (srv_store srv)) (g_Template y) (g_Slots y))"
proof -
  have "\<forall>(u, y) \<in> entries (w_cache w). valid_resp u y"
    using l2_cache.serve_all_valid [OF assms(1,2) _ assms(4)] assms(3) by simp
  then have "valid_resp uri y"
    using GetPrompt_valid [OF _ assms(5)] l2_cache.get_entry [OF assms(1)] assms(2) by blast
  then have v: "g_Uri y = uri" "validate_Prompt (g_Uri y) (g_Template y) (g_Slots y) = None"
    by (auto simp: valid_resp_def validate_None_iff)
  have "hashed_resp (srv_store srv) y"
    if "written (srv_store srv) d" and "\<forall>(c, e, r) \<in> set rs. env_ok (srv_store srv) e"
  proof -
    from l2_cache.serve_all_hashed [OF assms(1,2) that(2) assms(4)] written_content [OF that(1)] assms(3)
    have h: "content_ok (srv_store srv) (w_db w)" "\<forall>(u, y) \<in> entries (w_cache w). hashed_resp (srv_store srv) y"
      by simp_all
    show ?thesis
      using h(2) l2_cache.get_entry [OF assms(1)] assms(2) by (intro GetPrompt_hashed [OF h(1) assms(5)]) blast
  qed
  with v show ?thesis by (simp add: hashed_resp_def)
qed

theorem only_valid_prompts_served_witness:
  "g_VersionHash demo_resp = Hash demo_sha (g_Template demo_resp) (g_Slots demo_resp)"
proof -
  let ?srv = "demo_srv (redis_ops (ref_redis (\<lambda>_. True)) ref_marshal ref_unmarshal 0)"
  have "CGet (srv_cache ?srv) (now calm) demo_uri [] = None"
    by (simp add: redis_ops_def redis_Get_def ref_redis_def)
  then obtain w' where g: "GetPrompt ?srv no_ctx calm demo_uri [] (boot demo_db []) = (Reply demo_resp, w')"
    using GetPrompt_head [of ?srv calm demo_uri "boot demo_db []" no_ctx demo_resp] demo_head by auto
  have "written demo demo_db"
  proof (rule written_step [OF written_start])
    show "apply_op demo calm (OpCommit demo_uri ''main'' ''Hi {n}'' [''n''] ''acme'' ''first'') empty_db = (None, demo_db)"
      by (simp add: demo_commit err_of_def)
  qed simp_all
  with only_valid_prompts_served [OF ref_redis.redis_l2 demo_srv_simps(2) _ serve_all.simps(1) g] show ?thesis
    by (auto simp: ref_redis.entries_def ref_redis.timed_def ref_stored_def sha_demo)
qed

subsection \<open>Publishing and reading back\<close>

text \<open>A served row with its content is what the head stands for.\<close>

lemma head_resp_content:
  assumes "map_of (prompts d) uri = Some row" and "served_content s row t sl"
  shows "head_resp s d uri = Some \<lparr>g_Uri = uri, g_Template = t, g_Slots = sl,
    g_VersionHash = Hash (sha s) t sl, g_CommitHash = []\<rparr>"
  using assms by (simp add: head_resp_def served_content_def)

text \<open>What is served is plain text whose hash input is among the messages considered.\<close>

lemma served_plain:
  assumes "synced s M d" and "map_of (prompts d) uri = Some row"
  obtains t sl where "served_content s row t sl" "plain t sl" "hash_input t sl \<in> M"
proof -
  obtain h r t sl where "map_of (refs d) (uri, DefaultBranch) = Some h"
    and rp: "commit_row_of d h = Some r" "row_content s r t sl" "served_content s row t sl"
    by (rule head_of_run [OF assms])
  then have "r \<in> set (commits d)" by (auto simp: commit_row_of_def dest: find_Some_in)
  with assms(1) rp(2) have "plain t sl" "hash_input t sl \<in> M"
    by (auto simp: synced_def hashed_ok_def commit_msgs_def)
  with rp(3) show thesis by (rule that)
qed

lemma slots_plain:
  assumes "validate_Prompt uri t sl = None" and "CHR 0x00 \<notin> set t"
  shows "plain t sl"
proof -
  have "\<not> is_word (CHR 0x00)" by (simp add: is_word_def)
  then have "slot_name x \<Longrightarrow> x \<noteq> [] \<and> CHR 0x00 \<notin> set x" for x
    by (auto simp: slot_name_def list_all_iff)
  moreover have "\<forall>x \<in> set sl. slot_name x" using assms(1) by (simp add: validate_None_iff well_formed_def)
  ultimately have "\<forall>x \<in> set sl. x \<noteq> [] \<and> CHR 0x00 \<notin> set x" by meson
  with assms(2) show ?thesis unfolding plain_def by (rule conjI)
qed

text \<open>A successful publish on \<open>main\<close> leaves the published content in the served row.\<close>

lemma Publish_main:
  assumes "PublishPrompt srv c e uri t sl m branch w = (Reply h, w')" and "branchOr branch = DefaultBranch"
    and "synced s M (w_db w)" and "inj_on (sha s) M" and "env_ok s e" and "srv_store srv = s"
    and "hash_input t sl \<in> M" and "CHR 0x00 \<notin> set t"
  shows "head_resp s (w_db w') uri = Some \<lparr>g_Uri = uri, g_Template = t, g_Slots = sl,
      g_VersionHash = h, g_CommitHash = []\<rparr> \<and> h = Hash (sha s) t sl \<and> validate_Prompt uri t sl = None"
  using assms(1)
proof (cases rule: Publish_cases)
  case (same prev)
  from same(4) obtain row where row: "map_of (prompts (w_db w)) uri = Some row"
    by (auto simp: Get_def rbind_eq_Inr of_option_def split: if_splits option.splits)
  from served_plain [OF assms(3) this] obtain t' sl' where
    old: "served_content s row t' sl'" "plain t' sl'" "hash_input t' sl' \<in> M" by blast
  have prev: "VersionHash prev = Hash (sha s) t' sl'"
    using head_resp_content [OF row old(1)] Get_head_resp [OF same(4), unfolded assms(6), THEN conjunct1]
    by (metis get_resp.select_convs(4) option.inject)
  have "Hash (sha s) t' sl' = Hash (sha s) t sl" using same(5) unfolding prev assms(6) .
  then have "sha s (hash_input t' sl') = sha s (hash_input t sl)"
    unfolding Hash_alt by (rule EncodeToString_inj [THEN iffD1])
  then have "hash_input t' sl' = hash_input t sl" using assms(4,7) old(3) by (meson inj_onD)
  then have "t' = t \<and> sl' = sl" by (rule hash_input_inj [OF old(2) slots_plain [OF same(6) assms(8)]])
  with head_resp_content [OF row old(1)] same assms(6) show ?thesis by simp
next
  case (stored k cls d)
  have "map_of (prompts d) uri = Some (served_row s e t sl (Hash (sha s) t sl))"
    using stored(5) by (cases rule: Commit_cases) (simp_all add: assms(2,6) DefaultBranch_def)
  moreover have "served_content s (served_row s e t sl (Hash (sha s) t sl)) t sl"
    by (rule served_content_new [OF assms(5) slots_utf8 [OF stored(4)] refl])
  ultimately show ?thesis using head_resp_content stored(1,4,6) assms(6) by simp
qed simp_all



end
