(* ===== verification/ServerSafe.thy ===== *)
theory ServerSafe
  imports ServerProps Embedders
begin

text \<open>
  Panics, notifications and staleness: no handler panics as long as the embedder answers with a
  vector; who is told of a new head, and who is not; and how long a cached response may be stale
  when the cache misses invalidations.
\<close>

subsection \<open>Panics\<close>

text \<open>An embedder that never answers a text with nothing.\<close>

definition answers_all :: "embedder \<Rightarrow> bool" where
  "answers_all emb \<longleftrightarrow> (\<forall>calls t. Embed emb calls [t] \<noteq> Inr [])"

lemma deltaText_safe: "answers_all emb \<Longrightarrow> deltaText emb a b st = (x, st') \<Longrightarrow> x \<noteq> Inl IndexPanic"
  by (auto simp: deltaText_def embedOne_def answers_all_def Let_def
      split: if_splits prod.splits sum.splits option.splits list.splits)

lemma expand_loop_safe:
  assumes "expand_loop emb w prev r curve st = Some (x, st')" and "answers_all emb"
  shows "x \<noteq> Inl IndexPanic"
proof -
  have "fst y \<noteq> Inl IndexPanic" if "expand_loop emb w prev r curve st = Some y" "answers_all emb" for y
    using that
  proof (induction rule: expand_loop.raw_induct [rotated, consumes 1])
    case (1 f emb w prev r curve st y)
    obtain oldT newT b where w: "w r = (oldT, newT, b)" by (cases "w r") auto
    obtain x st1 where dt: "deltaText emb oldT newT st = (x, st1)" by fastforce
    show ?case
    proof (cases x)
      case (Inl e)
      with 1(2) w dt have "y = (Inl e, st1)" by simp
      with dt Inl deltaText_safe [OF 1(3) dt] show ?thesis by simp
    next
      case (Inr delta)
      let ?x = "\<lparr>Radius = r, Delta = delta\<rparr>"
      show ?thesis
      proof (cases "abs (fsub delta prev) < flattenEps \<or> b")
        case True
        with 1(2) w dt Inr show ?thesis by (auto simp: Let_def split: if_splits)
      next
        case False
        with 1(2) w dt Inr have "f emb w delta (r + 2) (curve @ [?x]) st1 = Some y" by (simp add: Let_def)
        from 1(1) [OF this 1(3)] show ?thesis .
      qed
    qed
  qed
  from this [OF assms] show ?thesis by simp
qed

lemma analyzeChange_safe:
  "answers_all emb \<Longrightarrow> analyzeChange emb old new ch pf st = Some (x, st') \<Longrightarrow> x \<noteq> Inl IndexPanic"
  by (auto simp: analyzeChange_def expand_def split: prod.splits sum.splits option.splits
      dest: deltaText_safe expand_loop_safe)

lemma analyze_all_safe:
  "answers_all emb \<Longrightarrow> analyze_all emb old new pf chs st = Some (x, st') \<Longrightarrow> x \<noteq> Inl IndexPanic"
proof (induction chs arbitrary: st x st')
  case (Cons ch chs)
  then show ?case
    by (auto split: option.splits prod.splits sum.splits dest: analyzeChange_safe)
qed auto

lemma run_diff_safe:
  assumes "answers_all emb" and "run_diff emb a b w = (x, w')"
  shows "x \<noteq> Inl IndexPanic"
proof -
  obtain y st where "Analyze emb (w_calls w) (splitLines a) (splitLines b) = Some (y, st)"
    using Analyze_returns by blast
  then have "y \<noteq> Inl IndexPanic" "x = y"
    using analyze_all_safe [OF assms(1)] assms(2) by (auto simp: Analyze_def run_diff_def)
  then show ?thesis by simp
qed

text \<open>A server whose diffs do not panic: no embedder is enough for the publishing paths.\<close>

definition safe_server :: "'c server \<Rightarrow> bool" where
  "safe_server srv \<longleftrightarrow> (\<exists>emb. srv_embedder srv = Some emb \<and> answers_all emb)"

lemma classify_edit_safe: "safe_server srv \<Longrightarrow> classify_edit srv a b w = (x, w') \<Longrightarrow> x \<noteq> None"
  by (auto simp: safe_server_def classify_edit_def split: if_splits prod.splits sum.splits diff_err.splits
      dest: run_diff_safe)

lemma diff_templates_safe: "safe_server srv \<Longrightarrow> fst (diff_templates srv a b w) \<noteq> Panic"
  by (auto simp: safe_server_def diff_templates_def split: prod.splits sum.splits diff_err.splits
      dest: run_diff_safe)

lemma judge_prev_safe: "safe_server srv \<Longrightarrow> judge_prev srv e uri t h w = (x, w') \<Longrightarrow> x \<noteq> Panicked"
  by (auto simp: judge_prev_def split: if_splits prod.splits sum.splits option.splits dest: classify_edit_safe)

lemma guard_safe: "(\<And>w. fst (k w) \<noteq> Panic) \<Longrightarrow> fst (guard g k w) \<noteq> Panic"
  by (auto simp: guard_def split: option.splits)

lemma map_reply_Panic [simp]: "map_reply f x = Panic \<longleftrightarrow> x = Panic"
  by (cases x) simp_all

lemma Publish_safe: "safe_server srv \<Longrightarrow> fst (PublishPrompt srv c e uri t sl m b w) \<noteq> Panic"
  unfolding PublishPrompt_def
  by (intro guard_safe)
    (auto simp: Let_def split: prod.splits sum.splits prev_verdict.splits if_splits dest: judge_prev_safe)

lemma SetBranch_safe: "safe_server srv \<Longrightarrow> fst (SetBranchRpc srv c e uri b h w) \<noteq> Panic"
  unfolding SetBranchRpc_def
  by (intro guard_safe)
    (auto simp: Let_def split: prod.splits sum.splits option.splits if_splits dest: classify_edit_safe)

text \<open>\<open>CreateBranch\<close> indexes the log of the branch it made, which is not empty.\<close>

lemma Log_nonempty:
  assumes "wf_db d" and "Log s e d uri branch = Some (Inr cs)"
  shows "cs \<noteq> []"
proof -
  from assms(2) obtain h where h: "tip e d uri branch = Inr h" "mainline s e d h cs" by (auto simp: Log_iff)
  then have "h \<in> hashes (commits d)"
    using assms(1) refs_ok_tip by (auto simp: wf_db_def tip_def split: if_splits)
  moreover have "[] \<notin> hashes (commits d)"
    using assms(1) rows_ok_split(1) by (fastforce simp: wf_db_def dest!: split_list)
  ultimately have "h \<noteq> []" by metis
  with h(2) show ?thesis by (cases cs) simp_all
qed

lemma Branch_wf:
  assumes "wf_db d" and "Branch e uri name src d = (Inr u, d')"
  shows "wf_db d'"
proof (rule apply_op_wf)
  show "apply_op demo e (OpBranch uri name src) d = (None, d')" by (simp add: err_of_def assms(2))
qed (simp_all add: assms(1))

lemma run_log_safe: "wf_db (w_db w) \<Longrightarrow> run_log srv e uri b w \<noteq> Inr []"
  using Log_returns [of "w_db w" "srv_store srv" e uri b] Log_nonempty [of "w_db w" "srv_store srv" e uri b]
  by (auto simp: run_log_def)

lemma branchErr_safe [simp]: "branchErr er \<noteq> Panic"
  by (simp add: branchErr_def)

lemma Create_safe:
  assumes "wf_db (w_db w)"
  shows "fst (CreateBranch srv c e uri name src w) \<noteq> Panic"
proof -
  obtain y d where br: "Branch e uri name (branchOr src) (w_db w) = (y, d)" by fastforce
  have "fst (case y of Inl er \<Rightarrow> (branchErr er, w\<lparr>w_db := d\<rparr>)
     | Inr u \<Rightarrow> (case run_log srv e uri name (w\<lparr>w_db := d\<rparr>) of Inl er \<Rightarrow> branchErr er | Inr [] \<Rightarrow> Panic
               | Inr (k # ks) \<Rightarrow> Reply (c_Hash k), w\<lparr>w_db := d\<rparr>)) \<noteq> Panic"
  proof (cases y)
    case (Inr u)
    with assms br have "wf_db (w_db (w\<lparr>w_db := d\<rparr>))" by (simp add: Branch_wf)
    from run_log_safe [OF this, of srv e uri name] Inr show ?thesis
      by (simp split: sum.splits list.splits)
  qed simp
  then show ?thesis unfolding CreateBranch_def guard_def br prod.case Let_def by (simp split: option.splits)
qed

lemma other_safe:
  "fst (GetPrompt srv c e uri ref w) \<noteq> Panic" "fst (ListPrompts srv c e pre w) \<noteq> Panic"
  "fst (History srv c e uri b w) \<noteq> Panic" "fst (MergeBranch srv c e uri into src m w) \<noteq> Panic"
  unfolding GetPrompt_def ListPrompts_def History_def MergeBranch_def
  by (intro guard_safe;
      simp add: getByRef_def Let_def split: prod.splits sum.splits option.splits)+

lemma diff_safe:
  assumes "safe_server srv"
  shows "fst (DiffPrompt srv c e uri t w) \<noteq> Panic" "fst (DiffCommits srv c e uri a b w) \<noteq> Panic"
  unfolding DiffPrompt_def DiffCommits_def
  by (intro guard_safe; simp add: diffCommitErr_def diff_templates_safe [OF assms] split: sum.splits)+



subsection \<open>Who is told\<close>

lemma SetBranchRpc_cases:
  assumes "SetBranchRpc srv c e uri branch h w = (x, w')"
  obtains (stopped) "idle w w'"
    | (moved) k d where "SetBranch (srv_store srv) e uri (branchOr branch) h (w_db w) = (Inr k, d)" "w_db w' = d"
        "x = Panic \<and> w_notes w' = w_notes w \<or> (\<exists>cls. w_notes w' = (if branchOr branch = DefaultBranch \<and> srv_notifier srv
           then w_notes w @ [(uri, c_VersionHash k, cls)] else w_notes w))"
  using assms unfolding SetBranchRpc_def
proof (elim guard_cases)
  define b where "b = branchOr branch"
  define prevT where "prevT = (if b = DefaultBranch
      then (case Get (srv_store srv) e (w_db w) uri of Inr prev \<Rightarrow> Template prev | Inl _ \<Rightarrow> []) else [])"
  obtain y d where s: "SetBranch (srv_store srv) e uri b h (w_db w) = (y, d)" by fastforce
  assume run: "(let b = branchOr branch;
          prevT = if b = DefaultBranch
            then case Get (srv_store srv) e (w_db w) uri of Inr prev \<Rightarrow> Template prev | Inl _ \<Rightarrow> [] else []
       in case SetBranch (srv_store srv) e uri b h (w_db w) of
          (Inl er, d) \<Rightarrow>
            (if er = ErrNotFound then Fail NotFound (Fmt ''commit %q not found for %q'' [h, uri])
             else Fail Internal (FmtStore ''set branch failed: %v'' er), w\<lparr>w_db := d\<rparr>)
        | (Inr k, d) \<Rightarrow>
            let w1 = w\<lparr>w_db := d\<rparr>
            in if b \<noteq> DefaultBranch then (Reply (c_VersionHash k), w1)
               else let w2 = invalidate srv e uri w1
                    in if \<not> srv_notifier srv then (Reply (c_VersionHash k), w2)
                       else case classify_edit srv prevT (c_Template k) w2 of
                              (None, w3) \<Rightarrow> (Panic, w3)
                            | (Some class, w3) \<Rightarrow>
                                (Reply (c_VersionHash k), notify srv uri (c_VersionHash k) class w3)) = (x, w')"
  note run = run [folded b_def, unfolded Let_def, folded prevT_def]
  show ?thesis
  proof (cases y)
    case (Inl er)
    with s failed_frames(3) have "d = w_db w" by metis
    with run s Inl have "idle w w'" by (auto simp: idle_def)
    then show ?thesis by (rule stopped)
  next
    case (Inr k)
    obtain v w3 where cl: "classify_edit srv prevT (c_Template k) (invalidate srv e uri (w\<lparr>w_db := d\<rparr>)) = (v, w3)"
      by fastforce
    note fr = classify_edit_frame [OF cl]
    have "w_db w' = d \<and> (x = Panic \<and> w_notes w' = w_notes w \<or> (\<exists>cls. w_notes w' =
        (if b = DefaultBranch \<and> srv_notifier srv then w_notes w @ [(uri, c_VersionHash k, cls)] else w_notes w)))"
      using run s Inr cl fr by (auto simp: notify_def split: if_splits option.splits)
    then show ?thesis using s Inr unfolding b_def by (intro moved [of k d]) simp_all
  qed
qed (simp_all add: idle_def stopped)

lemma Create_notes: "w_notes (snd (CreateBranch srv c e uri n src w)) = w_notes w"
  by (simp add: CreateBranch_def guard_def Let_def split: option.splits prod.splits sum.splits)

lemma Merge_notes: "w_notes (snd (MergeBranch srv c e uri into src m w)) = w_notes w"
  by (simp add: MergeBranch_def guard_def Let_def split: option.splits prod.splits sum.splits)

text \<open>The version hash in the served row.\<close>

definition head_version :: "db \<Rightarrow> string \<Rightarrow> string option" where
  "head_version d uri = map_option pr_vhash (map_of (prompts d) uri)"

text \<open>The requests whose change of a served row is published.\<close>

fun published :: "request \<Rightarrow> bool" where
  "published (PublishPromptRequest uri t sl m branch) = (branchOr branch = DefaultBranch)"
| "published (SetBranchRequest uri branch h) = (branchOr branch = DefaultBranch)"
| "published _ = False"

lemma published_notes:
  assumes "dispatch srv c e r w = (x, w')" and "published r" and "x \<noteq> Panic" and "srv_notifier srv"
  shows "idle w w' \<or> (\<exists>v cls. head_version (w_db w') (uriOf r) = Some v \<and> w_notes w' = w_notes w @ [(uriOf r, v, cls)])"
proof (cases r)
  case (PublishPromptRequest uri t sl m branch)
  obtain y where y: "PublishPrompt srv c e uri t sl m branch w = (y, w')"
    using assms(1) PublishPromptRequest by (metis dispatch.simps(1) reply_simps(2) prod.collapse snd_conv)
  then show ?thesis
  proof (cases rule: Publish_cases)
    case (stored h cls d)
    from stored(5) have "head_version d uri = Some (Hash (sha (srv_store srv)) t sl)"
      by (cases rule: Commit_cases) (use assms(2) PublishPromptRequest in \<open>simp_all add: head_version_def\<close>)
    with stored assms(2,4) PublishPromptRequest show ?thesis by auto
  qed (simp_all add: idle_def)
next
  case (SetBranchRequest uri branch h)
  obtain y where y: "SetBranchRpc srv c e uri branch h w = (y, w')"
    using assms(1) SetBranchRequest by (metis dispatch.simps(9) reply_simps(2) prod.collapse snd_conv)
  then have "y \<noteq> Panic" using assms(1,3) SetBranchRequest by (auto simp: reply_def)
  from y show ?thesis
  proof (cases rule: SetBranchRpc_cases)
    case (moved k d)
    from moved(1) have "head_version d uri = Some (c_VersionHash k)"
      by (cases rule: SetBranch_cases) (use assms(2) SetBranchRequest in \<open>simp_all add: head_version_def\<close>)
    with moved \<open>y \<noteq> Panic\<close> assms(2,4) SetBranchRequest show ?thesis by auto
  qed simp
qed (use assms(2) in simp_all)

lemma unpublished_notes:
  assumes "\<not> published r"
  shows "w_notes (snd (dispatch srv c e r w)) = w_notes w"
proof (cases "writes r")
  case True
  show ?thesis
  proof (cases r)
    case (PublishPromptRequest uri t sl m branch)
    obtain y w' where y: "PublishPrompt srv c e uri t sl m branch w = (y, w')" by fastforce
    then have "w_notes w' = w_notes w"
      by (cases rule: Publish_cases) (use assms PublishPromptRequest in \<open>simp_all add: idle_def\<close>)
    with y PublishPromptRequest show ?thesis by simp
  next
    case (SetBranchRequest uri branch h)
    obtain y w' where y: "SetBranchRpc srv c e uri branch h w = (y, w')" by fastforce
    then have "w_notes w' = w_notes w"
      by (cases rule: SetBranchRpc_cases) (use assms SetBranchRequest in \<open>auto simp: idle_def\<close>)
    with y SetBranchRequest show ?thesis by simp
  qed (use True in \<open>simp_all add: Create_notes Merge_notes\<close>)
qed (rule read_notes)

text \<open>C35: subscribers are told what they can fetch: a request publishes at most one notification,
  and that names the prompt it was about and the version hash the head of this prompt has now. A
  publish or a rollback on \<open>main\<close> that changes anything publishes one; no other request does.\<close>

theorem notifications_name_the_new_head:
  assumes "dispatch srv c e r w = (x, w')" and "x \<noteq> Panic" and "srv_notifier srv"
  shows "(w_notes w' = w_notes w \<or>
      (\<exists>v cls. w_notes w' = w_notes w @ [(uriOf r, v, cls)] \<and> head_version (w_db w') (uriOf r) = Some v))
    \<and> (w_notes w' \<noteq> w_notes w \<longleftrightarrow> published r \<and> \<not> idle w w')"
  using published_notes [OF assms(1) _ assms(2,3)] unpublished_notes [of r srv c e w] assms(1)
  by (cases "published r") (auto simp: idle_def)

theorem notifications_name_the_new_head_witness:
  "\<exists>w' v cls. dispatch (demo_srv (ttl_ops 5)) no_ctx calm (SetBranchRequest demo_uri [] demo_hash) (boot demo_db [])
      = (Reply (SetBranchResponse (Hash demo_sha ''Hi {n}'' [''n''])), w')
    \<and> w_notes w' = [(demo_uri, v, cls)] \<and> head_version (w_db w') demo_uri = Some v"
proof -
  let ?r = "SetBranchRequest demo_uri [] demo_hash" and ?srv = "demo_srv (ttl_ops 5)"
  obtain d where "SetBranch demo calm demo_uri ''main'' demo_hash demo_db = (Inr
    \<lparr>c_Hash = demo_hash, c_URI = demo_uri, c_Template = ''Hi {n}'', c_Slots = [''n''],
     c_VersionHash = Hash demo_sha ''Hi {n}'' [''n''], c_Parent = [], c_Parent2 = [],
     c_Author = ''acme'', c_Message = ''first'', c_CreatedAt = 0\<rparr>, d)"
    by (simp add: SetBranch_def demo_GetCommit transaction_def stmt_def DefaultBranch_def)
  moreover have "demo_hash \<noteq> []" by (simp add: demo_hash_def commit_hash_nonempty)
  ultimately have d: "\<exists>w'. dispatch ?srv no_ctx calm ?r (boot demo_db []) = (Reply (SetBranchResponse (Hash demo_sha ''Hi {n}'' [''n''])), w')
      \<and> w_notes w' \<noteq> []"
    by (simp add: SetBranchRpc_def branchOr_def DefaultBranch_def classify_edit_def reply_def notify_def)
  then obtain w' where w': "dispatch ?srv no_ctx calm ?r (boot demo_db []) = (Reply (SetBranchResponse (Hash demo_sha ''Hi {n}'' [''n''])), w')"
    "w_notes w' \<noteq> []" by blast
  from notifications_name_the_new_head [OF w'(1)] w'(2) show ?thesis using w'(1) by auto
qed

text \<open>A merge into \<open>main\<close> changes what is served, but subscribers hear nothing of it.\<close>

theorem merge_is_silent:
  assumes "MergeBranch srv c e uri into src m w = (Reply h, w')" and "branchOr into = ''main''"
  shows "w_notes w' = w_notes w \<and> (\<exists>src_hash k. map_of (refs (w_db w)) (uri, src) = Some src_hash
    \<and> GetCommit (srv_store srv) e (w_db w) src_hash = Inr k
    \<and> head_version (w_db w') uri = Some (Hash (sha (srv_store srv)) (c_Template k) (c_Slots k)))"
proof -
  from assms obtain h' where "Merge (srv_store srv) e uri ''main'' src (scopeOf c) m (w_db w) = (Inr h', w_db w')"
    by (auto simp: MergeBranch_def guard_def branchErr_def Let_def split: option.splits prod.splits sum.splits if_splits)
  then show ?thesis
  proof (cases rule: Merge_cases)
    case (succeeded dst src_hash k msg)
    then have "head_version (w_db w') uri = Some (Hash (sha (srv_store srv)) (c_Template k) (c_Slots k))"
      by (simp add: head_version_def DefaultBranch_def)
    with succeeded Merge_notes [of srv c e uri into src m w] assms(1) show ?thesis by auto
  qed simp
qed

theorem merge_is_silent_witness:
  "\<exists>h w'. MergeBranch (demo_srv (ttl_ops 5)) no_ctx calm demo_uri [] ''dev'' [] (boot demo_dev []) = (Reply h, w')
     \<and> w_notes w' = [] \<and> head_version (w_db w') demo_uri = Some (Hash demo_sha ''Hi {n}'' [''n''])"
proof -
  obtain x w' where m: "MergeBranch (demo_srv (ttl_ops 5)) no_ctx calm demo_uri [] ''dev'' [] (boot demo_dev []) = (x, w')"
    by fastforce
  then obtain h where h: "x = Reply h"
    by (auto simp: MergeBranch_def Merge_def tip_def demo_dev_refs demo_dev_GetCommit demo_GetCommit commitTx_def Let_def
        transaction_def stmt_def DefaultBranch_def branchOr_def)
  from merge_is_silent [OF m [unfolded h]] m h show ?thesis
    by (auto simp: branchOr_def DefaultBranch_def demo_dev_refs demo_dev_GetCommit demo_GetCommit sha_demo)
qed

subsection \<open>How stale\<close>

context redis_with_ttl
begin

lemma expiring: "expiring_cache (redis_ops rdb marshal unmarshal ttl) timed ttl"
  by unfold_locales

end

text \<open>C40: the time to live bounds staleness. A node shares its database with other nodes, whose writes
  its cache hears nothing of, and its cache (the in-process one, or a Redis that may lose any command)
  does no more than let entries expire \<open>ttl\<close> after they were put. Once \<open>ttl\<close> has passed since the last
  change of the served row of a prompt, whoever made it, a read of it that the database answers is
  answered as without a cache, however often and when the prompt was read before.\<close>

theorem ttl_bounds_staleness:
  assumes "expiring_cache ops timed ttl" and "srv_cache srv = ops" and "timed k = {}"
    and "node srv k uri T t w" and "T + ttl < now e" and "\<not> fails e (QPrompt uri)"
  shows "GetPrompt (uncached srv) c e uri [] (forget w) = apsnd forget (GetPrompt srv c e uri [] w)"
  using expiring_cache.node_converges [OF assms(1,4,2,3,5,6)] .

theorem ttl_bounds_staleness_witness:
  "let srv = demo_srv (redis_ops (ref_redis (\<lambda>t. t < 5)) ref_marshal ref_unmarshal 30);
       w = snd (GetPrompt srv no_ctx calm demo_uri [] (boot demo_db []))
   in fst (GetPrompt srv no_ctx (calm\<lparr>now := 42\<rparr>) demo_uri [] (w\<lparr>w_db := empty_db\<rparr>))
      = Fail NotFound (Fmt ''prompt %q not found'' [demo_uri])"
proof -
  define srv where "srv = demo_srv (redis_ops (ref_redis (\<lambda>t. t < 5)) ref_marshal ref_unmarshal 30)"
  define w where "w = snd (GetPrompt srv no_ctx calm demo_uri [] (boot demo_db []))"
  define w2 where "w2 = w\<lparr>w_db := empty_db\<rparr>"
  have srv: "srv_cache srv = redis_ops (ref_redis (\<lambda>t. t < 5)) ref_marshal ref_unmarshal 30" "srv_store srv = demo"
    by (simp_all add: srv_def)
  have "node srv [] demo_uri 0 0 (boot demo_db [])" by (rule node_start)
  from node_request [OF this _ surjective_pairing refl, of calm no_ctx "GetPromptRequest demo_uri []"]
  obtain T where "node srv [] demo_uri T 0 w" by (auto simp: w_def calm_def)
  from node_other [OF this _ refl, of 11 empty_db] obtain T' where n: "node srv [] demo_uri T' 11 w2"
    by (auto simp: w2_def)
  then have "T' \<le> 11" by (rule node_bound)
  have "redis_with_ttl (ref_redis (\<lambda>t. t < 5)) ref_stored ref_marshal ref_unmarshal 30"
    using ref_redis.redis_backend_axioms by (simp add: redis_with_ttl_def redis_with_ttl_axioms_def)
  note expiring = redis_with_ttl.expiring [OF this]
  have "fst (GetPrompt (uncached srv) no_ctx (calm\<lparr>now := 42\<rparr>) demo_uri [] (forget w2))
      = fst (GetPrompt srv no_ctx (calm\<lparr>now := 42\<rparr>) demo_uri [] w2)"
    using ttl_bounds_staleness [OF expiring srv(1) _ n, of "calm\<lparr>now := 42\<rparr>" no_ctx] \<open>T' \<le> 11\<close>
    by (simp add: ref_redis.timed_def ref_stored_def)
  moreover have "fst (GetPrompt (uncached srv) no_ctx (calm\<lparr>now := 42\<rparr>) demo_uri [] (forget w2))
      = Fail NotFound (Fmt ''prompt %q not found'' [demo_uri])"
    by (simp add: GetPrompt_def nil_ops_def srv w2_def Get_def empty_db_def)
  ultimately show ?thesis by (simp add: srv_def w_def w2_def)
qed

end
