(* ===== verification/ServerOrgs.thy ===== *)
theory ServerOrgs
  imports ServerProps Embedders
begin

text \<open>
  Listing by prefix, and the borders between organizations: what \<open>LIKE\<close> with an escaped prefix
  matches, which requests a scoped token may make, and two requests whose answers cross the border.
\<close>

subsection \<open>Escaped prefixes\<close>

text \<open>\<open>u\<close> starts with \<open>pre\<close>, as the engine compares characters.\<close>

definition starts_with :: "driver \<Rightarrow> string \<Rightarrow> string \<Rightarrow> bool" where
  "starts_with dr pre u \<longleftrightarrow> list_all2 (like_char dr) pre (take (length pre) u)"

lemma like_percent: "sql_like dr ''%'' s"
  by (induction s) (simp_all add: sql_like.simps(2) backslash_def)

lemma starts_with_simps [simp]:
  "starts_with dr [] u" "\<not> starts_with dr (c # pre) []"
  "starts_with dr (c # pre) (d # u) \<longleftrightarrow> like_char dr c d \<and> starts_with dr pre u"
  by (simp_all add: starts_with_def)

lemma like_escaped: "sql_like dr (escapeLike pre @ ''%'') u \<longleftrightarrow> starts_with dr pre u"
proof (induction pre arbitrary: u)
  case Nil
  then show ?case using like_percent by (simp add: escapeLike_def)
next
  case (Cons c pre)
  show ?case
  proof (cases u)
    case Nil
    then show ?thesis by (simp add: escapeLike_def sql_like.simps(2) backslash_def)
  next
    case (Cons d v)
    with Cons.IH [of v] show ?thesis
      by (simp add: escapeLike_def sql_like.simps(2) backslash_def)
  qed
qed

lemma like_char_refl [simp]: "like_char dr c c"
  by (simp add: like_char_def split: driver.splits)

lemma starts_with_append [simp]: "starts_with dr pre (pre @ u)"
  by (simp add: starts_with_def list_all2_same)

lemma starts_with_Pgx: "starts_with Pgx pre u \<longleftrightarrow> (\<exists>v. u = pre @ v)"
  by (induction pre arbitrary: u) (case_tac [2] u, auto simp: like_char_def)

lemma starts_with_Sqlite: "starts_with Sqlite pre u \<longleftrightarrow> map ascii_lower pre = map ascii_lower (take (length pre) u)"
proof -
  have "like_char Sqlite = (\<lambda>x y. ascii_lower x = ascii_lower y)" by (intro ext) (simp add: like_char_def)
  then show ?thesis
    unfolding starts_with_def by (subst list.rel_eq [symmetric], unfold list.rel_map) simp
qed

subsection \<open>Listing\<close>

lemma List_rows:
  assumes "\<not> fails e QList"
  obtains ps where "Store.List s e d pre = Inr ps"
    "set (map (\<lambda>p. (URI p, VersionHash p)) ps) = {(u, pr_vhash row) |u row. (u, row) \<in> set (prompts d) \<and> starts_with (st_driver s) pre u}"
    "sorted (map (order_key s) (map URI ps))" "length ps = length (filter (\<lambda>(u, row). starts_with (st_driver s) pre u) (prompts d))"
proof -
  let ?rows = "filter (\<lambda>(u, row). starts_with (st_driver s) pre u) (prompts d)"
  let ?out = "map (\<lambda>(u, row). \<lparr>URI = u, Template = [], Slots = [], VersionHash = pr_vhash row\<rparr>)
    (sort_key (\<lambda>(u, row). order_key s u) ?rows)"
  have "Store.List s e d pre = Inr ?out" using assms by (simp add: List_def like_escaped)
  moreover have "set (map (\<lambda>p. (URI p, VersionHash p)) ?out)
      = {(u, pr_vhash row) |u row. (u, row) \<in> set (prompts d) \<and> starts_with (st_driver s) pre u}"
    by (force simp: image_image case_prod_unfold)
  moreover have "map (order_key s) (map URI ?out) = map (\<lambda>(u, row). order_key s u) (sort_key (\<lambda>(u, row). order_key s u) ?rows)"
    by (simp add: case_prod_unfold comp_def)
  then have "sorted (map (order_key s) (map URI ?out))" by (metis sorted_sort_key)
  moreover have "length ?out = length ?rows" by simp
  ultimately show thesis by (rule that)
qed

text \<open>\<open>ListPrompts\<close> is a prefix search: its reply names exactly the prompts whose URI starts with
  the prefix, wildcards in it taken literally, each once with its version hash, in the engine's
  order. PostgreSQL compares exactly; SQLite ignores the case of letters.\<close>

theorem list_is_prefix_search:
  assumes "authorize c pre = None" and "\<not> fails e QList" and "distinct (map fst (prompts (w_db w)))"
  shows "\<exists>es. ListPrompts srv c e pre w = (Reply es, w) \<and> distinct (map fst es)
    \<and> sorted (map (order_key (srv_store srv)) (map fst es))
    \<and> set es = {(u, pr_vhash row) |u row. map_of (prompts (w_db w)) u = Some row
        \<and> (case st_driver (srv_store srv) of Pgx \<Rightarrow> \<exists>v. u = pre @ v
           | Sqlite \<Rightarrow> map ascii_lower pre = map ascii_lower (take (length pre) u))}"
proof -
  let ?s = "srv_store srv"
  obtain ps where ps: "Store.List ?s e (w_db w) pre = Inr ps"
    "set (map (\<lambda>p. (URI p, VersionHash p)) ps) = {(u, pr_vhash row) |u row. (u, row) \<in> set (prompts (w_db w)) \<and> starts_with (st_driver ?s) pre u}"
    "sorted (map (order_key ?s) (map URI ps))"
    "length ps = length (filter (\<lambda>(u, row). starts_with (st_driver ?s) pre u) (prompts (w_db w)))"
    using assms(2) by (rule List_rows)
  let ?es = "map (\<lambda>p. (URI p, VersionHash p)) ps" and ?rows = "filter (\<lambda>(u, row). starts_with (st_driver ?s) pre u) (prompts (w_db w))"
  have fst_es: "map fst ?es = map URI ps" by simp
  have "set (map URI ps) = fst ` set ?es" by force
  also have "\<dots> = set (map fst ?rows)" unfolding ps(2) by force
  finally have "card (set (map URI ps)) = length (map URI ps)"
    using distinct_card [OF distinct_map_filter [OF assms(3)], of "\<lambda>(u, row). starts_with (st_driver ?s) pre u"] ps(4)
    by simp
  then have "distinct (map URI ps)" by (rule card_distinct)
  moreover have "starts_with (st_driver ?s) pre u \<longleftrightarrow> (case st_driver ?s of Pgx \<Rightarrow> \<exists>v. u = pre @ v
      | Sqlite \<Rightarrow> map ascii_lower pre = map ascii_lower (take (length pre) u))" for u
    by (cases "st_driver ?s") (simp_all add: starts_with_Pgx starts_with_Sqlite)
  moreover have "(u, row) \<in> set (prompts (w_db w)) \<longleftrightarrow> map_of (prompts (w_db w)) u = Some row" for u row
    using assms(3) by simp
  moreover have "ListPrompts srv c e pre w = (Reply ?es, w)" using assms(1) ps(1) by (simp add: ListPrompts_def)
  ultimately show ?thesis using ps(2,3) by (intro exI [of _ ?es]) (simp add: comp_def)
qed

theorem list_is_prefix_search_witness:
  "\<exists>h. ListPrompts (demo_srv nil_ops) no_ctx calm ''P'' (boot demo_db ()) = (Reply [(demo_uri, h)], boot demo_db ())"
proof -
  have p: "prompts demo_db = [(demo_uri, served_row demo calm ''Hi {n}'' [''n''] (Hash demo_sha ''Hi {n}'' [''n'']))]"
    by (subst demo_db_eq) (simp add: empty_db_def DefaultBranch_def)
  have "map ascii_lower ''P'' = map ascii_lower (take 1 demo_uri)"
    unfolding demo_uri_def by code_simp
  then have rows: "{(u, pr_vhash row) |u row. map_of (prompts demo_db) u = Some row
      \<and> map ascii_lower ''P'' = map ascii_lower (take 1 u)} = {(demo_uri, Hash demo_sha ''Hi {n}'' [''n''])}"
    unfolding p by (auto split: if_splits)
  have drv: "st_driver demo = Sqlite" and len: "length ''P'' = 1"
    and dist: "distinct (map fst (prompts (w_db (boot demo_db ()))))"
    by (simp_all add: demo_def p)
  have "\<exists>es. ListPrompts (demo_srv nil_ops) no_ctx calm ''P'' (boot demo_db ()) = (Reply es, boot demo_db ())
    \<and> distinct (map fst es) \<and> set es = {(demo_uri, Hash demo_sha ''Hi {n}'' [''n''])}"
    using list_is_prefix_search [OF authorize_no_ctx(1) demo_ok(3) dist, of "demo_srv nil_ops" "''P''"]
    unfolding demo_srv_simps boot_simps drv len driver.case rows by (elim exE conjE) (intro exI conjI; assumption)
  then obtain es where es: "ListPrompts (demo_srv nil_ops) no_ctx calm ''P'' (boot demo_db ()) = (Reply es, boot demo_db ())"
    "distinct (map fst es)" "set es = {(demo_uri, Hash demo_sha ''Hi {n}'' [''n''])}" by blast
  have "distinct es" using es(2) by (simp add: distinct_map)
  from distinct_card [OF this] have "length es = 1" unfolding es(3) by simp
  then obtain x where x: "es = [x]" by (auto simp: length_Suc_conv)
  with es(3) have "es = [(demo_uri, Hash demo_sha ''Hi {n}'' [''n''])]" unfolding x by simp
  with es(1) show ?thesis by blast
qed

subsection \<open>Across the border\<close>

text \<open>A token scoped to one organization lists the prompts of every organization whose name
  starts with its own: the prefix \<open>promptnet://acme\<close> passes the check and matches
  \<open>promptnet://acme-corp/...\<close> too.\<close>

theorem list_crosses_orgs:
  assumes "scopeKey c = Some org" and "CHR ''/'' \<notin> set org" and "CHR ''/'' \<notin> set suf"
    and "map_of (prompts (w_db w)) (''promptnet://'' @ org @ suf @ ''/'' @ path) = Some row" and "\<not> fails e QList"
  shows "\<exists>es. ListPrompts srv c e (''promptnet://'' @ org) w = (Reply es, w)
    \<and> (''promptnet://'' @ org @ suf @ ''/'' @ path, pr_vhash row) \<in> set es
    \<and> orgOf (''promptnet://'' @ org @ suf @ ''/'' @ path) = org @ suf"
proof -
  let ?u = "''promptnet://'' @ org @ suf @ ''/'' @ path"
  have a: "authorize c (''promptnet://'' @ org) = None"
    using assms(1) orgOf_uri(2) [OF assms(2)] by (simp add: authorize_def scope_value_def)
  obtain ps where ps: "Store.List (srv_store srv) e (w_db w) (''promptnet://'' @ org) = Inr ps"
    "set (map (\<lambda>p. (URI p, VersionHash p)) ps) = {(u, pr_vhash row) |u row. (u, row) \<in> set (prompts (w_db w))
      \<and> starts_with (st_driver (srv_store srv)) (''promptnet://'' @ org) u}"
    using assms(5) by (rule List_rows)
  have "starts_with (st_driver (srv_store srv)) (''promptnet://'' @ org) ?u"
    using starts_with_append [of _ "''promptnet://'' @ org" "suf @ ''/'' @ path"] by simp
  with map_of_SomeD [OF assms(4)] have "(?u, pr_vhash row) \<in> set (map (\<lambda>p. (URI p, VersionHash p)) ps)"
    unfolding ps(2) by blast
  moreover have "orgOf ?u = org @ suf"
    using orgOf_uri(1) [of "org @ suf" path] assms(2,3) by simp
  ultimately show ?thesis using a ps(1) by (intro exI) (auto simp: ListPrompts_def)
qed

theorem list_crosses_orgs_witness:
  "\<exists>es h. ListPrompts (demo_srv nil_ops) \<lparr>scopeKey = Some ''ac'', writeKey = Some False\<rparr> calm ''promptnet://ac'' (boot demo_db ())
     = (Reply es, boot demo_db ()) \<and> (demo_uri, h) \<in> set es \<and> orgOf demo_uri = ''acme''"
proof -
  obtain row where "map_of (prompts demo_db) demo_uri = Some row"
    using demo_head(1) by (auto simp: head_resp_def split: option.splits)
  then have "map_of (prompts (w_db (boot demo_db ()))) (''promptnet://'' @ ''ac'' @ ''me'' @ ''/'' @ ''a'') = Some row"
    by (simp add: demo_uri_def)
  from list_crosses_orgs [OF _ _ _ this demo_ok(3), of "\<lparr>scopeKey = Some ''ac'', writeKey = Some False\<rparr>" "demo_srv nil_ops"]
  show ?thesis by (fastforce simp: demo_uri_def)
qed

text \<open>\<open>DiffCommits\<close> checks the caller against the URI of the request and never against the
  commits: with a URI of its own a scoped token gets the line-by-line difference of any two commits
  in the store, whatever prompt and organization they belong to.\<close>

theorem diff_commits_crosses_orgs:
  assumes "authorize c uri = None" and "authorize c (c_URI ka) \<noteq> None"
    and "GetCommit (srv_store srv) e (w_db w) a = Inr ka" and "GetCommit (srv_store srv) e (w_db w) b = Inr kb"
    and "srv_embedder srv = Some emb" and "total_embedder emb"
  shows "\<exists>rs w'. DiffCommits srv c e uri a b w = (Reply (map toChange rs), w')
    \<and> map Hunk rs = changes (splitLines (c_Template ka)) (splitLines (c_Template kb))"
proof -
  obtain rs st where a: "Analyze emb (w_calls w) (splitLines (c_Template ka)) (splitLines (c_Template kb)) = Some (Inr rs, st)"
    using analyze_all_total [OF assms(6)] unfolding Analyze_def by blast
  have "DiffCommits srv c e uri a b w = diff_templates srv (c_Template ka) (c_Template kb) w"
    using assms(1,3,4) by (simp add: DiffCommits_def)
  also have "\<dots> = (Reply (map toChange rs), w\<lparr>w_calls := asked st\<rparr>)"
    using assms(5) a by (simp add: diff_templates_def run_diff_def)
  finally show ?thesis using Analyze_ok [OF a] by blast
qed

theorem diff_commits_crosses_orgs_witness:
  "\<exists>chs w'. DiffCommits ((demo_srv nil_ops)\<lparr>srv_embedder := Some (LexicalEmbedder demo_unicode 0)\<rparr>)
      \<lparr>scopeKey = Some ''other'', writeKey = Some False\<rparr> calm ''promptnet://other/x'' demo_hash demo_hash (boot demo_db ())
    = (Reply chs, w') \<and> orgOf demo_uri = ''acme''"
proof -
  let ?srv = "(demo_srv nil_ops)\<lparr>srv_embedder := Some (LexicalEmbedder demo_unicode 0)\<rparr>"
  let ?c = "\<lparr>scopeKey = Some ''other'', writeKey = Some False\<rparr>"
  have org: "orgOf ''promptnet://other/x'' = ''other''" "orgOf demo_uri = ''acme''"
    using orgOf_uri(1) [of "''other''" "''x''"] orgOf_uri(1) [of "''acme''" "''a''"] by (simp_all add: demo_uri_def)
  then have "authorize ?c ''promptnet://other/x'' = None" "authorize ?c demo_uri \<noteq> None"
    by (simp_all add: authorize_def scope_value_def)
  moreover have "w_db (boot demo_db ()) = demo_db" "srv_store ?srv = demo" "srv_embedder ?srv = Some (LexicalEmbedder demo_unicode 0)"
    by simp_all
  moreover note demo_GetCommit [OF demo_ok(3)]
  ultimately have "\<exists>rs w'. DiffCommits ?srv ?c calm ''promptnet://other/x'' demo_hash demo_hash (boot demo_db ()) = (Reply (map toChange rs), w')"
    using diff_commits_crosses_orgs [where c = ?c and uri = "''promptnet://other/x''" and srv = ?srv and e = calm
        and w = "boot demo_db ()" and a = demo_hash and b = demo_hash, OF _ _ _ _ _ lexical_total] by fastforce
  with org(2) show ?thesis by blast
qed

end
