(* ===== verification/Interceptors.thy ===== *)
theory Interceptors
  imports ServerSafe ServerOrgs
begin

text \<open>
  What runs in front of every handler: \<open>AuthInterceptor\<close> of \<^verbatim>\<open>internal/server/server.go\<close> and the
  metrics, audit and rate-limit interceptors of \<^verbatim>\<open>internal/server/observability.go\<close>, chained as
  \<open>serve\<close> of \<^verbatim>\<open>cmd/promptnet/main.go\<close> chains them. An interceptor wraps a handler, a function of
  the context and the state. Prometheus counters are numbers per label, the audit log the list of
  its lines (without the latencies), and the token buckets of \<^verbatim>\<open>golang.org/x/time/rate\<close> are a
  parameter: how a limiter is made and what it answers at an instant.
\<close>

subsection \<open>State\<close>

record token =
  Org :: string
  Expires :: int
  Write :: bool

text \<open>\<open>Expires\<close> counts from Go's zero time, so that 0 is \<open>IsZero\<close>. The token map is a list of
  pairs with distinct keys, in some order.\<close>

record audit_line =
  a_rpc :: string
  a_org :: string
  a_uri :: string
  a_code :: string

record 'l limiter_ops =
  NewLimiter :: "f64 \<Rightarrow> int \<Rightarrow> 'l"
  Allow :: "int \<Rightarrow> 'l \<Rightarrow> bool \<times> 'l"

record ('c, 'l) gate =
  g_world :: "'c world"
  g_limiters :: "(string \<times> 'l) list"
  reqTotal :: "((string \<times> string) \<times> nat) list"
  reqDuration :: "(string \<times> nat) list"
  g_audit :: "audit_line list"

text \<open>\<open>status.Code(err).String()\<close>.\<close>

fun code_name :: "code \<Rightarrow> string" where
  "code_name InvalidArgument = ''InvalidArgument''"
| "code_name NotFound = ''NotFound''"
| "code_name PermissionDenied = ''PermissionDenied''"
| "code_name ResourceExhausted = ''ResourceExhausted''"
| "code_name Internal = ''Internal''"
| "code_name DataLoss = ''DataLoss''"
| "code_name Unauthenticated = ''Unauthenticated''"

fun status_name :: "'a outcome \<Rightarrow> string" where
  "status_name (Reply a) = ''OK''"
| "status_name (Fail c d) = code_name c"
| "status_name Panic = []"

subsection \<open>The interceptors\<close>

text \<open>The loop over the tokens has no early exit; without an \<open>authorization\<close> value, \<open>got\<close> is empty.\<close>

fun match_token :: "string \<Rightarrow> (string \<times> token) list \<Rightarrow> token option \<Rightarrow> token option" where
  "match_token got [] acc = acc"
| "match_token got ((t, tok) # ws) acc = match_token got ws (if got = ''Bearer '' @ t then Some tok else acc)"

definition AuthInterceptor :: "(string \<times> token) list \<Rightarrow> int \<Rightarrow> string list
    \<Rightarrow> (ctx \<Rightarrow> 'g \<Rightarrow> 'a outcome \<times> 'g) \<Rightarrow> ctx \<Rightarrow> 'g \<Rightarrow> 'a outcome \<times> 'g" where
  "AuthInterceptor table t authorization handler c g =
     (if table = [] then handler c g
      else let got = (case authorization of [] \<Rightarrow> [] | v # _ \<Rightarrow> v)
      in case match_token got table None of
           None \<Rightarrow> (Fail Unauthenticated (Fmt ''invalid or missing token'' []), g)
         | Some tok \<Rightarrow>
             if Expires tok \<noteq> 0 \<and> Expires tok < t then (Fail Unauthenticated (Fmt ''token expired'' []), g)
             else handler (c\<lparr>scopeKey := Some (Org tok), writeKey := Some (Write tok)\<rparr>) g)"

text \<open>A panic unwinds through the interceptors: nothing is recorded.\<close>

definition count :: "'k \<Rightarrow> ('k \<times> nat) list \<Rightarrow> ('k \<times> nat) list" where
  "count k m = AList.update k (case map_of m k of None \<Rightarrow> 1 | Some n \<Rightarrow> n + 1) m"

definition MetricsInterceptor :: "string
    \<Rightarrow> (ctx \<Rightarrow> ('c, 'l) gate \<Rightarrow> 'a outcome \<times> ('c, 'l) gate) \<Rightarrow> ctx \<Rightarrow> ('c, 'l) gate \<Rightarrow> 'a outcome \<times> ('c, 'l) gate" where
  "MetricsInterceptor name handler c g =
     (case handler c g of
        (Panic, g') \<Rightarrow> (Panic, g')
      | (x, g') \<Rightarrow> (x, g'\<lparr>reqTotal := count (name, status_name x) (reqTotal g'),
                        reqDuration := count name (reqDuration g')\<rparr>))"

definition AuditInterceptor :: "string \<Rightarrow> string
    \<Rightarrow> (ctx \<Rightarrow> ('c, 'l) gate \<Rightarrow> 'a outcome \<times> ('c, 'l) gate) \<Rightarrow> ctx \<Rightarrow> ('c, 'l) gate \<Rightarrow> 'a outcome \<times> ('c, 'l) gate" where
  "AuditInterceptor name uri handler c g =
     (case handler c g of
        (Panic, g') \<Rightarrow> (Panic, g')
      | (x, g') \<Rightarrow> (x, g'\<lparr>g_audit := g_audit g'
            @ [\<lparr>a_rpc = name, a_org = scope_value c, a_uri = uri, a_code = status_name x\<rparr>]\<rparr>))"

text \<open>\<open>int(rps)\<close> cuts off the fraction.\<close>

definition effective_burst :: "f64 \<Rightarrow> int \<Rightarrow> int" where
  "effective_burst rps burst = (if burst \<le> 0 then (if \<lfloor>rps\<rfloor> < 1 then 1 else \<lfloor>rps\<rfloor>) else burst)"

text \<open>Take a token of the scope's bucket, made on its first request.\<close>

definition take_token :: "'l limiter_ops \<Rightarrow> f64 \<Rightarrow> int \<Rightarrow> int \<Rightarrow> string \<Rightarrow> (string \<times> 'l) list \<Rightarrow> bool \<times> (string \<times> 'l) list" where
  "take_token ops rps burst t scope lims =
     (let lim = (case map_of lims scope of Some l \<Rightarrow> l | None \<Rightarrow> NewLimiter ops rps (effective_burst rps burst));
          (ok, lim') = Allow ops t lim
      in (ok, AList.update scope lim' lims))"

definition RateLimitInterceptor :: "'l limiter_ops \<Rightarrow> f64 \<Rightarrow> int \<Rightarrow> int
    \<Rightarrow> (ctx \<Rightarrow> ('c, 'l) gate \<Rightarrow> 'a outcome \<times> ('c, 'l) gate) \<Rightarrow> ctx \<Rightarrow> ('c, 'l) gate \<Rightarrow> 'a outcome \<times> ('c, 'l) gate" where
  "RateLimitInterceptor ops rps burst t handler c g =
     (if rps \<le> 0 then handler c g
      else let (ok, lims) = take_token ops rps burst t (scope_value c) (g_limiters g);
               g' = g\<lparr>g_limiters := lims\<rparr>
           in if \<not> ok then (Fail ResourceExhausted (Fmt ''rate limit exceeded for org %q'' [scope_value c]), g')
              else handler c g')"

subsection \<open>The chain\<close>

text \<open>What \<open>serve\<close> is configured with; one instant stands for the calls of \<open>time.Now\<close> during an RPC.\<close>

record ('c, 'l) config =
  cfg_server :: "'c server"
  cfg_tokens :: "(string \<times> token) list"
  cfg_limiter :: "'l limiter_ops"
  cfg_rps :: f64
  cfg_burst :: int

definition handle :: "'c server \<Rightarrow> env \<Rightarrow> request \<Rightarrow> ctx \<Rightarrow> ('c, 'l) gate \<Rightarrow> response outcome \<times> ('c, 'l) gate" where
  "handle srv e r c g = (let (x, w') = dispatch srv c e r (g_world g) in (x, g\<lparr>g_world := w'\<rparr>))"

definition serve_rpc :: "('c, 'l) config \<Rightarrow> env \<Rightarrow> string list \<Rightarrow> request \<Rightarrow> ('c, 'l) gate \<Rightarrow> response outcome \<times> ('c, 'l) gate" where
  "serve_rpc cfg e authorization r =
     MetricsInterceptor (rpc_name r)
       (AuthInterceptor (cfg_tokens cfg) (now e) authorization
         (AuditInterceptor (rpc_name r) (uriOf r)
           (RateLimitInterceptor (cfg_limiter cfg) (cfg_rps cfg) (cfg_burst cfg) (now e)
             (handle (cfg_server cfg) e r)))) no_ctx"

subsection \<open>Token lookup\<close>

lemma match_token_some:
  "match_token got ws acc = Some tok \<Longrightarrow> acc = Some tok \<or> (\<exists>t. (t, tok) \<in> set ws \<and> got = ''Bearer '' @ t)"
  by (induction got ws acc rule: match_token.induct) (auto split: if_splits)

lemma match_token_miss: "\<forall>(t, tok) \<in> set ws. got \<noteq> ''Bearer '' @ t \<Longrightarrow> match_token got ws acc = acc"
  by (induction got ws acc rule: match_token.induct) auto

text \<open>The order of Go's map does not matter: the scan is a lookup.\<close>

lemma match_token_lookup:
  "distinct (map fst ws) \<Longrightarrow> match_token (''Bearer '' @ t) ws None = map_of ws t"
proof (induction ws)
  case (Cons w ws)
  obtain k tok where w: "w = (k, tok)" by (cases w)
  show ?case
  proof (cases "t = k")
    case True
    with Cons.prems w have "\<forall>(t', tok') \<in> set ws. ''Bearer '' @ t \<noteq> ''Bearer '' @ t'" by force
    from match_token_miss [OF this] show ?thesis by (simp add: w True)
  next
    case False
    with Cons w show ?thesis by simp
  qed
qed simp

subsection \<open>What the chain does\<close>

text \<open>Who gets past authentication, and with which context.\<close>

definition admitted :: "(string \<times> token) list \<Rightarrow> int \<Rightarrow> string list \<Rightarrow> ctx \<Rightarrow> bool" where
  "admitted table t authorization c \<longleftrightarrow>
     table = [] \<and> c = no_ctx
     \<or> (\<exists>k tok rest. authorization = (''Bearer '' @ k) # rest \<and> (k, tok) \<in> set table
         \<and> (Expires tok = 0 \<or> t \<le> Expires tok) \<and> c = \<lparr>scopeKey = Some (Org tok), writeKey = Some (Write tok)\<rparr>)"

lemma Auth_cases:
  assumes "AuthInterceptor table t authorization handler no_ctx g = (x, g')"
  obtains (refused) d where "x = Fail Unauthenticated d" "g' = g" "table \<noteq> []"
    | (admitted) c where "admitted table t authorization c" "handler c g = (x, g')"
proof (cases "table = []")
  case True
  with assms that(2) show ?thesis by (auto simp: AuthInterceptor_def admitted_def)
next
  case False
  define got where "got = (case authorization of [] \<Rightarrow> [] | v # _ \<Rightarrow> v)"
  show ?thesis
  proof (cases "match_token got table None")
    case None
    with assms False that(1) show ?thesis by (auto simp: AuthInterceptor_def got_def)
  next
    case (Some tok)
    then obtain k where k: "(k, tok) \<in> set table" "got = ''Bearer '' @ k" using match_token_some by fastforce
    then obtain rest where a: "authorization = (''Bearer '' @ k) # rest"
      unfolding got_def by (cases authorization) auto
    show ?thesis
    proof (cases "Expires tok \<noteq> 0 \<and> Expires tok < t")
      case True
      with assms False Some that(1) show ?thesis by (auto simp: AuthInterceptor_def got_def)
    next
      case False
      with k a have "admitted table t authorization \<lparr>scopeKey = Some (Org tok), writeKey = Some (Write tok)\<rparr>"
        unfolding admitted_def by (intro disjI2 exI) auto
      moreover have "handler \<lparr>scopeKey = Some (Org tok), writeKey = Some (Write tok)\<rparr> g = (x, g')"
        using assms False Some \<open>table \<noteq> []\<close>
        by (auto simp: AuthInterceptor_def got_def no_ctx_def split: if_splits)
      ultimately show ?thesis by (rule that(2))
    qed
  qed
qed

lemma RateLimit_cases:
  assumes "RateLimitInterceptor ops rps burst t handler c g = (x, g')"
  obtains (limited) d where "x = Fail ResourceExhausted d" "g_world g' = g_world g" "g_audit g' = g_audit g"
      "reqTotal g' = reqTotal g" "reqDuration g' = reqDuration g"
    | (passed) lims where "handler c (g\<lparr>g_limiters := lims\<rparr>) = (x, g')"
proof (cases "rps \<le> 0")
  case True
  with assms that(2) [of "g_limiters g"] show ?thesis by (simp add: RateLimitInterceptor_def)
next
  case False
  obtain ok lims where t: "take_token ops rps burst t (scope_value c) (g_limiters g) = (ok, lims)" by fastforce
  show ?thesis
  proof (cases ok)
    case True
    with assms False t that(2) [of lims] show ?thesis by (simp add: RateLimitInterceptor_def)
  next
    case ok: False
    with assms False t have "x = Fail ResourceExhausted (Fmt ''rate limit exceeded for org %q'' [scope_value c])"
      "g' = g\<lparr>g_limiters := lims\<rparr>" by (auto simp: RateLimitInterceptor_def)
    then show ?thesis by (intro that(1)) simp_all
  qed
qed

lemma Metrics_cases:
  assumes "MetricsInterceptor name handler c g = (x, g')"
  obtains g1 where "handler c g = (x, g1)" "g_world g' = g_world g1" "g_audit g' = g_audit g1"
    "x \<noteq> Panic \<Longrightarrow> reqTotal g' = count (name, status_name x) (reqTotal g1)"
    "x \<noteq> Panic \<Longrightarrow> reqDuration g' = count name (reqDuration g1)"
proof -
  obtain y g1 where "handler c g = (y, g1)" by fastforce
  with assms that [of g1] show thesis by (cases y) (auto simp: MetricsInterceptor_def)
qed

lemma Audit_cases:
  assumes "AuditInterceptor name uri handler c g = (x, g')"
  obtains g1 where "handler c g = (x, g1)" "g_world g' = g_world g1"
    "reqTotal g' = reqTotal g1" "reqDuration g' = reqDuration g1"
    "x \<noteq> Panic \<Longrightarrow> g_audit g' = g_audit g1 @ [\<lparr>a_rpc = name, a_org = scope_value c, a_uri = uri, a_code = status_name x\<rparr>]"
proof -
  obtain y g1 where "handler c g = (y, g1)" by fastforce
  with assms that [of g1] show thesis by (cases y) (auto simp: AuditInterceptor_def)
qed

lemma handle_cases:
  assumes "handle srv e r c g = (x, g')"
  obtains w' where "dispatch srv c e r (g_world g) = (x, w')" "g' = g\<lparr>g_world := w'\<rparr>"
  using assms by (cases "dispatch srv c e r (g_world g)") (auto simp: handle_def)

text \<open>An RPC is refused, or admitted and then limited or handled.\<close>

lemma serve_rpc_cases:
  assumes "serve_rpc cfg e authorization r g = (x, g')"
  obtains (refused) d where "x = Fail Unauthenticated d" "g_world g' = g_world g" "g_audit g' = g_audit g"
      "cfg_tokens cfg \<noteq> []"
    | (limited) c d where "admitted (cfg_tokens cfg) (now e) authorization c" "x = Fail ResourceExhausted d"
        "g_world g' = g_world g"
    | (handled) c where "admitted (cfg_tokens cfg) (now e) authorization c"
        "dispatch (cfg_server cfg) c e r (g_world g) = (x, g_world g')"
  using assms unfolding serve_rpc_def
proof (rule Metrics_cases)
  fix g1
  assume auth: "AuthInterceptor (cfg_tokens cfg) (now e) authorization
       (AuditInterceptor (rpc_name r) (uriOf r)
         (RateLimitInterceptor (cfg_limiter cfg) (cfg_rps cfg) (cfg_burst cfg) (now e)
           (handle (cfg_server cfg) e r))) no_ctx g = (x, g1)"
    and g1: "g_world g' = g_world g1" "g_audit g' = g_audit g1"
  from auth show thesis
  proof (cases rule: Auth_cases)
    case (refused d)
    with g1 that(1) show thesis by simp
  next
    case (admitted c)
    from admitted(2) show thesis
    proof (rule Audit_cases)
      fix g2
      assume rl: "RateLimitInterceptor (cfg_limiter cfg) (cfg_rps cfg) (cfg_burst cfg) (now e)
          (handle (cfg_server cfg) e r) c g = (x, g2)" and g2: "g_world g1 = g_world g2"
      from rl show thesis
      proof (cases rule: RateLimit_cases)
        case (limited d)
        with admitted(1) g1 g2 that(2) show thesis by simp
      next
        case (passed lims)
        then show thesis
          by (rule handle_cases) (use admitted(1) g1 g2 that(3) in simp)
      qed
    qed
  qed
qed

subsection \<open>Only the authorized\<close>

lemma write_prompts:
  assumes "ran srv c e r w w'" and "writes r" and "u \<noteq> uriOf r"
  shows "map_of (prompts (w_db w')) u = map_of (prompts (w_db w)) u"
    and "map_of (refs (w_db w')) (u, b) = map_of (refs (w_db w)) (u, b)"
proof -
  have op: "apply_op (srv_store srv) e (op_of c r) (w_db w) = (None, w_db w')" using assms(1) by (simp add: ran_def)
  have uri: "op_uri (op_of c r) = uriOf r" using assms(2) by (cases r) simp_all
  show "map_of (prompts (w_db w')) u = map_of (prompts (w_db w)) u"
    by (rule apply_op_prompts [OF op]) (simp add: uri assms(3))
  show "map_of (refs (w_db w')) (u, b) = map_of (refs (w_db w)) (u, b)"
    by (rule apply_op_refs [OF op]) (simp add: uri assms(3))
qed

text \<open>What a handler does for a context that carries a token.\<close>

lemma dispatch_scoped:
  assumes "dispatch srv \<lparr>scopeKey = Some org, writeKey = Some wr\<rparr> e r w = (x, w')"
  shows "x = Reply y \<or> w' \<noteq> w \<Longrightarrow> org = [] \<or> org = orgOf (subject_of r)"
    and "w_db w' \<noteq> w_db w \<Longrightarrow> wr \<and> writes r"
    and "org \<noteq> [] \<Longrightarrow> orgOf u \<noteq> org \<Longrightarrow> map_of (prompts (w_db w')) u = map_of (prompts (w_db w)) u
      \<and> map_of (refs (w_db w')) (u, b) = map_of (refs (w_db w)) (u, b)"
proof -
  let ?c = "\<lparr>scopeKey = Some org, writeKey = Some wr\<rparr>"
  show sub: "org = [] \<or> org = orgOf (subject_of r)" if "x = Reply y \<or> w' \<noteq> w"
  proof (rule ccontr)
    assume "\<not> ?thesis"
    then have "authorize ?c (subject_of r) = Some (PermissionDenied, Fmt ''token not authorized for org %q'' [orgOf (subject_of r)])"
      by (simp add: authorize_def scope_value_def)
    from dispatch_unauthorized [OF this, of srv e w] assms that show False by auto
  qed
  show wr: "wr \<and> writes r" if "w_db w' \<noteq> w_db w"
  proof (rule ccontr)
    assume no: "\<not> ?thesis"
    have "w' \<noteq> w" using that by blast
    with sub have a: "authorize ?c (subject_of r) = None" by (auto simp: authorize_def scope_value_def)
    show False
    proof (cases "writes r")
      case True
      with no have "requireWrite ?c = Some (PermissionDenied, Fmt ''token is read-only'' [])" by (simp add: requireWrite_def)
      from dispatch_read_only [OF a this True, of srv e w] assms that show False by auto
    next
      case False
      from read_db [OF False, of srv ?c e w] assms that show False by auto
    qed
  qed
  show "map_of (prompts (w_db w')) u = map_of (prompts (w_db w)) u
      \<and> map_of (refs (w_db w')) (u, b) = map_of (refs (w_db w)) (u, b)" if "org \<noteq> []" "orgOf u \<noteq> org"
  proof (cases "w_db w' = w_db w")
    case False
    then have "w' \<noteq> w" by blast
    with sub that have "u \<noteq> subject_of r" by auto
    moreover have "writes r" using wr False by blast
    ultimately have "u \<noteq> uriOf r" by (cases r) simp_all
    from write_effect [OF assms \<open>writes r\<close>] False have "ran srv ?c e r w w'" by (auto simp: idle_def)
    from write_prompts [OF this \<open>writes r\<close> \<open>u \<noteq> uriOf r\<close>] show ?thesis by blast
  qed simp
qed

text \<open>C2: on a server with tokens nothing happens without one. If an RPC succeeds or changes anything
  behind the interceptors, its first \<open>authorization\<close> value is \<open>Bearer\<close> and a token of the table that
  has not expired and is an admin token or of the organization of the request. The database
  changes only with a token that may write, and no token of one organization moves a branch or
  the served row of a prompt of another.\<close>

theorem only_the_authorized_act:
  assumes "serve_rpc cfg e authorization r g = (x, g')" and "cfg_tokens cfg \<noteq> []"
    and "x = Reply y \<or> g_world g' \<noteq> g_world g"
  shows "\<exists>k tok rest. authorization = (''Bearer '' @ k) # rest \<and> (k, tok) \<in> set (cfg_tokens cfg)
    \<and> (Expires tok = 0 \<or> now e \<le> Expires tok) \<and> (Org tok = [] \<or> Org tok = orgOf (subject_of r))
    \<and> (w_db (g_world g') = w_db (g_world g) \<or> Write tok \<and> writes r)
    \<and> (\<forall>u b. Org tok = [] \<or> orgOf u = Org tok
        \<or> map_of (prompts (w_db (g_world g'))) u = map_of (prompts (w_db (g_world g))) u
          \<and> map_of (refs (w_db (g_world g'))) (u, b) = map_of (refs (w_db (g_world g))) (u, b))"
  using assms(1)
proof (cases rule: serve_rpc_cases)
  case (handled c)
  from handled(1) assms(2) obtain k tok rest where k: "authorization = (''Bearer '' @ k) # rest"
    "(k, tok) \<in> set (cfg_tokens cfg)" "Expires tok = 0 \<or> now e \<le> Expires tok"
    and c: "c = \<lparr>scopeKey = Some (Org tok), writeKey = Some (Write tok)\<rparr>"
    by (auto simp: admitted_def)
  note d = dispatch_scoped [OF handled(2) [unfolded c]]
  from d(1) [of y] d(2,3) k assms(3) show ?thesis by blast
qed (use assms(3) in simp_all)

definition demo_config :: "(ttl_cache, nat) config" where
  "demo_config = \<lparr>cfg_server = demo_srv (ttl_ops 5), cfg_tokens = [(''k'', \<lparr>Org = ''acme'', Expires = 0, Write = True\<rparr>)],
     cfg_limiter = \<lparr>NewLimiter = \<lambda>_ b. nat b, Allow = \<lambda>_ n. (0 < n, n - 1)\<rparr>, cfg_rps = 1, cfg_burst = 2\<rparr>"

definition demo_gate :: "(ttl_cache, nat) gate" where
  "demo_gate = \<lparr>g_world = boot demo_db [], g_limiters = [], reqTotal = [], reqDuration = [], g_audit = []\<rparr>"

lemma demo_authorized: "authorize \<lparr>scopeKey = Some ''acme'', writeKey = w\<rparr> demo_uri = None"
  using orgOf_uri(1) [of "''acme''" "''a''"] by (simp add: authorize_def scope_value_def demo_uri_def)

theorem only_the_authorized_act_witness:
  "\<exists>g'. serve_rpc demo_config calm [''Bearer k''] (GetPromptRequest demo_uri []) demo_gate = (Reply (GetPromptResponse demo_resp), g')
    \<and> orgOf demo_uri = ''acme''"
proof -
  let ?c = "\<lparr>scopeKey = Some ''acme'', writeKey = Some True\<rparr>"
  obtain w' where "GetPrompt (demo_srv (ttl_ops 5)) ?c calm demo_uri [] (boot demo_db []) = (Reply demo_resp, w')"
    using GetPrompt_head [of "demo_srv (ttl_ops 5)" calm demo_uri "boot demo_db []" ?c demo_resp] demo_head demo_authorized
    by (auto simp: ttl_ops_def ttl_Get_def)
  then have "\<exists>g'. serve_rpc demo_config calm [''Bearer k''] (GetPromptRequest demo_uri []) demo_gate = (Reply (GetPromptResponse demo_resp), g')"
    by (simp add: serve_rpc_def MetricsInterceptor_def AuthInterceptor_def AuditInterceptor_def RateLimitInterceptor_def
        take_token_def handle_def demo_config_def demo_gate_def no_ctx_def reply_def effective_burst_def scope_value_def)
  then obtain g' where g': "serve_rpc demo_config calm [''Bearer k''] (GetPromptRequest demo_uri []) demo_gate = (Reply (GetPromptResponse demo_resp), g')"
    by blast
  have "cfg_tokens demo_config \<noteq> []" by (simp add: demo_config_def)
  from only_the_authorized_act [OF g' this disjI1 [OF refl]] obtain k tok where
    tok: "(k, tok) \<in> set (cfg_tokens demo_config)" "Org tok = [] \<or> Org tok = orgOf (subject_of (GetPromptRequest demo_uri []))"
    by blast
  from tok(1) have "Org tok = ''acme''" by (simp add: demo_config_def)
  with tok(2) g' show ?thesis by auto
qed

subsection \<open>What is recorded\<close>

text \<open>The value of a counter.\<close>

definition counter :: "('k \<times> nat) list \<Rightarrow> 'k \<Rightarrow> nat" where
  "counter m k = (case map_of m k of None \<Rightarrow> 0 | Some n \<Rightarrow> n)"

lemma counter_count [simp]: "counter (count k m) k' = counter m k' + (if k' = k then 1 else 0)"
  by (simp add: counter_def count_def split: option.splits)

lemma handle_frame:
  "handle srv e r c g = (x, g') \<Longrightarrow> reqTotal g' = reqTotal g \<and> reqDuration g' = reqDuration g \<and> g_audit g' = g_audit g"
  by (erule handle_cases) simp

lemma limited_frame:
  assumes "RateLimitInterceptor ops rps burst t (handle srv e r) c g = (x, g')"
  shows "reqTotal g' = reqTotal g \<and> reqDuration g' = reqDuration g \<and> g_audit g' = g_audit g"
  using assms by (cases rule: RateLimit_cases) (auto dest: handle_frame)

text \<open>Every RPC that is answered is counted once, with its name and the status it was answered
  with, refusals of the other interceptors included, and its latency is observed once. It is
  audited, with the organization of the caller, exactly if it got past authentication: a refused
  token leaves no line in the audit log.\<close>

theorem every_rpc_is_counted:
  assumes "serve_rpc cfg e authorization r g = (x, g')" and "x \<noteq> Panic"
  shows "(\<forall>k. counter (reqTotal g') k = counter (reqTotal g) k + (if k = (rpc_name r, status_name x) then 1 else 0))
    \<and> (\<forall>k. counter (reqDuration g') k = counter (reqDuration g) k + (if k = rpc_name r then 1 else 0))
    \<and> ((\<exists>c. admitted (cfg_tokens cfg) (now e) authorization c \<and> g_audit g' = g_audit g
          @ [\<lparr>a_rpc = rpc_name r, a_org = scope_value c, a_uri = uriOf r, a_code = status_name x\<rparr>])
      \<or> (\<exists>d. x = Fail Unauthenticated d) \<and> g_audit g' = g_audit g)"
proof -
  obtain g1 where auth: "AuthInterceptor (cfg_tokens cfg) (now e) authorization
       (AuditInterceptor (rpc_name r) (uriOf r)
         (RateLimitInterceptor (cfg_limiter cfg) (cfg_rps cfg) (cfg_burst cfg) (now e)
           (handle (cfg_server cfg) e r))) no_ctx g = (x, g1)"
    and g1: "g_audit g' = g_audit g1" "reqTotal g' = count (rpc_name r, status_name x) (reqTotal g1)"
      "reqDuration g' = count (rpc_name r) (reqDuration g1)"
    using assms unfolding serve_rpc_def by (auto elim: Metrics_cases)
  from auth have "reqTotal g1 = reqTotal g \<and> reqDuration g1 = reqDuration g
    \<and> ((\<exists>c. admitted (cfg_tokens cfg) (now e) authorization c \<and> g_audit g1 = g_audit g
          @ [\<lparr>a_rpc = rpc_name r, a_org = scope_value c, a_uri = uriOf r, a_code = status_name x\<rparr>])
      \<or> (\<exists>d. x = Fail Unauthenticated d) \<and> g_audit g1 = g_audit g)"
  proof (cases rule: Auth_cases)
    case (admitted c)
    from admitted(2) obtain g2 where
      "RateLimitInterceptor (cfg_limiter cfg) (cfg_rps cfg) (cfg_burst cfg) (now e) (handle (cfg_server cfg) e r) c g = (x, g2)"
      "reqTotal g1 = reqTotal g2" "reqDuration g1 = reqDuration g2"
      "g_audit g1 = g_audit g2 @ [\<lparr>a_rpc = rpc_name r, a_org = scope_value c, a_uri = uriOf r, a_code = status_name x\<rparr>]"
      using assms(2) by (auto elim: Audit_cases)
    with limited_frame [OF this(1)] admitted(1) show ?thesis by auto
  qed simp
  with g1 show ?thesis by simp
qed

theorem every_rpc_is_counted_witness:
  "\<exists>g' x. serve_rpc demo_config calm [''Bearer wrong''] (GetPromptRequest demo_uri []) demo_gate = (x, g')
    \<and> counter (reqTotal g') (''/promptnet.v1.PromptService/GetPrompt'', ''Unauthenticated'') = 1 \<and> g_audit g' = []"
proof -
  have "\<exists>g' d. serve_rpc demo_config calm [''Bearer wrong''] (GetPromptRequest demo_uri []) demo_gate = (Fail Unauthenticated d, g')"
    by (simp add: serve_rpc_def MetricsInterceptor_def AuthInterceptor_def demo_config_def)
  then obtain g' d where g': "serve_rpc demo_config calm [''Bearer wrong''] (GetPromptRequest demo_uri []) demo_gate = (Fail Unauthenticated d, g')"
    by blast
  moreover have "\<not> admitted (cfg_tokens demo_config) (now calm) [''Bearer wrong''] c" for c
    by (simp add: admitted_def demo_config_def)
  moreover have "counter (reqTotal demo_gate) k = 0" "g_audit demo_gate = []" for k
    by (simp_all add: counter_def demo_gate_def)
  ultimately show ?thesis using every_rpc_is_counted [OF g'] by auto
qed

subsection \<open>One bucket per organization\<close>

text \<open>The decisions of the interceptor over a sequence of calls, and those of one limiter.\<close>

fun admissions :: "'l limiter_ops \<Rightarrow> f64 \<Rightarrow> int \<Rightarrow> (ctx \<times> int) list \<Rightarrow> ('c, 'l) gate \<Rightarrow> bool list" where
  "admissions ops rps burst [] g = []"
| "admissions ops rps burst ((c, t) # calls) g =
     (case RateLimitInterceptor ops rps burst t (\<lambda>c g. (Reply (), g)) c g of
        (x, g') \<Rightarrow> (x = Reply ()) # admissions ops rps burst calls g')"

fun allow_all :: "'l limiter_ops \<Rightarrow> int list \<Rightarrow> 'l \<Rightarrow> bool list" where
  "allow_all ops [] l = []"
| "allow_all ops (t # ts) l = (case Allow ops t l of (ok, l') \<Rightarrow> ok # allow_all ops ts l')"

lemma admissions_bucket:
  assumes "0 < rps"
  shows "map snd (filter (\<lambda>((c, t), ok). scope_value c = org) (zip calls (admissions ops rps burst calls g)))
    = allow_all ops (map snd (filter (\<lambda>(c, t). scope_value c = org) calls))
        (case map_of (g_limiters g) org of Some l \<Rightarrow> l | None \<Rightarrow> NewLimiter ops rps (effective_burst rps burst))"
proof (induction calls arbitrary: g)
  case (Cons q calls)
  obtain c t where q: "q = (c, t)" by (cases q)
  obtain ok l where a: "Allow ops t (case map_of (g_limiters g) (scope_value c) of
      Some l \<Rightarrow> l | None \<Rightarrow> NewLimiter ops rps (effective_burst rps burst)) = (ok, l)" by fastforce
  let ?g = "g\<lparr>g_limiters := AList.update (scope_value c) l (g_limiters g)\<rparr>"
  have "\<exists>x. RateLimitInterceptor ops rps burst t (\<lambda>c g. (Reply (), g)) c g = (x, ?g) \<and> (x = Reply ()) = ok"
    using assms a by (cases ok) (simp_all add: RateLimitInterceptor_def take_token_def)
  then have "admissions ops rps burst (q # calls) g = ok # admissions ops rps burst calls ?g"
    by (auto simp: q)
  with Cons [of ?g] a show ?case by (auto simp: q)
qed simp

text \<open>C39: the rate limit is per organization: whatever other organizations send, in whatever order, the
  decisions on the calls of one are those of one fresh limiter, of the configured rate and burst,
  asked at the instants of these calls only.\<close>

theorem rate_limits_are_per_org:
  assumes "0 < rps" and "g_limiters g = []"
  shows "map snd (filter (\<lambda>((c, t), ok). scope_value c = org) (zip calls (admissions ops rps burst calls g)))
    = allow_all ops (map snd (filter (\<lambda>(c, t). scope_value c = org) calls)) (NewLimiter ops rps (effective_burst rps burst))"
  using admissions_bucket [OF assms(1), of org calls ops burst g] assms(2) by simp

theorem rate_limits_are_per_org_witness:
  "let a = \<lparr>scopeKey = Some ''a'', writeKey = None\<rparr>; b = \<lparr>scopeKey = Some ''b'', writeKey = None\<rparr>;
       calls = [(b, 0), (a, 1), (b, 2), (b, 3), (a, 4)]
   in map snd (filter (\<lambda>((c, t), ok). scope_value c = ''a'') (zip calls (admissions (cfg_limiter demo_config) 1 2 calls demo_gate)))
      = [True, True]"
proof -
  have "g_limiters demo_gate = []" by (simp add: demo_gate_def)
  from rate_limits_are_per_org [OF _ this, of 1 "''a''" _ "cfg_limiter demo_config" 2]
  show ?thesis by (simp add: Let_def scope_value_def demo_config_def effective_burst_def)
qed

end
