(* ===== verification/Json.thy ===== *)
theory Json
  imports Codec
begin

text \<open>
  Go's \<open>encoding/json\<close> on the structs of the program: a parser of JSON values, how the decoder
  finds the field of a key, and the encoder's objects. \<^verbatim>\<open>Codec\<close> has the strings. The
  parser recurses with fuel; twice the length of the text is enough (\<open>jvalue_fuel\<close>). The decoder's
  limit on nesting (10000) is not modelled.
\<close>

datatype json =
    JNull
  | JBool bool
  | JNum string
  | JStr string
  | JArr "json list"
  | JObj "(string \<times> json) list"

subsection \<open>Literals\<close>

definition digit :: "char \<Rightarrow> bool" where
  "digit c \<longleftrightarrow> 48 \<le> byte c \<and> byte c \<le> 57"

text \<open>The parts of a number: digits, which must not be missing, behind a point and in an exponent.\<close>

definition digits :: "string \<Rightarrow> (string \<times> string) option" where
  "digits s = (case takeWhile digit s of [] \<Rightarrow> None | ds \<Rightarrow> Some (ds, dropWhile digit s))"

definition num_frac :: "string \<Rightarrow> (string \<times> string) option" where
  "num_frac s = (case s of c # t \<Rightarrow> if c = CHR ''.'' then json_pre [c] (digits t) else Some ([], s) | [] \<Rightarrow> Some ([], s))"

definition num_exp :: "string \<Rightarrow> (string \<times> string) option" where
  "num_exp s =
     (case s of
        c # t \<Rightarrow>
          if c = CHR ''e'' \<or> c = CHR ''E'' then
            (case t of
               d # u \<Rightarrow> if d = CHR ''+'' \<or> d = CHR ''-'' then json_pre [c, d] (digits u) else json_pre [c] (digits t)
             | [] \<Rightarrow> None)
          else Some ([], s)
      | [] \<Rightarrow> Some ([], s))"

text \<open>An integer part without a leading zero, unless it is zero.\<close>

definition num_int :: "string \<Rightarrow> (string \<times> string) option" where
  "num_int s = (case s of c # t \<Rightarrow> if c = CHR ''0'' then Some ([c], t) else digits s | [] \<Rightarrow> None)"

definition num_after :: "(string \<Rightarrow> (string \<times> string) option) \<Rightarrow> string \<times> string \<Rightarrow> (string \<times> string) option" where
  "num_after f x = json_pre (fst x) (f (snd x))"

definition json_number :: "string \<Rightarrow> (string \<times> string) option" where
  "json_number s =
     Option.bind (case s of c # t \<Rightarrow> if c = CHR ''-'' then json_pre [c] (num_int t) else num_int s | [] \<Rightarrow> None)
       (\<lambda>x. Option.bind (num_after num_frac x) (num_after num_exp))"

definition jliteral :: "string \<Rightarrow> (json \<times> string) option" where
  "jliteral s =
     (if HasPrefix s ''null'' then Some (JNull, drop 4 s)
      else if HasPrefix s ''true'' then Some (JBool True, drop 4 s)
      else if HasPrefix s ''false'' then Some (JBool False, drop 5 s)
      else map_option (\<lambda>(n, r). (JNum n, r)) (json_number s))"

subsection \<open>Values\<close>

text \<open>A value and what follows it; the elements of an array and the members of an object from the
  first one on.\<close>

fun jvalue :: "nat \<Rightarrow> string \<Rightarrow> (json \<times> string) option"
  and jelems :: "nat \<Rightarrow> string \<Rightarrow> (json list \<times> string) option"
  and jmembers :: "nat \<Rightarrow> string \<Rightarrow> ((string \<times> json) list \<times> string) option" where
  "jvalue 0 s = None"
| "jvalue (Suc n) s =
     (case json_ws s of
        [] \<Rightarrow> None
      | c # t \<Rightarrow>
          if c = quote_char then map_option (\<lambda>(x, r). (JStr x, r)) (json_str t)
          else if c = CHR ''['' then
            (case json_ws t of
               [] \<Rightarrow> None
             | d # r \<Rightarrow> if d = CHR '']'' then Some (JArr [], r) else map_option (\<lambda>(xs, r). (JArr xs, r)) (jelems n t))
          else if c = CHR ''{'' then
            (case json_ws t of
               [] \<Rightarrow> None
             | d # r \<Rightarrow> if d = CHR ''}'' then Some (JObj [], r) else map_option (\<lambda>(ms, r). (JObj ms, r)) (jmembers n t))
          else jliteral (c # t))"
| "jelems 0 s = None"
| "jelems (Suc n) s =
     (case jvalue n s of
        None \<Rightarrow> None
      | Some (v, r) \<Rightarrow>
          (case json_ws r of
             [] \<Rightarrow> None
           | c # t \<Rightarrow>
               if c = CHR '','' then map_option (\<lambda>(vs, r). (v # vs, r)) (jelems n t)
               else if c = CHR '']'' then Some ([v], t) else None))"
| "jmembers 0 s = None"
| "jmembers (Suc n) s =
     (case json_ws s of
        [] \<Rightarrow> None
      | q # t \<Rightarrow>
          if q \<noteq> quote_char then None
          else case json_str t of
            None \<Rightarrow> None
          | Some (k, r) \<Rightarrow>
              (case json_ws r of
                 [] \<Rightarrow> None
               | c # t \<Rightarrow>
                   if c \<noteq> CHR '':'' then None
                   else case jvalue n t of
                     None \<Rightarrow> None
                   | Some (v, r) \<Rightarrow>
                       (case json_ws r of
                          [] \<Rightarrow> None
                        | c # t \<Rightarrow>
                            if c = CHR '','' then map_option (\<lambda>(ms, r). ((k, v) # ms, r)) (jmembers n t)
                            else if c = CHR ''}'' then Some ([(k, v)], t) else None)))"

definition parse_value :: "string \<Rightarrow> (json \<times> string) option" where
  "parse_value s = jvalue (2 * length s) s"

declare jvalue.simps [simp del] jelems.simps [simp del] jmembers.simps [simp del]

subsection \<open>The fuel is enough\<close>

lemma digits_length: "digits s = Some (d, r) \<Longrightarrow> length r < length s"
proof -
  assume "digits s = Some (d, r)"
  then have "takeWhile digit s \<noteq> []" "r = dropWhile digit s" by (auto simp: digits_def split: list.splits)
  then show ?thesis using takeWhile_dropWhile_id [of digit s] by (metis length_append length_greater_0_conv less_add_same_cancel2)
qed

lemma json_pre_Some: "json_pre p x = Some (a, r) \<longleftrightarrow> (\<exists>b. x = Some (b, r) \<and> a = p @ b)"
  by (auto simp: json_pre_def)

lemma num_int_length: "num_int s = Some (d, r) \<Longrightarrow> length r < length s"
  by (auto simp: num_int_def split: list.splits if_splits dest: digits_length)

lemma num_frac_length: "num_frac s = Some (d, r) \<Longrightarrow> length r \<le> length s"
  by (auto simp: num_frac_def json_pre_Some split: list.splits if_splits dest!: digits_length)

lemma num_exp_length: "num_exp s = Some (d, r) \<Longrightarrow> length r \<le> length s"
  by (auto simp: num_exp_def json_pre_Some split: list.splits if_splits dest!: digits_length)

lemma json_number_length: "json_number s = Some (d, r) \<Longrightarrow> length r < length s"
  unfolding json_number_def num_after_def bind_eq_Some_conv
  by (cases s) (fastforce simp: json_pre_Some split: if_splits dest!: num_int_length num_frac_length num_exp_length)+

lemma jliteral_length: "jliteral s = Some (v, r) \<Longrightarrow> length r < length s"
  by (auto simp: jliteral_def HasPrefix_iff split: if_splits dest: json_number_length)

lemma json_ws_Cons: "json_ws s = c # t \<Longrightarrow> length t < length s"
  using json_ws_length [of s] by simp

text \<open>Each parser leaves less than it was given, and any fuel from its bound on gives what any
  smaller fuel gave.\<close>

definition fuelled :: "(nat \<Rightarrow> string \<Rightarrow> ('a \<times> string) option) \<Rightarrow> nat \<Rightarrow> nat \<Rightarrow> bool" where
  "fuelled p k n \<longleftrightarrow> (\<forall>s x r. p n s = Some (x, r) \<longrightarrow> length r < length s
     \<and> (\<forall>m \<ge> 2 * length s + k. p m s = Some (x, r)))"

lemma fuelledD:
  assumes "fuelled p k n" and "p n s = Some (x, r)"
  shows "length r < length s" and "2 * length s + k \<le> m \<Longrightarrow> p m s = Some (x, r)"
  using assms unfolding fuelled_def by blast+

lemma jelems_fuel:
  assumes "fuelled jvalue 0 n" and "fuelled jelems 1 n"
  shows "fuelled jelems 1 (Suc n)"
  unfolding fuelled_def
proof (intro allI impI)
  fix s vs q assume "jelems (Suc n) s = Some (vs, q)"
  then obtain v r c t where v: "jvalue n s = Some (v, r)" and c: "json_ws r = c # t"
    and rest: "if c = CHR '','' then map_option (\<lambda>(vs, r). (v # vs, r)) (jelems n t) = Some (vs, q)
      else c = CHR '']'' \<and> vs = [v] \<and> q = t"
    by (auto simp: jelems.simps split: option.splits list.splits if_splits)
  note vf = fuelledD [OF assms(1) v]
  have t: "length t < length s" using vf(1) json_ws_Cons [OF c] by simp
  have step: "\<exists>m'. m = Suc m' \<and> jvalue m' s = Some (v, r) \<and> 2 * length t + 1 \<le> m'" if "2 * length s + 1 \<le> m" for m
    using that vf(2) t by (cases m) auto
  show "length q < length s \<and> (\<forall>m \<ge> 2 * length s + 1. jelems m s = Some (vs, q))"
  proof (cases "c = CHR '',''")
    case True
    with rest obtain us where us: "jelems n t = Some (us, q)" "vs = v # us" by auto
    note tf = fuelledD [OF assms(2) us(1)]
    have "jelems m s = Some (vs, q)" if m: "2 * length s + 1 \<le> m" for m
    proof -
      from step [OF m] obtain m' where "m = Suc m'" "jvalue m' s = Some (v, r)" "2 * length t + 1 \<le> m'" by blast
      with tf(2) [of m'] c True us show ?thesis by (simp add: jelems.simps)
    qed
    with tf(1) t show ?thesis by simp
  next
    case False
    have "jelems m s = Some (vs, q)" if m: "2 * length s + 1 \<le> m" for m
      using step [OF m] False rest c by (auto simp: jelems.simps)
    with False rest t show ?thesis by simp
  qed
qed

lemma jmembers_fuel:
  assumes "fuelled jvalue 0 n" and "fuelled jmembers 1 n"
  shows "fuelled jmembers 1 (Suc n)"
  unfolding fuelled_def
proof (intro allI impI)
  fix s ms q assume "jmembers (Suc n) s = Some (ms, q)"
  then obtain t k r u v r' c t' where
      ws: "json_ws s = quote_char # t" "json_str t = Some (k, r)" "json_ws r = CHR '':'' # u"
    and v: "jvalue n u = Some (v, r')" and c: "json_ws r' = c # t'"
    and rest: "if c = CHR '','' then map_option (\<lambda>(ms, r). ((k, v) # ms, r)) (jmembers n t') = Some (ms, q)
      else c = CHR ''}'' \<and> ms = [(k, v)] \<and> q = t'"
    by (auto simp: jmembers.simps split: option.splits list.splits if_splits)
  note vf = fuelledD [OF assms(1) v]
  have u: "length u < length s" using json_ws_Cons [OF ws(1)] json_str_length [OF ws(2)] json_ws_Cons [OF ws(3)] by simp
  have t: "length t' < length u" using vf(1) json_ws_Cons [OF c] by simp
  have step: "\<exists>m'. m = Suc m' \<and> jvalue m' u = Some (v, r') \<and> 2 * length t' + 1 \<le> m'" if "2 * length s + 1 \<le> m" for m
    using that vf(2) t u by (cases m) auto
  show "length q < length s \<and> (\<forall>m \<ge> 2 * length s + 1. jmembers m s = Some (ms, q))"
  proof (cases "c = CHR '',''")
    case True
    with rest obtain us where us: "jmembers n t' = Some (us, q)" "ms = (k, v) # us" by auto
    note tf = fuelledD [OF assms(2) us(1)]
    have "jmembers m s = Some (ms, q)" if m: "2 * length s + 1 \<le> m" for m
    proof -
      from step [OF m] obtain m' where "m = Suc m'" "jvalue m' u = Some (v, r')" "2 * length t' + 1 \<le> m'" by blast
      with tf(2) [of m'] c True us ws show ?thesis by (simp add: jmembers.simps)
    qed
    with tf(1) t u show ?thesis by simp
  next
    case False
    have "jmembers m s = Some (ms, q)" if m: "2 * length s + 1 \<le> m" for m
      using step [OF m] False rest c ws by (auto simp: jmembers.simps)
    with False rest t u show ?thesis by simp
  qed
qed

lemma jvalue_fuel_step:
  assumes "fuelled jelems 1 n" and "fuelled jmembers 1 n"
  shows "fuelled jvalue 0 (Suc n)"
  unfolding fuelled_def
proof (intro allI impI)
  fix s v q assume v: "jvalue (Suc n) s = Some (v, q)"
  then obtain c t where c: "json_ws s = c # t" by (auto simp: jvalue.simps split: list.splits)
  have t: "length t < length s" by (rule json_ws_Cons [OF c])
  have step: "\<exists>m'. m = Suc m' \<and> 2 * length t + 1 \<le> m'" if "2 * length s \<le> m" for m
    using that t by (cases m) auto
  consider (str) "c = quote_char" | (arr) "c = CHR ''[''" | (obj) "c = CHR ''{''"
    | (lit) "c \<noteq> quote_char" "c \<noteq> CHR ''[''" "c \<noteq> CHR ''{''" by blast
  then show "length q < length s \<and> (\<forall>m \<ge> 2 * length s + 0. jvalue m s = Some (v, q))"
  proof cases
    case str
    with v c obtain x where x: "json_str t = Some (x, q)" "v = JStr x"
      by (auto simp: jvalue.simps split: option.splits)
    have "jvalue m s = Some (v, q)" if "2 * length s \<le> m" for m
      using step [OF that] x c str by (auto simp: jvalue.simps)
    with json_str_length [OF x(1)] t show ?thesis by simp
  next
    case arr
    have nq: "CHR ''['' \<noteq> quote_char" by (simp add: quote_char_def)
    with v c arr obtain d r where d: "json_ws t = d # r" by (auto simp: jvalue.simps split: list.splits)
    show ?thesis
    proof (cases "d = CHR '']''")
      case True
      with v c arr d nq have "v = JArr []" "q = r" by (simp_all add: jvalue.simps)
      moreover from this have "jvalue m s = Some (v, q)" if "2 * length s \<le> m" for m
        using step [OF that] c arr d True nq by (auto simp: jvalue.simps)
      ultimately show ?thesis using json_ws_Cons [OF d] t by simp
    next
      case False
      with v c arr d nq obtain vs where vs: "jelems n t = Some (vs, q)" "v = JArr vs"
        by (auto simp: jvalue.simps)
      note f = fuelledD [OF assms(1) vs(1)]
      have "jvalue m s = Some (v, q)" if "2 * length s \<le> m" for m
        using step [OF that] f(2) c arr d False nq vs(2) by (auto simp: jvalue.simps)
      with f(1) t show ?thesis by simp
    qed
  next
    case obj
    have nq: "CHR ''{'' \<noteq> quote_char" by (simp add: quote_char_def)
    with v c obj obtain d r where d: "json_ws t = d # r" by (auto simp: jvalue.simps split: list.splits)
    show ?thesis
    proof (cases "d = CHR ''}''")
      case True
      with v c obj d nq have "v = JObj []" "q = r" by (simp_all add: jvalue.simps)
      moreover from this have "jvalue m s = Some (v, q)" if "2 * length s \<le> m" for m
        using step [OF that] c obj d True nq by (auto simp: jvalue.simps)
      ultimately show ?thesis using json_ws_Cons [OF d] t by simp
    next
      case False
      with v c obj d nq obtain ms where ms: "jmembers n t = Some (ms, q)" "v = JObj ms"
        by (auto simp: jvalue.simps)
      note f = fuelledD [OF assms(2) ms(1)]
      have "jvalue m s = Some (v, q)" if "2 * length s \<le> m" for m
        using step [OF that] f(2) c obj d False nq ms(2) by (auto simp: jvalue.simps)
      with f(1) t show ?thesis by simp
    qed
  next
    case lit
    with v c have l: "jliteral (c # t) = Some (v, q)" by (simp add: jvalue.simps)
    have "jvalue m s = Some (v, q)" if "2 * length s \<le> m" for m
      using step [OF that] l c lit by (auto simp: jvalue.simps)
    with jliteral_length [OF l] t show ?thesis by simp
  qed
qed

lemma parsers_fuelled: "fuelled jvalue 0 n \<and> fuelled jelems 1 n \<and> fuelled jmembers 1 n"
proof (induction n)
  case 0
  show ?case by (simp add: fuelled_def jvalue.simps jelems.simps jmembers.simps)
next
  case (Suc n)
  then show ?case using jvalue_fuel_step jelems_fuel jmembers_fuel by blast
qed

lemma jvalue_fuel:
  assumes "jvalue n s = Some x"
  shows "parse_value s = Some x"
proof -
  obtain v r where x: "x = (v, r)" by (cases x)
  show ?thesis
    unfolding parse_value_def x
    by (rule fuelledD(2) [OF parsers_fuelled [THEN conjunct1] assms [unfolded x]]) simp
qed

text \<open>So the fuel does not show, and white space in front does not either.\<close>

lemma parse_value_any: "2 * length s \<le> m \<Longrightarrow> jvalue m s = parse_value s"
proof (cases "parse_value s")
  case None
  then show ?thesis using jvalue_fuel by (cases "jvalue m s") force+
next
  case (Some x)
  assume "2 * length s \<le> m"
  moreover obtain v r where "x = (v, r)" by (cases x)
  ultimately show ?thesis
    using fuelledD(2) [OF parsers_fuelled [THEN conjunct1], of "2 * length s" s v r m] Some
    by (simp add: parse_value_def)
qed

lemma parse_value_ws:
  assumes "json_ws (c # s) = json_ws s"
  shows "parse_value (c # s) = parse_value s"
proof -
  have "parse_value (c # s) = jvalue (Suc (2 * length s + 1)) s"
    by (simp add: parse_value_def jvalue.simps assms)
  then show ?thesis using parse_value_any [of s "Suc (2 * length s + 1)"] by simp
qed

lemma parse_value_length: "parse_value s = Some (v, r) \<Longrightarrow> length r < length s"
  unfolding parse_value_def by (rule fuelledD(1) [OF parsers_fuelled [THEN conjunct1]])

subsection \<open>Structs\<close>

text \<open>A key names the field of that name, or else the first one that differs in case only: ASCII
  letters, and the two other runes that fold to one (the long s and the Kelvin sign).\<close>

definition ascii_fold :: "char \<Rightarrow> char" where
  "ascii_fold c = (if 65 \<le> byte c \<and> byte c \<le> 90 then char_of (byte c + 32) else c)"

definition long_s :: string where "long_s = [char_of (197 :: nat), char_of (191 :: nat)]"
definition kelvin :: string where "kelvin = [char_of (226 :: nat), char_of (132 :: nat), char_of (170 :: nat)]"

fun fold_name :: "string \<Rightarrow> string" where
  "fold_name [] = []"
| "fold_name (c # s) =
     (if HasPrefix (c # s) long_s then CHR ''s'' # fold_name (drop 1 s)
      else if HasPrefix (c # s) kelvin then CHR ''k'' # fold_name (drop 2 s)
      else ascii_fold c # fold_name s)"

definition find_field :: "string list \<Rightarrow> string \<Rightarrow> string option" where
  "find_field names k = (if k \<in> set names then Some k else List.find (\<lambda>n. fold_name n = fold_name k) names)"

text \<open>Decoding into a struct: members in their order, unknown ones skipped, \<open>null\<close> ignored, a value of
  the wrong type an error.\<close>

fun set_members :: "(string \<Rightarrow> json \<Rightarrow> 'r \<Rightarrow> 'r option) \<Rightarrow> string list \<Rightarrow> (string \<times> json) list \<Rightarrow> 'r \<Rightarrow> 'r option" where
  "set_members f names [] r = Some r"
| "set_members f names ((k, v) # ms) r =
     (case find_field names k of
        None \<Rightarrow> set_members f names ms r
      | Some n \<Rightarrow> Option.bind (f n v r) (set_members f names ms))"

definition decode_struct :: "(string \<Rightarrow> json \<Rightarrow> 'r \<Rightarrow> 'r option) \<Rightarrow> string list \<Rightarrow> json \<Rightarrow> 'r \<Rightarrow> 'r option" where
  "decode_struct f names v r =
     (case v of JObj ms \<Rightarrow> set_members f names ms r | JNull \<Rightarrow> Some r | _ \<Rightarrow> None)"

definition set_string :: "json \<Rightarrow> string \<Rightarrow> string option" where
  "set_string v old = (case v of JStr x \<Rightarrow> Some x | JNull \<Rightarrow> Some old | _ \<Rightarrow> None)"

definition set_strings :: "json \<Rightarrow> string list option" where
  "set_strings v =
     (case v of JNull \<Rightarrow> Some [] | JArr vs \<Rightarrow> those (map (\<lambda>v. set_string v []) vs) | _ \<Rightarrow> None)"

text \<open>\<open>json.Marshal\<close> of a struct, from the texts of its fields.\<close>

definition json_member :: "string \<times> string \<Rightarrow> string" where
  "json_member m = json_string (fst m) @ '':'' @ snd m"

definition json_object :: "(string \<times> string) list \<Rightarrow> string" where
  "json_object ms = ''{'' @ Join (map json_member ms) '','' @ ''}''"

lemma json_member_pair: "json_member (k, e) = quote_char # json_body k @ quote_char # CHR '':'' # e"
  by (simp add: json_member_def json_string_def)

subsection \<open>What is written is read back\<close>

text \<open>\<open>encodes k tx v\<close>: with at least \<open>k\<close> of fuel, \<open>tx\<close> is read as \<open>v\<close>, whatever follows.\<close>

definition encodes :: "nat \<Rightarrow> string \<Rightarrow> json \<Rightarrow> bool" where
  "encodes k tx v \<longleftrightarrow> (\<forall>n t. k \<le> n \<longrightarrow> jvalue n (tx @ t) = Some (v, t))"

lemma encodesD: "encodes k tx v \<Longrightarrow> k \<le> n \<Longrightarrow> jvalue n (tx @ t) = Some (v, t)"
  by (simp add: encodes_def)

lemma encodes_mono: "encodes k tx v \<Longrightarrow> k \<le> k' \<Longrightarrow> encodes k' tx v"
  by (simp add: encodes_def)

lemma encodes_string: "valid_utf8 x \<Longrightarrow> encodes 1 (json_string x) (JStr x)"
  unfolding encodes_def
proof (intro allI impI)
  fix n t assume "valid_utf8 x" "1 \<le> (n :: nat)"
  then show "jvalue n (json_string x @ t) = Some (JStr x, t)"
    by (cases n) (simp_all add: jvalue.simps json_string_def json_str_body)
qed

lemma json_ws_punct [simp]:
  "json_ws (CHR '','' # s) = CHR '','' # s" "json_ws (CHR '']'' # s) = CHR '']'' # s" "json_ws (CHR ''['' # s) = CHR ''['' # s"
  "json_ws (CHR '':'' # s) = CHR '':'' # s" "json_ws (CHR ''}'' # s) = CHR ''}'' # s" "json_ws (CHR ''{'' # s) = CHR ''{'' # s"
  "json_ws (CHR ''n'' # s) = CHR ''n'' # s"
  by (simp_all add: json_ws_def)

lemma quote_punct [simp]:
  "quote_char \<noteq> CHR '']''" "quote_char \<noteq> CHR ''['' " "quote_char \<noteq> CHR ''{''" "quote_char \<noteq> CHR ''}''"
  "CHR ''['' \<noteq> quote_char" "CHR ''{'' \<noteq> quote_char" "CHR ''n'' \<noteq> quote_char" "quote_char \<noteq> CHR ''n''"
  by (simp_all add: quote_char_def)

lemma jelems_strings:
  assumes "ss \<noteq> []" and "list_all valid_utf8 ss"
  shows "length ss < n \<Longrightarrow> jelems n (Join (map json_string ss) '','' @ CHR '']'' # t) = Some (map JStr ss, t)"
  using assms
proof (induction ss arbitrary: n rule: list_nonempty_induct)
  case (single x)
  then obtain m where m: "n = Suc m" "1 \<le> m" by (cases n) auto
  with single encodesD [OF encodes_string, of x m "CHR '']'' # t"] show ?case by (simp add: jelems.simps)
next
  case (cons x xs)
  then obtain m where m: "n = Suc m" "1 \<le> m" "length xs < m" by (cases n) auto
  have "jvalue m (json_string x @ CHR '','' # Join (map json_string xs) '','' @ CHR '']'' # t)
      = Some (JStr x, CHR '','' # Join (map json_string xs) '','' @ CHR '']'' # t)"
    using cons.prems(2) m(2) by (intro encodesD [OF encodes_string]) simp_all
  moreover have "jelems m (Join (map json_string xs) '','' @ CHR '']'' # t) = Some (map JStr xs, t)"
    using cons m(3) by simp
  ultimately show ?case using cons.hyps by (simp add: m(1) jelems.simps Join_Cons)
qed

definition json_of_strings :: "string list \<Rightarrow> json" where
  "json_of_strings ss = (if ss = [] then JNull else JArr (map JStr ss))"

lemma encodes_strings: "list_all valid_utf8 ss \<Longrightarrow> encodes (length ss + 2) (json_marshal ss) (json_of_strings ss)"
  unfolding encodes_def
proof (intro allI impI)
  fix n t assume ok: "list_all valid_utf8 ss" and n: "length ss + 2 \<le> (n :: nat)"
  then obtain m where m: "n = Suc m" "length ss < m" by (cases n) auto
  show "jvalue n (json_marshal ss @ t) = Some (json_of_strings ss, t)"
  proof (cases ss)
    case Nil
    then show ?thesis by (simp add: m(1) jvalue.simps json_marshal_def json_of_strings_def jliteral_def HasPrefix_def)
  next
    case (Cons x xs)
    then obtain u where u: "Join (map json_string ss) '','' @ CHR '']'' # t = quote_char # u"
      by (cases xs) (simp_all add: Join_Cons json_string_def)
    from jelems_strings [OF _ ok m(2), of t] Cons have "jelems m (quote_char # u) = Some (map JStr ss, t)"
      unfolding u by simp
    then show ?thesis using u Cons by (simp add: m(1) jvalue.simps json_marshal_def json_of_strings_def)
  qed
qed

lemma jmembers_object:
  assumes "ms \<noteq> []" and "list_all2 (\<lambda>(k, tx) (k', v). k' = k \<and> valid_utf8 k \<and> encodes b tx v) ms vs"
  shows "b + length ms \<le> n \<Longrightarrow> 0 < b \<Longrightarrow> jmembers n (Join (map json_member ms) '','' @ CHR ''}'' # t) = Some (vs, t)"
  using assms
proof (induction ms arbitrary: n vs rule: list_nonempty_induct)
  case (single x)
  obtain k tx where x: "x = (k, tx)" by (cases x)
  with single.prems(3) obtain v where v: "vs = [(k, v)]" "valid_utf8 k" "encodes b tx v"
    by (auto simp: list_all2_Cons1)
  obtain m where m: "n = Suc m" "b \<le> m" using single.prems(1) by (cases n) auto
  show ?case
    using v encodesD [OF v(3) m(2), of "CHR ''}'' # t"]
    by (simp add: m(1) x jmembers.simps json_member_pair json_str_body)
next
  case (cons x xs)
  obtain k tx where x: "x = (k, tx)" by (cases x)
  with cons.prems(3) obtain v us where v: "vs = (k, v) # us" "valid_utf8 k" "encodes b tx v"
    and us: "list_all2 (\<lambda>(k, tx) (k', v). k' = k \<and> valid_utf8 k \<and> encodes b tx v) xs us"
    by (auto simp: list_all2_Cons1)
  obtain m where m: "n = Suc m" "b \<le> m" "b + length xs \<le> m" using cons.prems(1) by (cases n) auto
  have "jmembers m (Join (map json_member xs) '','' @ CHR ''}'' # t) = Some (us, t)"
    by (rule cons.IH) (use m us cons.prems(2) in simp_all)
  then show ?case
    using cons.hyps v encodesD [OF v(3) m(2), of "CHR '','' # Join (map json_member xs) '','' @ CHR ''}'' # t"]
    by (simp add: m(1) x jmembers.simps json_member_pair json_str_body Join_Cons)
qed

lemma parse_object:
  assumes "ms \<noteq> []" and "list_all2 (\<lambda>(k, tx) (k', v). k' = k \<and> valid_utf8 k \<and> encodes b tx v) ms vs"
  shows "parse_value (json_object ms @ t) = Some (JObj vs, t)"
proof (rule jvalue_fuel)
  obtain u where u: "Join (map json_member ms) '','' @ CHR ''}'' # t = quote_char # u"
    using assms(1) by (cases ms; cases "tl ms") (auto simp: Join_Cons json_member_def json_string_def)
  have "list_all2 (\<lambda>(k, tx) (k', v). k' = k \<and> valid_utf8 k \<and> encodes (Suc b) tx v) ms vs"
    using assms(2) by (rule list_all2_mono) (auto intro: encodes_mono)
  from jmembers_object [OF assms(1) this order_refl, of t] u
  have "jmembers (Suc b + length ms) (quote_char # u) = Some (vs, t)" by simp
  then show "jvalue (Suc (Suc b + length ms)) (json_object ms @ t) = Some (JObj vs, t)"
    using u by (simp add: jvalue.simps json_object_def)
qed

end
