(* ===== verification/Pubsub.thy ===== *)
theory Pubsub
  imports Json ServerSafe
begin

text \<open>
  \<^verbatim>\<open>internal/pubsub/pubsub.go\<close>: the subject of a prompt, the body of an event and how a
  subscriber reads it. The NATS server and client are not part of the repository: what they deliver
  is a parameter, with the documented rules of subjects that the code relies on as the locale
  \<open>nats\<close>. Without wildcards a subscription gets the messages of exactly its subject, in order; the
  token \<open>*\<close> stands for any one token, so that a prompt named with it is not watched alone.
\<close>

record event =
  Version :: string
  Classification :: string

definition Subject :: "string \<Rightarrow> string" where
  "Subject uri = ''promptnet.'' @ ReplaceAll (TrimPrefix uri ''promptnet://'') ''/'' ''.''"

text \<open>\<open>json.Marshal\<close> of an event: an empty classification is omitted.\<close>

definition event_fields :: "event \<Rightarrow> (string \<times> string) list" where
  "event_fields e =
     (''version'', json_string (Version e))
     # (if Classification e = [] then [] else [(''classification'', json_string (Classification e))])"

text \<open>\<open>Publish\<close>: the message handed to the NATS connection.\<close>

definition Publish_event :: "string \<times> string \<times> string \<Rightarrow> string \<times> string" where
  "Publish_event n =
     (case n of (uri, versionHash, classification) \<Rightarrow>
        (Subject uri, json_object (event_fields \<lparr>Version = versionHash, Classification = classification\<rparr>)))"

definition event_field :: "string \<Rightarrow> json \<Rightarrow> event \<Rightarrow> event option" where
  "event_field n v e =
     (if n = ''version'' then map_option (\<lambda>x. e\<lparr>Version := x\<rparr>) (set_string v (Version e))
      else map_option (\<lambda>x. e\<lparr>Classification := x\<rparr>) (set_string v (Classification e)))"

definition unmarshal_event :: "string \<Rightarrow> event option" where
  "unmarshal_event b =
     (case parse_value b of
        None \<Rightarrow> None
      | Some (v, r) \<Rightarrow>
          if json_ws r = [] then decode_struct event_field [''version'', ''classification''] v \<lparr>Version = [], Classification = []\<rparr>
          else None)"

text \<open>A body that is not JSON, or names no version, is a bare version hash.\<close>

definition parseEvent :: "string \<Rightarrow> event" where
  "parseEvent b =
     (case unmarshal_event b of
        Some e \<Rightarrow> if Version e = [] then \<lparr>Version = b, Classification = []\<rparr> else e
      | None \<Rightarrow> \<lparr>Version = b, Classification = []\<rparr>)"

text \<open>A connection to NATS: the bodies delivered to a subscription of a subject, \<open>None\<close> if the client
  refuses it.\<close>

type_synonym connection = "string \<Rightarrow> string list option"

text \<open>\<open>Subscribe\<close>: the events its callback gets.\<close>

definition Subscribe :: "connection \<Rightarrow> string \<Rightarrow> event list option" where
  "Subscribe conn uri = map_option (map parseEvent) (conn (Subject uri))"

subsection \<open>Bodies\<close>

lemma event_roundtrip:
  assumes "valid_utf8 v" and "valid_utf8 k" and "v \<noteq> []"
  shows "parseEvent (json_object (event_fields \<lparr>Version = v, Classification = k\<rparr>)) = \<lparr>Version = v, Classification = k\<rparr>"
proof -
  let ?e = "\<lparr>Version = v, Classification = k\<rparr>"
  let ?vs = "(''version'', JStr v) # (if k = [] then [] else [(''classification'', JStr k)])"
  have names: "valid_utf8 ''version''" "valid_utf8 ''classification''"
    by (simp_all add: ascii_valid_utf8 byte_def)
  have "list_all2 (\<lambda>(k, tx) (k', v). k' = k \<and> valid_utf8 k \<and> encodes 1 tx v) (event_fields ?e) ?vs"
    using names encodes_string [OF assms(1)] encodes_string [OF assms(2)] by (simp add: event_fields_def)
  from parse_object [OF _ this, of "[]"]
  have "parse_value (json_object (event_fields ?e)) = Some (JObj ?vs, [])" by (simp add: event_fields_def)
  then show ?thesis
    using assms(3)
    by (simp add: parseEvent_def unmarshal_event_def json_ws_def decode_struct_def find_field_def
        event_field_def set_string_def)
qed

subsection \<open>Subjects\<close>

lemma slashes_to_dots: "ReplaceAll s ''/'' ''.'' = map (\<lambda>c. if c = CHR ''/'' then CHR ''.'' else c) s"
  by (induction s) (simp_all add: HasPrefix_def)

lemma Subject_path:
  "Subject (''promptnet://'' @ p) = ''promptnet.'' @ map (\<lambda>c. if c = CHR ''/'' then CHR ''.'' else c) p"
  by (simp only: Subject_def TrimPrefix_append slashes_to_dots)

text \<open>Prompts without a dot in their path have subjects of their own.\<close>

lemma Subject_inj:
  assumes "CHR ''.'' \<notin> set p" and "CHR ''.'' \<notin> set q"
  shows "Subject (''promptnet://'' @ p) = Subject (''promptnet://'' @ q) \<longleftrightarrow> p = q"
proof
  assume "Subject (''promptnet://'' @ p) = Subject (''promptnet://'' @ q)"
  then have eq: "map (\<lambda>c. if c = CHR ''/'' then CHR ''.'' else c) p = map (\<lambda>c. if c = CHR ''/'' then CHR ''.'' else c) q"
    unfolding Subject_def TrimPrefix_append slashes_to_dots by simp
  have "inj_on (\<lambda>c. if c = CHR ''/'' then CHR ''.'' else c) (set p \<union> set q)"
    using assms by (auto simp: inj_on_def)
  with eq show "p = q" by (rule map_inj_on)
qed simp

text \<open>A token of a subject that stands for itself, and the prompts whose subject is made of such.\<close>

definition literal_token :: "string \<Rightarrow> bool" where
  "literal_token t \<longleftrightarrow> t \<noteq> [] \<and> t \<noteq> ''*'' \<and> t \<noteq> ''>''
     \<and> list_all (\<lambda>c. c \<notin> {CHR '' '', CHR 0x09, CHR 0x0A, CHR 0x0D}) t"

definition literal_subject :: "string \<Rightarrow> bool" where
  "literal_subject s \<longleftrightarrow> list_all literal_token (SplitByte s (CHR ''.''))"

definition literal_path :: "string \<Rightarrow> bool" where
  "literal_path p \<longleftrightarrow> CHR ''.'' \<notin> set p \<and> list_all literal_token (SplitByte p (CHR ''/''))"

lemma SplitByte_dots:
  "CHR ''.'' \<notin> set p \<Longrightarrow>
     SplitByte (map (\<lambda>c. if c = CHR ''/'' then CHR ''.'' else c) p) (CHR ''.'') = SplitByte p (CHR ''/'')"
  by (induction p) (auto split: list.splits)

lemma SplitByte_app: "c \<notin> set s \<Longrightarrow> SplitByte (s @ c # t) c = s # SplitByte t c"
  by (induction s) auto

lemma Subject_tokens:
  "CHR ''.'' \<notin> set p \<Longrightarrow>
     SplitByte (Subject (''promptnet://'' @ p)) (CHR ''.'') = ''promptnet'' # SplitByte p (CHR ''/'')"
  using SplitByte_app [of "CHR ''.''" "''promptnet''" "map (\<lambda>c. if c = CHR ''/'' then CHR ''.'' else c) p"]
  unfolding Subject_path by (simp add: SplitByte_dots)

lemma Subject_literal: "literal_path p \<Longrightarrow> literal_subject (Subject (''promptnet://'' @ p))"
  unfolding literal_path_def literal_subject_def
  by (elim conjE, subst Subject_tokens) (simp_all add: literal_token_def)

subsection \<open>What NATS promises\<close>

text \<open>\<open>deliver msgs\<close> is a connection while the messages \<open>msgs\<close> are published: a subscription of a
  subject of plain tokens gets the bodies of its own messages, and of no other's; one that ends in
  the token \<open>*\<close> those of every subject with one token in its place.\<close>

locale nats =
  fixes deliver :: "(string \<times> string) list \<Rightarrow> connection"
  assumes plain: "literal_subject subj \<Longrightarrow> list_all (\<lambda>m. literal_subject (fst m)) msgs \<Longrightarrow>
      deliver msgs subj = Some (map snd (filter (\<lambda>m. fst m = subj) msgs))"
    and one_token: "literal_subject (pre @ CHR ''.'' # tok) \<Longrightarrow> CHR ''.'' \<notin> set tok \<Longrightarrow>
      deliver [(pre @ CHR ''.'' # tok, body)] (pre @ ''.*'') = Some [body]"
begin

text \<open>A subscriber reads back, in their order, the version and the classification of exactly the
  events about its prompt.\<close>

lemma events_received:
  assumes "\<forall>(uri, v, k) \<in> set ns. (\<exists>p. uri = ''promptnet://'' @ p \<and> literal_path p)
      \<and> v \<noteq> [] \<and> valid_utf8 v \<and> valid_utf8 k"
    and "literal_path path"
  shows "Subscribe (deliver (map Publish_event ns)) (''promptnet://'' @ path)
    = Some (map (\<lambda>(uri, v, k). \<lparr>Version = v, Classification = k\<rparr>)
        (filter (\<lambda>(uri, v, k). uri = ''promptnet://'' @ path) ns))"
proof -
  have "list_all (\<lambda>m. literal_subject (fst m)) (map Publish_event ns)"
    using assms(1) Subject_literal by (fastforce simp: list_all_iff Publish_event_def)
  from plain [OF Subject_literal [OF assms(2)] this]
  have "Subscribe (deliver (map Publish_event ns)) (''promptnet://'' @ path)
    = Some (map parseEvent (map snd (filter (\<lambda>m. fst m = Subject (''promptnet://'' @ path)) (map Publish_event ns))))"
    by (simp add: Subscribe_def)
  also have "map parseEvent (map snd (filter (\<lambda>m. fst m = Subject (''promptnet://'' @ path)) (map Publish_event ns)))
    = map (\<lambda>(uri, v, k). \<lparr>Version = v, Classification = k\<rparr>) (filter (\<lambda>(uri, v, k). uri = ''promptnet://'' @ path) ns)"
    using assms(1)
  proof (induction ns)
    case (Cons n ns)
    obtain uri v k where n: "n = (uri, v, k)" by (cases n) auto
    with Cons.prems obtain p where p: "uri = ''promptnet://'' @ p" "literal_path p" "v \<noteq> []" "valid_utf8 v" "valid_utf8 k"
      by auto
    have "CHR ''.'' \<notin> set p" "CHR ''.'' \<notin> set path" using p(2) assms(2) by (simp_all add: literal_path_def)
    from Subject_inj [OF this] event_roundtrip [OF p(4,5,3)] Cons
    show ?case unfolding n p(1) Publish_event_def by simp
  qed simp
  finally show ?thesis .
qed

text \<open>The subject of a prompt whose last segment is \<open>*\<close> is a pattern: its subscriber hears the events
  of every prompt beside it.\<close>

lemma star_hears_others:
  assumes "literal_path (dir @ CHR ''/'' # name)" and "CHR ''/'' \<notin> set name"
    and "v \<noteq> []" and "valid_utf8 v" and "valid_utf8 k"
  shows "Subscribe (deliver [Publish_event (''promptnet://'' @ dir @ CHR ''/'' # name, v, k)]) (''promptnet://'' @ dir @ ''/*'')
    = Some [\<lparr>Version = v, Classification = k\<rparr>]"
proof -
  let ?dot = "map (\<lambda>c. if c = CHR ''/'' then CHR ''.'' else c)"
  let ?pre = "''promptnet.'' @ ?dot dir"
  have name: "?dot name = name" using assms(2) by (induction name) auto
  have subj: "Subject (''promptnet://'' @ dir @ CHR ''/'' # name) = ?pre @ CHR ''.'' # name"
    and star: "Subject (''promptnet://'' @ dir @ ''/*'') = ?pre @ ''.*''"
    unfolding Subject_path by (simp_all add: name)
  have lit: "literal_subject (?pre @ CHR ''.'' # name)"
    using Subject_literal [OF assms(1)] unfolding subj by simp
  have "CHR ''.'' \<notin> set name" using assms(1) by (simp add: literal_path_def)
  from one_token [OF lit this] event_roundtrip [OF assms(4,5,3)] show ?thesis
    unfolding Subscribe_def Publish_event_def prod.case subj star by simp
qed

end

text \<open>A broker that follows these rules: it refuses subjects with an empty token or white space, and
  compares token by token, where \<open>*\<close> matches any one token and \<open>>\<close> all that are left.\<close>

fun token_match :: "string list \<Rightarrow> string list \<Rightarrow> bool" where
  "token_match [] ts \<longleftrightarrow> ts = []"
| "token_match (p # ps) ts = (case ts of [] \<Rightarrow> False
     | t # ts' \<Rightarrow> p = ''>'' \<and> ps = [] \<or> (p = ''*'' \<or> p = t) \<and> token_match ps ts')"

definition broker :: "(string \<times> string) list \<Rightarrow> connection" where
  "broker msgs subj =
     (let ps = SplitByte subj (CHR ''.'')
      in if list_all (\<lambda>p. literal_token p \<or> p = ''*'' \<or> p = ''>'') ps
         then Some (map snd (filter (\<lambda>m. token_match ps (SplitByte (fst m) (CHR ''.''))) msgs)) else None)"

lemma token_match_literal: "list_all literal_token ps \<Longrightarrow> token_match ps ts \<longleftrightarrow> ps = ts"
  by (induction ps arbitrary: ts) (auto simp: literal_token_def split: list.splits)

lemma SplitByte_inj: "SplitByte s c = SplitByte t c \<longleftrightarrow> s = t"
  by (metis Join_SplitByte)

lemma SplitByte_last: "SplitByte (pre @ c # tok) c = SplitByte pre c @ SplitByte tok c"
  by (induction pre) (auto split: list.splits)

lemma SplitByte_single: "c \<notin> set s \<Longrightarrow> SplitByte s c = [s]"
  by (induction s) auto

lemma token_match_star: "list_all literal_token ps \<Longrightarrow> token_match (ps @ [''*'']) (ps @ [t])"
  by (induction ps) (auto simp: literal_token_def)

interpretation broker: nats broker
proof
  fix subj :: string and msgs :: "(string \<times> string) list"
  assume "literal_subject subj"
  then have "list_all literal_token (SplitByte subj (CHR ''.''))" by (simp add: literal_subject_def)
  moreover from this have "token_match (SplitByte subj (CHR ''.'')) (SplitByte s (CHR ''.'')) \<longleftrightarrow> s = subj" for s
    by (metis token_match_literal SplitByte_inj)
  ultimately show "broker msgs subj = Some (map snd (filter (\<lambda>m. fst m = subj) msgs))"
    by (auto simp: broker_def Let_def list_all_iff)
next
  fix pre tok body :: string
  assume "literal_subject (pre @ CHR ''.'' # tok)" and tok: "CHR ''.'' \<notin> set tok"
  then have pre: "list_all literal_token (SplitByte pre (CHR ''.''))"
    by (simp add: literal_subject_def SplitByte_last)
  have "SplitByte ''*'' (CHR ''.'') = [''*'']" by simp
  with pre tok token_match_star [OF pre] SplitByte_last [of pre "CHR ''.''" "''*''"]
  show "broker [(pre @ CHR ''.'' # tok, body)] (pre @ ''.*'') = Some [body]"
    by (auto simp: broker_def Let_def SplitByte_last SplitByte_single list_all_iff)
qed

text \<open>An agent of one prompt acts on the events of another.\<close>

lemma wildcard_name_hears_others:
  assumes "nats deliver" and "v \<noteq> []" and "valid_utf8 v"
  shows "Subscribe (deliver [Publish_event (''promptnet://acme/a'', v, ''structural'')]) ''promptnet://acme/*''
    = Some [\<lparr>Version = v, Classification = ''structural''\<rparr>]"
proof -
  have "literal_path (''acme'' @ CHR ''/'' # ''a'')" by (simp add: literal_path_def literal_token_def)
  moreover have "valid_utf8 ''structural''" by (simp add: ascii_valid_utf8 byte_def)
  ultimately show ?thesis
    using nats.star_hears_others [OF assms(1), of "''acme''" "''a''" v "''structural''"] assms(2,3) by simp
qed

text \<open>With a dot two prompts, of two organizations even, can share a subject.\<close>

lemma dotted_subjects_collide:
  "Subject ''promptnet://acme.eu/x'' = Subject ''promptnet://acme/eu/x''
     \<and> orgOf ''promptnet://acme.eu/x'' \<noteq> orgOf ''promptnet://acme/eu/x''"
  using orgOf_uri(1) [of "''acme.eu''" "''x''"] orgOf_uri(1) [of "''acme''" "''eu/x''"]
  by (simp add: Subject_def slashes_to_dots TrimPrefix_def HasPrefix_def)

end
