(* ===== verification/Backup.thy ===== *)
theory Backup
  imports Json ServerProps "HOL-Library.Multiset"
begin

text \<open>
  \<open>promptnet backup\<close> and \<open>promptnet restore\<close> of \<^verbatim>\<open>cmd/promptnet/main.go\<close>: a dump of the served
  prompts as one JSON object per line, and the loop that decodes such a stream and upserts each.
\<close>

text \<open>\<open>json.Encoder.Encode\<close> of a \<open>store.Prompt\<close>: the object and a newline.\<close>

definition encode_prompt :: "prompt \<Rightarrow> string" where
  "encode_prompt p =
     json_object [(''URI'', json_string (URI p)), (''Template'', json_string (Template p)),
       (''Slots'', json_marshal (Slots p)), (''VersionHash'', json_string (VersionHash p))] @ [CHR 0x0A]"

definition backup :: "store \<Rightarrow> env \<Rightarrow> db \<Rightarrow> err + string" where
  "backup s e d = (case Dump s e d of Inl er \<Rightarrow> Inl er | Inr ps \<Rightarrow> Inr (concat (map encode_prompt ps)))"

definition prompt_names :: "string list" where
  "prompt_names = [''URI'', ''Template'', ''Slots'', ''VersionHash'']"

definition prompt_field :: "string \<Rightarrow> json \<Rightarrow> prompt \<Rightarrow> prompt option" where
  "prompt_field n v p =
     (if n = ''URI'' then map_option (\<lambda>x. p\<lparr>URI := x\<rparr>) (set_string v (URI p))
      else if n = ''Template'' then map_option (\<lambda>x. p\<lparr>Template := x\<rparr>) (set_string v (Template p))
      else if n = ''Slots'' then map_option (\<lambda>x. p\<lparr>Slots := x\<rparr>) (set_strings v)
      else map_option (\<lambda>x. p\<lparr>VersionHash := x\<rparr>) (set_string v (VersionHash p)))"

definition decode_prompt :: "json \<Rightarrow> prompt option" where
  "decode_prompt v = decode_struct prompt_field prompt_names v \<lparr>URI = [], Template = [], Slots = [], VersionHash = []\<rparr>"

text \<open>How a restore ends: with the number of prompts, or fatally, on input that is no prompt or on a
  store that fails; what was restored before stays.\<close>

datatype restored =
    Restored nat
  | BadInput
  | PutFailed err

text \<open>The loop, with the environment of the \<open>n\<close>-th write. White space alone is the end of the input.\<close>

function restore_loop :: "store \<Rightarrow> (nat \<Rightarrow> env) \<Rightarrow> nat \<Rightarrow> string \<Rightarrow> db \<Rightarrow> restored \<times> db" where
  "restore_loop s es n input d =
     (if json_ws input = [] then (Restored n, d)
      else case parse_value input of
        None \<Rightarrow> (BadInput, d)
      | Some (v, rest) \<Rightarrow>
          (case decode_prompt v of
             None \<Rightarrow> (BadInput, d)
           | Some p \<Rightarrow>
               (case Put s (es n) p d of
                  (Inl er, d') \<Rightarrow> (PutFailed er, d')
                | (Inr _, d') \<Rightarrow> restore_loop s es (n + 1) rest d')))"
  by pat_completeness auto
termination
  by (relation "measure (\<lambda>(_, _, _, input, _). length input)") (auto dest: parse_value_length)

declare restore_loop.simps [simp del]

subsection \<open>One prompt\<close>

lemma ascii_names [simp]: "valid_utf8 ''URI''" "valid_utf8 ''Template''" "valid_utf8 ''Slots''" "valid_utf8 ''VersionHash''"
  by (simp_all add: ascii_valid_utf8 byte_def)

definition utf8_prompt :: "prompt \<Rightarrow> bool" where
  "utf8_prompt p \<longleftrightarrow> valid_utf8 (URI p) \<and> valid_utf8 (Template p) \<and> list_all valid_utf8 (Slots p) \<and> valid_utf8 (VersionHash p)"

definition prompt_value :: "prompt \<Rightarrow> json" where
  "prompt_value p = JObj [(''URI'', JStr (URI p)), (''Template'', JStr (Template p)),
     (''Slots'', json_of_strings (Slots p)), (''VersionHash'', JStr (VersionHash p))]"

lemma those_strings: "those (map (\<lambda>v. set_string v []) (map JStr ss)) = Some ss"
  by (induction ss) (simp_all add: set_string_def)

lemma set_strings_of: "set_strings (json_of_strings ss) = Some ss"
  using those_strings by (simp add: set_strings_def json_of_strings_def)

lemma decode_prompt_value: "decode_prompt (prompt_value p) = Some p"
proof -
  have "find_field prompt_names k = Some k" if "k \<in> set prompt_names" for k
    using that by (simp add: find_field_def)
  then have "find_field prompt_names ''URI'' = Some ''URI''" "find_field prompt_names ''Template'' = Some ''Template''"
    "find_field prompt_names ''Slots'' = Some ''Slots''" "find_field prompt_names ''VersionHash'' = Some ''VersionHash''"
    by (simp_all add: prompt_names_def)
  then show ?thesis
    by (simp add: decode_prompt_def prompt_value_def decode_struct_def prompt_field_def set_strings_of set_string_def)
qed

lemma parse_prompt:
  assumes "utf8_prompt p"
  shows "parse_value (encode_prompt p @ t) = Some (prompt_value p, CHR 0x0A # t)"
proof -
  let ?ms = "[(''URI'', json_string (URI p)), (''Template'', json_string (Template p)),
       (''Slots'', json_marshal (Slots p)), (''VersionHash'', json_string (VersionHash p))]"
  let ?vs = "[(''URI'', JStr (URI p)), (''Template'', JStr (Template p)),
     (''Slots'', json_of_strings (Slots p)), (''VersionHash'', JStr (VersionHash p))]"
  have str: "valid_utf8 x \<Longrightarrow> encodes (length (Slots p) + 2) (json_string x) (JStr x)" for x
    by (rule encodes_mono [OF encodes_string]) simp_all
  have "list_all2 (\<lambda>(k, tx) (k', v). k' = k \<and> valid_utf8 k \<and> encodes (length (Slots p) + 2) tx v) ?ms ?vs"
    using assms str encodes_strings [of "Slots p"] by (simp add: utf8_prompt_def)
  from parse_object [OF _ this, of "CHR 0x0A # t"] show ?thesis by (simp add: encode_prompt_def prompt_value_def)
qed

subsection \<open>Reading a stream back\<close>

lemma Put_calm:
  assumes "\<not> fails e UpsertPrompt"
  shows "Put s e p d = (Inr (), upsert_prompt (URI p) (served_row s e (Template p) (Slots p) (Hash (sha s) (Template p) (Slots p))) d)"
  using assms by (simp add: Put_def stmt_def served_row_def Let_def)

definition resp_of :: "store \<Rightarrow> prompt \<Rightarrow> get_resp" where
  "resp_of s p = \<lparr>g_Uri = URI p, g_Template = Template p, g_Slots = Slots p,
     g_VersionHash = Hash (sha s) (Template p) (Slots p), g_CommitHash = []\<rparr>"

lemma encode_prompt_Cons: "\<exists>t. encode_prompt p = CHR ''{'' # t"
  by (simp add: encode_prompt_def json_object_def)

lemma json_ws_newline [simp]: "json_ws (CHR 0x0A # s) = json_ws s" "json_ws [] = []"
  by (simp_all add: json_ws_def)

lemma restore_step:
  assumes "utf8_prompt p" and "\<not> fails (es n) UpsertPrompt"
  shows "restore_loop s es n (encode_prompt p @ t) d = restore_loop s es (n + 1) (CHR 0x0A # t)
    (upsert_prompt (URI p) (served_row s (es n) (Template p) (Slots p) (Hash (sha s) (Template p) (Slots p))) d)"
proof -
  obtain u where u: "encode_prompt p @ t = CHR ''{'' # u" using encode_prompt_Cons [of p] by auto
  have "json_ws (encode_prompt p @ t) \<noteq> []" unfolding u by simp
  with parse_prompt [OF assms(1), of t] decode_prompt_value [of p] Put_calm [OF assms(2), of s p d] show ?thesis
    by (simp add: restore_loop.simps [of s es n "encode_prompt p @ t"])
qed

lemma restore_newline: "restore_loop s es n (CHR 0x0A # t) d = restore_loop s es n t d"
  by (simp add: restore_loop.simps [of s es n "CHR 0x0A # t"] restore_loop.simps [of s es n t] parse_value_ws [OF json_ws_newline(1)])

lemma restore_stream:
  assumes "\<And>n. env_ok s (es n) \<and> \<not> fails (es n) UpsertPrompt"
  shows "list_all utf8_prompt ps \<Longrightarrow> \<exists>d'. restore_loop s es n (concat (map encode_prompt ps)) d = (Restored (n + length ps), d')
    \<and> refs d' = refs d \<and> commits d' = commits d
    \<and> (\<forall>u. head_resp s d' u = (case List.find (\<lambda>p. URI p = u) (rev ps) of
        Some p \<Rightarrow> Some (resp_of s p) | None \<Rightarrow> head_resp s d u))"
proof (induction ps arbitrary: n d)
  case Nil
  show ?case by (simp add: restore_loop.simps)
next
  case (Cons p ps)
  let ?row = "served_row s (es n) (Template p) (Slots p) (Hash (sha s) (Template p) (Slots p))"
  let ?d = "upsert_prompt (URI p) ?row d"
  from Cons.IH [of "n + 1" ?d] Cons.prems obtain d' where
    d': "restore_loop s es (n + 1) (concat (map encode_prompt ps)) ?d = (Restored (n + 1 + length ps), d')"
      "refs d' = refs ?d" "commits d' = commits ?d"
      "\<forall>u. head_resp s d' u = (case List.find (\<lambda>p. URI p = u) (rev ps) of
        Some p \<Rightarrow> Some (resp_of s p) | None \<Rightarrow> head_resp s ?d u)" by auto
  have "served_content s ?row (Template p) (Slots p)"
    using assms Cons.prems by (intro served_content_new) (simp_all add: utf8_prompt_def)
  from head_resp_content [OF _ this, of ?d "URI p"]
  have "head_resp s ?d (URI p) = Some (resp_of s p)" by (simp add: resp_of_def)
  moreover have "u \<noteq> URI p \<Longrightarrow> head_resp s ?d u = head_resp s d u" for u
    by (rule head_resp_frame) (simp add: upsert_prompt_def)
  moreover have "List.find (\<lambda>p. URI p = u) (rev ps @ [p]) = (case List.find (\<lambda>p. URI p = u) (rev ps) of
      Some q \<Rightarrow> Some q | None \<Rightarrow> if URI p = u then Some p else None)" for u
    by (auto simp: find_append split: option.splits)
  ultimately have "head_resp s d' u = (case List.find (\<lambda>p. URI p = u) (rev (p # ps)) of
        Some p \<Rightarrow> Some (resp_of s p) | None \<Rightarrow> head_resp s d u)" for u
    using d'(4) by (auto split: option.splits)
  moreover have "restore_loop s es n (concat (map encode_prompt (p # ps))) d = (Restored (n + length (p # ps)), d')"
    using restore_step [of p es n s "concat (map encode_prompt ps)" d] restore_newline Cons.prems assms d'(1) by simp
  ultimately show ?case using d'(2,3) by (auto simp: upsert_prompt_def)
qed

subsection \<open>Backups restore\<close>

lemma read_prompts_rows:
  "read_prompts s rows = Inr ps \<Longrightarrow> list_all2 (\<lambda>(u, r) p. URI p = u \<and> VersionHash p = pr_vhash r
     \<and> read_columns s (pr_template r) (pr_slots r) = Inr (Template p, Slots p)) rows ps"
proof (induction s rows arbitrary: ps rule: read_prompts.induct)
  case (2 s u r rs)
  then show ?case by (auto simp: rbind_eq_Inr)
qed simp

lemma find_unique:
  assumes "distinct (map f xs)" and "x \<in> set xs"
  shows "List.find (\<lambda>y. f y = f x) xs = Some x"
  using assms by (induction xs) auto

text \<open>What a dump holds: every served prompt, once.\<close>

lemma Dump_prompts:
  assumes "Dump s e d = Inr ps" and "content_ok s d" and "distinct (map fst (prompts d))"
  shows "distinct (map URI ps)" and "length ps = length (prompts d)"
    and "head_resp s d u = (case List.find (\<lambda>p. URI p = u) (rev ps) of Some p \<Rightarrow> Some (resp_of s p) | None \<Rightarrow> None)"
proof -
  define rows where "rows = sort_key (\<lambda>(u, r). order_key s u) (prompts d)"
  have "read_prompts s rows = Inr ps" using assms(1) by (simp add: Dump_def rows_def split: if_splits)
  note all = read_prompts_rows [OF this]
  have "mset rows = mset (prompts d)" unfolding rows_def by (rule mset_sort)
  then have set: "set rows = set (prompts d)" and len: "length rows = length (prompts d)"
    by (metis set_mset_mset, metis size_mset)
  have "mset (map fst rows) = mset (map fst (prompts d))" using \<open>mset rows = mset (prompts d)\<close> by simp
  then have dist: "distinct (map fst rows)" using assms(3) by (metis mset_eq_imp_distinct_iff)
  have fst: "map URI ps = map fst rows"
    using all by (induction rule: list_all2_induct) auto
  show "distinct (map URI ps)" using dist fst by simp
  show "length ps = length (prompts d)" using list_all2_lengthD [OF all] len by simp
  show "head_resp s d u = (case List.find (\<lambda>p. URI p = u) (rev ps) of Some p \<Rightarrow> Some (resp_of s p) | None \<Rightarrow> None)"
  proof (cases "map_of (prompts d) u")
    case None
    then have "u \<notin> set (map URI ps)" unfolding fst using set by (auto simp: map_of_eq_None_iff)
    then have "List.find (\<lambda>p. URI p = u) (rev ps) = None" by (auto simp: find_None_iff)
    with None show ?thesis by (simp add: head_resp_def)
  next
    case (Some row)
    then have "(u, row) \<in> set rows" using set by (auto dest: map_of_SomeD)
    with all obtain p where p: "p \<in> set ps" "URI p = u" "VersionHash p = pr_vhash row"
      "read_columns s (pr_template row) (pr_slots row) = Inr (Template p, Slots p)"
      by (fastforce simp: list_all2_conv_all_nth in_set_conv_nth)
    have "row \<in> snd ` set (prompts d)" using map_of_SomeD [OF Some] by force
    with assms(2) obtain t sl where "served_content s row t sl" by (auto simp: content_ok_def)
    then have "pr_vhash row = Hash (sha s) (Template p) (Slots p)" using p(4) by (simp add: served_content_def)
    then have "head_resp s d u = Some (resp_of s p)" using Some p by (simp add: head_resp_def resp_of_def)
    moreover have "List.find (\<lambda>q. URI q = URI p) (rev ps) = Some p"
      using p(1) \<open>distinct (map URI ps)\<close> by (intro find_unique) (simp_all add: rev_map [symmetric])
    ultimately show ?thesis using p(2) by simp
  qed
qed

text \<open>C14: a backup restores. Whatever the two stores' drivers and keys are, restoring the snapshot of
  one database into another succeeds, one write per prompt, and afterwards every prompt of the
  first is served from the second with the same template, slots and version hash; prompts that
  were there only stay, and no history is touched. (For text that is UTF-8.)\<close>

theorem backup_restores:
  assumes "content_ok s d" and "distinct (map fst (prompts d))" and "backup s e d = Inr snapshot"
    and "\<forall>ps. Dump s e d = Inr ps \<longrightarrow> list_all utf8_prompt ps"
    and "\<And>n. env_ok s' (es n) \<and> \<not> fails (es n) UpsertPrompt" and "sha s' = sha s"
  shows "\<exists>d'. restore_loop s' es 0 snapshot d0 = (Restored (length (prompts d)), d')
    \<and> (\<forall>u. head_resp s' d' u = (if map_of (prompts d) u = None then head_resp s' d0 u else head_resp s d u))
    \<and> commits d' = commits d0 \<and> refs d' = refs d0"
proof -
  from assms(3) obtain ps where ps: "Dump s e d = Inr ps" "snapshot = concat (map encode_prompt ps)"
    by (auto simp: backup_def split: sum.splits)
  note dump = Dump_prompts [OF ps(1) assms(1,2)]
  have resp: "resp_of s' p = resp_of s p" for p by (simp add: resp_of_def assms(6))
  obtain d' where d': "restore_loop s' es 0 snapshot d0 = (Restored (0 + length ps), d')"
    "refs d' = refs d0" "commits d' = commits d0"
    "\<forall>u. head_resp s' d' u = (case List.find (\<lambda>p. URI p = u) (rev ps) of
        Some p \<Rightarrow> Some (resp_of s' p) | None \<Rightarrow> head_resp s' d0 u)"
    using restore_stream [where s = s' and es = es and ps = ps and n = 0 and d = d0] assms(4,5) ps by auto
  have "head_resp s' d' u = (if map_of (prompts d) u = None then head_resp s' d0 u else head_resp s d u)" for u
  proof (cases "List.find (\<lambda>p. URI p = u) (rev ps)")
    case None
    with dump(3) [of u] have "head_resp s d u = None" by simp
    moreover have "map_of (prompts d) u \<noteq> None \<Longrightarrow> head_resp s d u \<noteq> None"
      using assms(1) map_of_SomeD by (fastforce simp: content_ok_def head_resp_def served_content_def)
    ultimately show ?thesis using d'(4) None by auto
  next
    case (Some p)
    with dump(3) [of u] have "head_resp s d u = Some (resp_of s p)" by simp
    moreover from this obtain row where "map_of (prompts d) u = Some row" by (auto simp: head_resp_def split: option.splits)
    ultimately show ?thesis using spec [OF d'(4), of u] Some resp by simp
  qed
  with d' dump(2) show ?thesis by auto
qed

lemma Hash_utf8: "valid_utf8 (Hash hf t sl)"
proof (rule ascii_valid_utf8)
  show "list_all (\<lambda>c. byte c < 0x80) (Hash hf t sl)"
    using set_EncodeToString by (fastforce simp: Hash_def list_all_iff hex_digits_def byte_def)
qed

theorem backup_restores_witness:
  "\<exists>snapshot d'. backup demo calm demo_db = Inr snapshot \<and> restore_loop demo (\<lambda>_. calm) 0 snapshot empty_db = (Restored 1, d')
    \<and> head_resp demo d' demo_uri = Some demo_resp"
proof -
  have p: "prompts demo_db = [(demo_uri, served_row demo calm ''Hi {n}'' [''n''] (Hash demo_sha ''Hi {n}'' [''n'']))]"
    by (subst demo_db_eq) (simp add: empty_db_def DefaultBranch_def)
  have c: "content_ok demo demo_db" using demo_synced by (simp add: synced_def)
  let ?p = "\<lparr>URI = demo_uri, Template = ''Hi {n}'', Slots = [''n''], VersionHash = Hash demo_sha ''Hi {n}'' [''n'']\<rparr>"
  have dump: "Dump demo calm demo_db = Inr [?p]" by (simp add: Dump_def p)
  have "valid_utf8 demo_uri" "valid_utf8 ''Hi {n}''" by (simp_all add: ascii_valid_utf8 byte_def demo_uri_def)
  moreover have "valid_utf8 (Hash demo_sha ''Hi {n}'' [''n''])" by (rule Hash_utf8)
  ultimately have u: "utf8_prompt ?p" by (simp add: utf8_prompt_def)
  from dump have b: "backup demo calm demo_db = Inr (concat (map encode_prompt [?p]))" by (simp add: backup_def)
  have h: "\<forall>ps. Dump demo calm demo_db = Inr ps \<longrightarrow> list_all utf8_prompt ps" using dump u by simp
  have m: "map_of (prompts demo_db) demo_uri \<noteq> None" by (simp add: p)
  from backup_restores [OF c _ b h, of demo "\<lambda>_. calm" empty_db] b demo_head(1) m show ?thesis by (auto simp: p)
qed

text \<open>Restoring does not validate: a backup line with a blank template is stored and served.\<close>

lemma restore_accepts_invalid:
  assumes "\<And>n. env_ok s (es n) \<and> \<not> fails (es n) UpsertPrompt" and "valid_utf8 uri"
  shows "\<exists>d'. restore_loop s es 0 (encode_prompt \<lparr>URI = uri, Template = [], Slots = [], VersionHash = []\<rparr>) d = (Restored 1, d')
    \<and> head_resp s d' uri = Some \<lparr>g_Uri = uri, g_Template = [], g_Slots = [], g_VersionHash = Hash (sha s) [] [], g_CommitHash = []\<rparr>
    \<and> validate_Prompt uri [] [] \<noteq> None"
proof -
  let ?p = "\<lparr>URI = uri, Template = [], Slots = [], VersionHash = []\<rparr>"
  have utf8: "list_all utf8_prompt [?p]" using assms(2) by (simp add: utf8_prompt_def)
  from restore_stream [where s = s and es = es, OF assms(1) this, of 0 d] obtain d' where
    "restore_loop s es 0 (encode_prompt ?p) d = (Restored 1, d')"
    "\<forall>u. head_resp s d' u = (case List.find (\<lambda>p. URI p = u) (rev [?p]) of Some p \<Rightarrow> Some (resp_of s p) | None \<Rightarrow> head_resp s d u)"
    by auto
  then have "restore_loop s es 0 (encode_prompt ?p) d = (Restored 1, d')" "head_resp s d' uri = Some (resp_of s ?p)"
    by simp_all
  then show ?thesis by (auto simp: resp_of_def validate_Prompt_def TrimSpace_def)
qed

end
