(* ===== verification/GoTime.thy ===== *)
theory GoTime
  imports GoStrings "HOL-Library.Monad_Syntax"
begin

text \<open>
  What the program uses of Go's \<^verbatim>\<open>time\<close>: \<open>time.Parse\<close> with the layouts \<open>2006-01-02\<close> and
  \<open>time.RFC3339\<close>. An instant is the number of nanoseconds from Go's zero time, midnight UTC on the
  first day of the year 1; an error is \<open>None\<close>. As in Go, each element of the layout consumes what
  it stands for, and the text has to be used up.
\<close>

subsection \<open>Numbers\<close>

definition is_digit :: "char \<Rightarrow> bool" where
  "is_digit c \<longleftrightarrow> CHR ''0'' \<le> c \<and> c \<le> CHR ''9''"

definition digit_val :: "char \<Rightarrow> int" where
  "digit_val c = of_char c - 48"

fun digits_val :: "int \<Rightarrow> string \<Rightarrow> int" where
  "digits_val n [] = n"
| "digits_val n (c # s) = digits_val (10 * n + digit_val c) s"

text \<open>\<open>getnum\<close>: two digits, or one if the layout does not insist.\<close>

fun getnum :: "bool \<Rightarrow> string \<Rightarrow> (int \<times> string) option" where
  "getnum fixed [] = None"
| "getnum fixed [a] = (if is_digit a \<and> \<not> fixed then Some (digit_val a, []) else None)"
| "getnum fixed (a # b # s) =
     (if \<not> is_digit a then None
      else if is_digit b then Some (10 * digit_val a + digit_val b, s)
      else if fixed then None
      else Some (digit_val a, b # s))"

definition get_year :: "string \<Rightarrow> (int \<times> string) option" where
  "get_year s = (if 4 \<le> length s \<and> list_all is_digit (take 4 s) then Some (digits_val 0 (take 4 s), drop 4 s) else None)"

fun expect :: "char \<Rightarrow> string \<Rightarrow> string option" where
  "expect c [] = None"
| "expect c (d # s) = (if d = c then Some s else None)"

definition within :: "int \<Rightarrow> int \<Rightarrow> int \<times> string \<Rightarrow> (int \<times> string) option" where
  "within lo hi x = (if lo \<le> fst x \<and> fst x \<le> hi then Some x else None)"

subsection \<open>The calendar\<close>

definition is_leap :: "int \<Rightarrow> bool" where
  "is_leap y \<longleftrightarrow> y mod 4 = 0 \<and> (y mod 100 \<noteq> 0 \<or> y mod 400 = 0)"

definition days_in :: "int \<Rightarrow> int \<Rightarrow> int" where
  "days_in y m = (if m = 2 then (if is_leap y then 29 else 28) else if m \<in> {4, 6, 9, 11} then 30 else 31)"

text \<open>Days from the zero time to the first day of a year, and of a month in it.\<close>

definition year_days :: "int \<Rightarrow> int" where
  "year_days y = 365 * (y - 1) + (y - 1) div 4 - (y - 1) div 100 + (y - 1) div 400"

definition month_days :: "int \<Rightarrow> int \<Rightarrow> int" where
  "month_days y m = sum_list (map (days_in y) [1 .. m - 1])"

definition Date :: "int \<Rightarrow> int \<Rightarrow> int \<Rightarrow> int \<Rightarrow> int \<Rightarrow> int \<Rightarrow> int \<Rightarrow> int" where
  "Date y m d hh mm ss ns =
     ((((year_days y + month_days y m + (d - 1)) * 24 + hh) * 60 + mm) * 60 + ss) * 1000000000 + ns"

subsection \<open>Parsing\<close>

definition get_date :: "string \<Rightarrow> ((int \<times> int \<times> int) \<times> string) option" where
  "get_date s = do {
     (y, s) \<leftarrow> get_year s;
     s \<leftarrow> expect (CHR ''-'') s;
     (m, s) \<leftarrow> Option.bind (getnum True s) (within 1 12);
     s \<leftarrow> expect (CHR ''-'') s;
     (d, s) \<leftarrow> getnum True s;
     Some ((y, m, d), s)
   }"

definition valid_day :: "int \<times> int \<times> int \<Rightarrow> bool" where
  "valid_day ymd = (case ymd of (y, m, d) \<Rightarrow> 1 \<le> d \<and> d \<le> days_in y m)"

definition ParseDate :: "string \<Rightarrow> int option" where
  "ParseDate s = (case get_date s of
     Some ((y, m, d), r) \<Rightarrow> if r = [] \<and> valid_day (y, m, d) then Some (Date y m d 0 0 0 0) else None
   | None \<Rightarrow> None)"

text \<open>A fraction of the second is accepted though the layout has none; nine digits of it count.\<close>

definition get_fraction :: "string \<Rightarrow> int \<times> string" where
  "get_fraction s =
     (case s of
        p # d # r \<Rightarrow>
          if (p = CHR ''.'' \<or> p = CHR '','') \<and> is_digit d
          then let ds = takeWhile is_digit (d # r); n = take 9 ds
               in (digits_val 0 n * 10 ^ (9 - length n), dropWhile is_digit (d # r))
          else (0, s)
      | _ \<Rightarrow> (0, s))"

text \<open>The zone in seconds: \<open>Z\<close>, or a sign, hours and minutes. 24 hours and 60 minutes are let through.\<close>

definition get_zone :: "string \<Rightarrow> (int \<times> string) option" where
  "get_zone s =
     (case s of
        CHR ''Z'' # r \<Rightarrow> Some (0, r)
      | g # a # b # c # d # e # r \<Rightarrow> do {
          _ \<leftarrow> expect (CHR '':'') [c];
          (hr, _) \<leftarrow> Option.bind (getnum True [a, b]) (within 0 24);
          (mm, _) \<leftarrow> Option.bind (getnum True [d, e]) (within 0 60);
          if g = CHR ''+'' then Some ((hr * 60 + mm) * 60, r)
          else if g = CHR ''-'' then Some (- ((hr * 60 + mm) * 60), r)
          else None
        }
      | _ \<Rightarrow> None)"

definition get_clock :: "string \<Rightarrow> ((int \<times> int \<times> int) \<times> string) option" where
  "get_clock s = do {
     (hh, s) \<leftarrow> Option.bind (getnum False s) (within 0 23);
     s \<leftarrow> expect (CHR '':'') s;
     (mm, s) \<leftarrow> Option.bind (getnum True s) (within 0 59);
     s \<leftarrow> expect (CHR '':'') s;
     (ss, s) \<leftarrow> Option.bind (getnum True s) (within 0 59);
     Some ((hh, mm, ss), s)
   }"

definition ParseRFC3339 :: "string \<Rightarrow> int option" where
  "ParseRFC3339 s = do {
     ((y, m, d), s) \<leftarrow> get_date s;
     s \<leftarrow> expect (CHR ''T'') s;
     ((hh, mm, ss), s) \<leftarrow> get_clock s;
     (zone, r) \<leftarrow> get_zone (snd (get_fraction s));
     if r = [] \<and> valid_day (y, m, d) then Some (Date y m d hh mm ss (fst (get_fraction s)) - zone * 1000000000)
     else None
   }"

subsection \<open>Facts\<close>

lemma get_year_append: "get_year s = Some (v, r) \<Longrightarrow> get_year (s @ t) = Some (v, r @ t)"
  by (auto simp: get_year_def split: if_splits)

lemma expect_append: "expect c s = Some r \<Longrightarrow> expect c (s @ t) = Some (r @ t)"
  by (cases s) (auto split: if_splits)

lemma getnum_append: "getnum True s = Some (v, r) \<Longrightarrow> getnum True (s @ t) = Some (v, r @ t)"
  by (cases "(True, s)" rule: getnum.cases) (auto split: if_splits)

lemma within_append: "within lo hi (v, r) = Some (v', r') \<Longrightarrow> within lo hi (v, r @ t) = Some (v', r' @ t)"
  by (auto simp: within_def split: if_splits)

lemma get_date_append:
  assumes "get_date s = Some (ymd, r)"
  shows "get_date (s @ t) = Some (ymd, r @ t)"
proof -
  from assms
  obtain y s1 s2 m s3 m' s4 s5 d where r: "get_year s = Some (y, s1)" "expect (CHR ''-'') s1 = Some s2"
      "getnum True s2 = Some (m, s3)" "within 1 12 (m, s3) = Some (m', s4)" "expect (CHR ''-'') s4 = Some s5"
      "getnum True s5 = Some (d, r)" "ymd = (y, m', d)"
    by (auto simp: get_date_def bind_eq_Some_conv split: prod.splits)
  show ?thesis
    using r(1) [THEN get_year_append, of t] r(2,5) [THEN expect_append, of t] r(3,6) [THEN getnum_append, of t]
      r(4) [THEN within_append, of t] by (simp add: get_date_def r(7))
qed

text \<open>A bare date is midnight UTC of that day.\<close>

lemma ParseDate_midnight:
  assumes "ParseDate s = Some t"
  shows "ParseRFC3339 (s @ ''T00:00:00Z'') = Some t"
proof -
  from assms obtain y m d where d: "get_date s = Some ((y, m, d), [])" "valid_day (y, m, d)" "t = Date y m d 0 0 0 0"
    by (auto simp: ParseDate_def split: option.splits if_splits)
  have "get_clock ''00:00:00Z'' = Some ((0, 0, 0), ''Z'')"
    by (simp add: get_clock_def within_def is_digit_def digit_val_def)
  with get_date_append [OF d(1), of "''T00:00:00Z''"] d show ?thesis
    by (simp add: ParseRFC3339_def get_fraction_def get_zone_def)
qed

text \<open>Only a text that starts with a digit is a date or an instant.\<close>

lemma get_date_digit: "get_date (c # s) \<noteq> None \<Longrightarrow> is_digit c"
  by (auto simp: get_date_def get_year_def split: if_splits)

lemma Parse_digit: "ParseDate (c # s) \<noteq> None \<or> ParseRFC3339 (c # s) \<noteq> None \<Longrightarrow> is_digit c"
  using get_date_digit [of c s] by (cases "get_date (c # s)") (auto simp: ParseDate_def ParseRFC3339_def)

end
