(* ===== verification/GoNet.thy ===== *)
theory GoNet
  imports GoTime
begin

text \<open>
  What the program uses of Go's \<^verbatim>\<open>net\<close>, \<^verbatim>\<open>net/url\<close> and \<^verbatim>\<open>strconv\<close>: splitting \<open>host:port\<close>,
  decimal numbers, and the authority of a URL. An error is \<open>None\<close>.
\<close>

subsection \<open>Searching\<close>

definition contains :: "char \<Rightarrow> string \<Rightarrow> bool" where
  "contains c s \<longleftrightarrow> c \<in> set s"

text \<open>\<open>strings.Cut\<close>: what is before and behind the first \<open>c\<close>; everything and nothing if there is none.\<close>

definition cut :: "char \<Rightarrow> string \<Rightarrow> string \<times> string" where
  "cut c s = (takeWhile (\<lambda>x. x \<noteq> c) s, tl (dropWhile (\<lambda>x. x \<noteq> c) s))"

text \<open>The same at the last \<open>c\<close>, for a string that has one.\<close>

definition cut_last :: "char \<Rightarrow> string \<Rightarrow> string \<times> string" where
  "cut_last c s = (rev (snd (cut c (rev s))), rev (fst (cut c (rev s))))"

subsection \<open>\<open>net.SplitHostPort\<close> and \<open>strconv.Atoi\<close>\<close>

definition SplitHostPort :: "string \<Rightarrow> (string \<times> string) option" where
  "SplitHostPort hostport =
     (if \<not> contains (CHR '':'') hostport then None
      else let (h, port) = cut_last (CHR '':'') hostport
      in if HasPrefix hostport ''[''
         then if \<not> contains (CHR '']'') hostport then None
              else let (inner, behind) = cut (CHR '']'') (tl hostport)
              in if behind \<noteq> CHR '':'' # port then None
                 else if contains (CHR ''['') (inner @ behind) \<or> contains (CHR '']'') behind then None
                 else Some (inner, port)
         else if contains (CHR '':'') h \<or> contains (CHR ''['') hostport \<or> contains (CHR '']'') hostport then None
         else Some (h, port))"

definition Atoi :: "string \<Rightarrow> int option" where
  "Atoi s =
     (let (sg, ds) = (case s of
          c # r \<Rightarrow> if c = CHR ''-'' then (-1, r) else if c = CHR ''+'' then (1, r) else (1, s)
        | [] \<Rightarrow> (1, []))
      in if ds = [] \<or> \<not> list_all is_digit ds then None
         else let n = sg * digits_val 0 ds
              in if - (2 ^ 63) \<le> n \<and> n < 2 ^ 63 then Some n else None)"

subsection \<open>\<open>url.Parse\<close>\<close>

definition is_letter :: "char \<Rightarrow> bool" where
  "is_letter c \<longleftrightarrow> (CHR ''A'' \<le> c \<and> c \<le> CHR ''Z'') \<or> (CHR ''a'' \<le> c \<and> c \<le> CHR ''z'')"

definition hex_value :: "char \<Rightarrow> nat option" where
  "hex_value c =
     (if is_digit c then Some (of_char c - 48)
      else if CHR ''a'' \<le> c \<and> c \<le> CHR ''f'' then Some (of_char c - 87)
      else if CHR ''A'' \<le> c \<and> c \<le> CHR ''F'' then Some (of_char c - 55)
      else None)"

text \<open>\<open>unescape\<close>: percent-decoding. A host may hold only some ASCII characters, and may escape only
  bytes beyond ASCII (and the percent sign itself).\<close>

definition host_char :: "char \<Rightarrow> bool" where
  "host_char c \<longleftrightarrow> is_letter c \<or> is_digit c \<or> (128 :: nat) \<le> of_char c
     \<or> c \<in> set ''!$&()*+,;=:[]<>-_.~'' \<or> c = CHR 0x27 \<or> c = CHR 0x22"

fun unescape :: "bool \<Rightarrow> string \<Rightarrow> string option" where
  "unescape host [] = Some []"
| "unescape host (c # s) =
     (if c = CHR ''%''
      then (case s of
              a # b # r \<Rightarrow> do {
                x \<leftarrow> hex_value a;
                y \<leftarrow> hex_value b;
                if host \<and> x < 8 \<and> [a, b] \<noteq> ''25'' then None
                else map_option (Cons (char_of (16 * x + y))) (unescape host r)
              }
            | _ \<Rightarrow> None)
      else if host \<and> \<not> host_char c then None
      else map_option (Cons c) (unescape host s))"

definition userinfo_char :: "char \<Rightarrow> bool" where
  "userinfo_char c \<longleftrightarrow> is_letter c \<or> is_digit c \<or> c \<in> set ''-._:~!$&()*+,;=%@'' \<or> c = CHR 0x27"

definition optional_port :: "string \<Rightarrow> bool" where
  "optional_port p \<longleftrightarrow> p = [] \<or> hd p = CHR '':'' \<and> list_all is_digit (tl p)"

text \<open>A host in brackets is an IP literal, which the library checks further: \<open>ip_literal\<close> stands for
  what it makes of one.\<close>

definition parseHost :: "(string \<Rightarrow> string option) \<Rightarrow> string \<Rightarrow> string option" where
  "parseHost ip_literal h =
     (if contains (CHR ''['') h then ip_literal h
      else if contains (CHR '':'') h \<and> \<not> optional_port (CHR '':'' # snd (cut_last (CHR '':'') h)) then None
      else unescape True h)"

text \<open>Host and user name; a password behind the colon is checked and left out.\<close>

definition parseAuthority :: "(string \<Rightarrow> string option) \<Rightarrow> string \<Rightarrow> (string \<times> string) option" where
  "parseAuthority ip_literal a =
     (if \<not> contains (CHR ''@'') a then map_option (\<lambda>h. (h, [])) (parseHost ip_literal a)
      else let (info, host) = cut_last (CHR ''@'') a
      in do {
        h \<leftarrow> parseHost ip_literal host;
        if \<not> list_all userinfo_char info then None
        else let (user, password) = cut (CHR '':'') info
        in do {
          u \<leftarrow> unescape False user;
          _ \<leftarrow> unescape False password;
          Some (h, u)
        }
      })"

text \<open>\<open>getScheme\<close>: the scheme (\<open>""\<close> if there is none) and the rest; a leading colon is an error.\<close>

definition getScheme :: "string \<Rightarrow> (string \<times> string) option" where
  "getScheme s =
     (let p = takeWhile (\<lambda>c. is_letter c \<or> is_digit c \<or> c \<in> set ''+-.'') s; r = drop (length p) s
      in if HasPrefix r '':'' \<and> p = [] then None
         else if HasPrefix r '':'' \<and> is_letter (hd p) then Some (p, tl r)
         else Some ([], s))"

text \<open>Host and user name of a URL. Without \<open>//\<close> there is neither.\<close>

definition url_Parse :: "(string \<Rightarrow> string option) \<Rightarrow> string \<Rightarrow> (string \<times> string) option" where
  "url_Parse ip_literal raw =
     (let (u, frag) = cut (CHR ''#'') raw
      in if list_ex (\<lambda>c. c < CHR '' '' \<or> c = CHR 0x7F) u then None
         else if u = ''*'' then Some ([], [])
         else do {
           (scheme, rest0) \<leftarrow> getScheme u;
           let rest = fst (cut (CHR ''?'') rest0);
           hu \<leftarrow>
             (if \<not> HasPrefix rest ''/'' \<and> scheme \<noteq> [] then Some ([], [])
              else if \<not> HasPrefix rest ''/'' \<and> contains (CHR '':'') (fst (cut (CHR ''/'') rest)) then None
              else if (scheme \<noteq> [] \<or> \<not> HasPrefix rest ''///'') \<and> HasPrefix rest ''//''
              then let a = takeWhile (\<lambda>c. c \<noteq> CHR ''/'') (drop 2 rest); path = drop (2 + length a) rest
                   in do { hu \<leftarrow> parseAuthority ip_literal a; _ \<leftarrow> unescape False path; Some hu }
              else do { _ \<leftarrow> unescape False rest; Some ([], []) });
           _ \<leftarrow> unescape False frag;
           Some hu
         })"

end
