(* ===== verification/Tokens.thy ===== *)
theory Tokens
  imports GoTime Interceptors
begin

text \<open>
  The tokens of \<^verbatim>\<open>cmd/promptnet/main.go\<close>: \<open>loadTokens\<close> with \<open>isExpiry\<close> and \<open>parseExpiry\<close>. The
  result of a function that may end the process with \<open>log.Fatal\<close> is an option.
\<close>

subsection \<open>Fields of a line\<close>

text \<open>\<open>strings.Fields\<close>: the runs of text between white space; \<open>cur\<close> is the current run, reversed.\<close>

function fields_from :: "string \<Rightarrow> string \<Rightarrow> string list" where
  "fields_from cur [] = (if cur = [] then [] else [rev cur])"
| "fields_from cur (c # s) =
     (let n = space_len space_runes (c # s)
      in if n = 0 then fields_from (c # cur) s
         else (if cur = [] then [] else [rev cur]) @ fields_from [] (drop (n - 1) s))"
  by pat_completeness auto
termination
  by (relation "measure (\<lambda>(_, s). length s)") auto

declare fields_from.simps(2) [simp del]

definition Fields :: "string \<Rightarrow> string list" where
  "Fields s = fields_from [] s"

definition isExpiry :: "string \<Rightarrow> bool" where
  "isExpiry s = (if ParseDate s \<noteq> None then True else ParseRFC3339 s \<noteq> None)"

text \<open>\<open>None\<close>: the process ends.\<close>

definition parseExpiry :: "string \<Rightarrow> int option" where
  "parseExpiry s = (case ParseDate s of Some t \<Rightarrow> Some t | None \<Rightarrow> ParseRFC3339 s)"

definition read_field :: "string \<Rightarrow> token \<Rightarrow> token option" where
  "read_field f tok =
     (if f = ''rw'' then Some (tok\<lparr>Write := True\<rparr>)
      else if f = ''ro'' then Some tok
      else if isExpiry f then map_option (\<lambda>t. tok\<lparr>Expires := t\<rparr>) (parseExpiry f)
      else Some (tok\<lparr>Org := f\<rparr>))"

fun read_fields :: "string list \<Rightarrow> token \<Rightarrow> token option" where
  "read_fields [] tok = Some tok"
| "read_fields (f # fs) tok = Option.bind (read_field f tok) (read_fields fs)"

definition no_token :: token where
  "no_token = \<lparr>Org = [], Expires = 0, Write = False\<rparr>"

text \<open>One line; \<open>fields[0]\<close> of no fields would be a panic.\<close>

definition read_line :: "string \<Rightarrow> (string \<times> token) list \<Rightarrow> (string \<times> token) list option" where
  "read_line l table =
     (let line = TrimSpace l
      in if line = [] \<or> HasPrefix line ''#'' then Some table
         else (case Fields line of
                 [] \<Rightarrow> None
               | t # fs \<Rightarrow> map_option (\<lambda>tok. AList.update t tok table) (read_fields fs no_token)))"

fun read_lines :: "string list \<Rightarrow> (string \<times> token) list \<Rightarrow> (string \<times> token) list option" where
  "read_lines [] table = Some table"
| "read_lines (l # ls) table = Option.bind (read_line l table) (read_lines ls)"

text \<open>\<open>env_token\<close> is \<open>PROMPTNET_TOKEN\<close>, \<open>read_file\<close> the file system.\<close>

definition loadTokens :: "string \<Rightarrow> (string \<Rightarrow> string option) \<Rightarrow> string \<Rightarrow> (string \<times> token) list option" where
  "loadTokens env_token read_file file =
     (let table = (if env_token \<noteq> [] then [(env_token, \<lparr>Org = [], Expires = 0, Write = True\<rparr>)] else [])
      in if file = [] then Some table
         else (case read_file file of
                 None \<Rightarrow> None
               | Some b \<Rightarrow> read_lines (SplitByte b (CHR 0x0A)) table))"

subsection \<open>White space and words\<close>

lemma trim_left_suffix: "\<exists>u. s = u @ trim_left ws s"
proof (induction ws s rule: trim_left.induct)
  case (1 ws s)
  show ?case
  proof (cases "space_len ws s = 0")
    case True
    then show ?thesis by (subst trim_left.simps) simp
  next
    case False
    with 1 obtain u where "drop (space_len ws s) s = u @ trim_left ws (drop (space_len ws s) s)" by blast
    then have "s = (take (space_len ws s) s @ u) @ trim_left ws (drop (space_len ws s) s)"
      by (metis append.assoc append_take_drop_id)
    moreover have "trim_left ws s = trim_left ws (drop (space_len ws s) s)"
      using False by (subst trim_left.simps) (simp add: Let_def)
    ultimately show ?thesis by metis
  qed
qed

lemma trim_left_head: "space_len ws (trim_left ws s) = 0"
  by (induction ws s rule: trim_left.induct) (subst trim_left.simps, simp add: Let_def)

lemma space_len_take: "space_len space_runes (s @ t) = 0 \<Longrightarrow> space_len space_runes s = 0"
  unfolding space_len_pos [OF space_runes_nonempty] HasPrefix_iff by force

lemma fields_from_blank: "fields_from cur s = [] \<Longrightarrow> cur = [] \<and> trim_left space_runes s = []"
proof (induction cur s rule: fields_from.induct)
  case (2 cur c s)
  let ?n = "space_len space_runes (c # s)"
  show ?case
  proof (cases "?n = 0")
    case True
    with 2 show ?thesis by (auto simp: fields_from.simps(2))
  next
    case False
    with 2 have "cur = []" "trim_left space_runes (drop (?n - 1) s) = []"
      by (auto simp: fields_from.simps(2) split: if_splits)
    with False show ?thesis by (subst trim_left.simps) (simp add: drop_Cons')
  qed
qed (auto split: if_splits)

text \<open>A line that is not blank has a first field.\<close>

lemma Fields_TrimSpace: "TrimSpace l \<noteq> [] \<Longrightarrow> Fields (TrimSpace l) \<noteq> []"
proof
  assume ne: "TrimSpace l \<noteq> []" and "Fields (TrimSpace l) = []"
  then have "trim_left space_runes (TrimSpace l) = []" using fields_from_blank by (simp add: Fields_def)
  moreover obtain u where u: "rev (trim_left space_runes l) = u @ trim_left (map rev space_runes) (rev (trim_left space_runes l))"
    using trim_left_suffix by blast
  then have "trim_left space_runes l = TrimSpace l @ rev u" by (metis TrimSpace_def rev_append rev_swap)
  then have "space_len space_runes (TrimSpace l) = 0"
    using trim_left_head [of space_runes l] space_len_take by metis
  ultimately show False using ne by (simp add: trim_left.simps [of _ "TrimSpace l"])
qed

text \<open>Words of printable ASCII.\<close>

definition plain_char :: "char \<Rightarrow> bool" where
  "plain_char c \<longleftrightarrow> CHR ''!'' \<le> c \<and> c \<le> CHR ''~''"

lemma plain_leads: "plain_char c \<Longrightarrow> c \<notin> space_leads"
  by (auto simp: plain_char_def space_leads_def space_runes_def less_eq_char_def)

lemma fields_word:
  "list_all plain_char w \<Longrightarrow> fields_from cur (w @ s) = fields_from (rev w @ cur) s"
  by (induction w arbitrary: cur) (simp_all add: fields_from.simps(2) space_len_lead plain_leads)

lemma fields_space: "fields_from cur (CHR '' '' # s) = (if cur = [] then [] else [rev cur]) @ fields_from [] s"
proof -
  have "space_len space_runes (CHR '' '' # s) = 1" by (simp add: space_len_def space_runes_def HasPrefix_def)
  then show ?thesis by (simp add: fields_from.simps(2))
qed

lemma Fields_Join:
  assumes "\<forall>w \<in> set ws. w \<noteq> [] \<and> list_all plain_char w"
  shows "Fields (Join ws '' '') = ws"
  using assms
proof (induction ws)
  case (Cons w ws)
  then show ?case
    using fields_word [of w "[]" "if ws = [] then [] else '' '' @ Join ws '' ''"]
    by (simp add: Fields_def Join_Cons fields_space split: if_splits)
qed (simp add: Fields_def)

lemma TrimSpace_id:
  assumes "list_all plain_char w" and "list_all plain_char v" and "w \<noteq> []" and "v \<noteq> []"
  shows "TrimSpace (w @ s) = w @ s \<or> s \<noteq> []" and "TrimSpace (w @ s @ v) = w @ s @ v"
proof -
  have right: "space_len (map rev space_runes) (c # t) = 0" if "plain_char c" for c t
  proof -
    from that have "\<not> HasPrefix (c # t) w" if "w \<in> set (map rev space_runes)" for w
      using that by (auto simp: space_runes_def HasPrefix_def plain_char_def less_eq_char_def)
    then show ?thesis by (auto simp: space_len_pos space_runes_nonempty)
  qed
  have ends: "TrimSpace (a # t @ [b]) = a # t @ [b]" "TrimSpace [a] = [a]" if "plain_char a" "plain_char b" for a t b
    using that by (simp_all add: TrimSpace_def trim_left_id space_len_lead plain_leads right)
  obtain a w' where w: "w = a # w'" "plain_char a" using assms(1,3) by (cases w) auto
  obtain b v' where v: "v = v' @ [b]" "plain_char b" using assms(2,4) by (cases v rule: rev_cases) auto
  show "TrimSpace (w @ s @ v) = w @ s @ v" using ends(1) [OF w(2) v(2), of "w' @ s @ v'"] by (simp add: w v)
  show "TrimSpace (w @ s) = w @ s \<or> s \<noteq> []"
  proof (cases w rule: rev_cases)
    case (snoc u c)
    then have "plain_char c" using assms(1) by simp
    with ends [OF w(2)] w snoc show ?thesis by (cases u) auto
  qed (use w in simp)
qed

lemma TrimSpace_Join:
  assumes "\<forall>w \<in> set ws. w \<noteq> [] \<and> list_all plain_char w"
  shows "TrimSpace (Join ws '' '') = Join ws '' ''"
proof (cases ws)
  case Nil
  then show ?thesis by (simp add: TrimSpace_def)
next
  case (Cons w vs)
  show ?thesis
  proof (cases vs rule: rev_cases)
    case Nil
    with Cons assms TrimSpace_id(1) [of w w "[]"] show ?thesis by simp
  next
    case (snoc us v)
    have "\<exists>s. Join (us @ [v]) '' '' = s @ v" for us v
      by (induction us) (auto simp: Join_Cons)
    then obtain s where s: "Join (us @ [v]) '' '' = s @ v" by blast
    have "Join ws '' '' = w @ ('' '' @ s) @ v" using Cons snoc s by (simp add: Join_Cons)
    moreover have "TrimSpace (w @ ('' '' @ s) @ v) = w @ ('' '' @ s) @ v"
      using assms Cons snoc by (intro TrimSpace_id(2)) simp_all
    ultimately show ?thesis by simp
  qed
qed

subsection \<open>Reading a line\<close>

lemma isExpiry_iff: "isExpiry f \<longleftrightarrow> parseExpiry f \<noteq> None"
  by (auto simp: isExpiry_def parseExpiry_def split: option.splits)

lemma keywords_no_expiry [simp]: "\<not> isExpiry ''rw''" "\<not> isExpiry ''ro''"
  by (simp_all add: isExpiry_def ParseDate_def ParseRFC3339_def get_date_def get_year_def)

definition is_org :: "string \<Rightarrow> bool" where
  "is_org f \<longleftrightarrow> f \<noteq> ''rw'' \<and> f \<noteq> ''ro'' \<and> \<not> isExpiry f"

text \<open>The fields never end the process. Of several orgs or expiries the last one counts.\<close>

lemma read_fields_eq:
  "read_fields fs tok = Some \<lparr>Org = last (Org tok # filter is_org fs),
     Expires = last (Expires tok # map (the \<circ> parseExpiry) (filter isExpiry fs)), Write = (Write tok \<or> ''rw'' \<in> set fs)\<rparr>"
proof (induction fs arbitrary: tok)
  case (Cons f fs)
  show ?case
  proof (cases "f = ''rw'' \<or> f = ''ro''")
    case True
    with Cons show ?thesis by (auto simp: read_field_def is_org_def)
  next
    case False
    with Cons show ?thesis
      by (cases "parseExpiry f") (auto simp: read_field_def is_org_def isExpiry_iff)
  qed
qed simp

lemma read_line_eq:
  "read_line l table = (if TrimSpace l = [] \<or> HasPrefix (TrimSpace l) ''#'' then Some table
     else Some (AList.update (hd (Fields (TrimSpace l))) (the (read_fields (tl (Fields (TrimSpace l))) no_token)) table))"
  using Fields_TrimSpace [of l]
  by (cases "Fields (TrimSpace l)") (auto simp: read_line_def Let_def read_fields_eq)

lemma read_lines_Some: "\<exists>table'. read_lines ls table = Some table'"
  by (induction ls arbitrary: table) (auto simp: read_line_eq)

lemma token_line:
  assumes "\<forall>w \<in> set (t # fs). w \<noteq> [] \<and> list_all plain_char w" and "hd t \<noteq> CHR ''#''"
    and "filter is_org fs = (if org = [] then [] else [org])"
    and "map parseExpiry (filter isExpiry fs) = (if expiry = 0 then [] else [Some expiry])"
  shows "read_line (Join (t # fs) '' '') table
    = Some (AList.update t \<lparr>Org = org, Expires = expiry, Write = (''rw'' \<in> set fs)\<rparr> table)"
proof -
  let ?l = "Join (t # fs) '' ''"
  have l: "TrimSpace ?l = ?l" "Fields ?l = t # fs"
    using assms(1) TrimSpace_Join Fields_Join by blast+
  have "map (the \<circ> parseExpiry) (filter isExpiry fs) = map the (map parseExpiry (filter isExpiry fs))" by simp
  also have "\<dots> = (if expiry = 0 then [] else [expiry])" unfolding assms(4) by simp
  finally have "read_fields fs no_token = Some \<lparr>Org = org, Expires = expiry, Write = (''rw'' \<in> set fs)\<rparr>"
    unfolding read_fields_eq assms(3) by (simp add: no_token_def)
  moreover obtain c u where "t = c # u" "c \<noteq> CHR ''#''" using assms(1,2) by (cases t) auto
  then have "?l \<noteq> []" "\<not> HasPrefix ?l ''#''" by (cases fs; simp add: HasPrefix_def)+
  ultimately show ?thesis unfolding read_line_eq l by simp
qed

text \<open>The fields of a token line are recognized wherever they stand. A line of words that are
  separated by spaces grants its first word, which is no comment, the one org among the others (all
  orgs if there is none), the one expiry (none if there is none), and writing exactly if \<open>rw\<close> is
  there.\<close>

theorem token_lines_in_any_order:
  assumes "\<forall>w \<in> set (t # fs). w \<noteq> [] \<and> list_all plain_char w" and "hd t \<noteq> CHR ''#''"
    and "filter is_org fs = (if org = [] then [] else [org])"
    and "map parseExpiry (filter isExpiry fs) = (if expiry = 0 then [] else [Some expiry])"
  shows "read_line (Join (t # fs) '' '') table
    = Some (AList.update t \<lparr>Org = org, Expires = expiry, Write = (''rw'' \<in> set fs)\<rparr> table)"
  using assms by (rule token_line)

theorem token_lines_in_any_order_witness:
  "read_line (Join [''k1'', ''rw'', ''2030-01-02'', ''acme''] '' '') []
    = Some [(''k1'', \<lparr>Org = ''acme'', Expires = Date 2030 1 2 0 0 0 0, Write = True\<rparr>)]"
proof -
  have d: "parseExpiry ''2030-01-02'' = Some (Date 2030 1 2 0 0 0 0)"
    by (simp add: parseExpiry_def ParseDate_def get_date_def get_year_def within_def valid_day_def days_in_def
        is_digit_def digit_val_def less_eq_char_def)
  have "parseExpiry ''acme'' = None"
    by (simp add: parseExpiry_def ParseDate_def ParseRFC3339_def get_date_def get_year_def is_digit_def less_eq_char_def)
  with d have orgs: "filter is_org [''rw'', ''2030-01-02'', ''acme''] = [''acme'']"
    "filter isExpiry [''rw'', ''2030-01-02'', ''acme''] = [''2030-01-02'']"
    by (simp_all add: is_org_def isExpiry_iff [of "''acme''"] isExpiry_iff [of "''2030-01-02''"])
  have pos: "Date 2030 1 2 0 0 0 0 \<noteq> 0" by code_simp
  from token_lines_in_any_order [of "''k1''" "[''rw'', ''2030-01-02'', ''acme'']" "''acme''" "Date 2030 1 2 0 0 0 0" "[]"]
    orgs d pos
  show ?thesis by (simp add: plain_char_def less_eq_char_def)
qed

subsection \<open>Reading a file\<close>

definition token_of :: "string list \<Rightarrow> token" where
  "token_of fs = \<lparr>Org = last ([] # filter is_org fs),
     Expires = last (0 # map (the \<circ> parseExpiry) (filter isExpiry fs)), Write = (''rw'' \<in> set fs)\<rparr>"

text \<open>The last line of a token is the one that counts.\<close>

definition line_token :: "string \<Rightarrow> (string \<times> token) option" where
  "line_token l =
     (let line = TrimSpace l
      in if line = [] \<or> HasPrefix line ''#'' then None
         else Some (hd (Fields line), token_of (tl (Fields line))))"

lemma read_lines_eq:
  "read_lines ls table = Some (fold (\<lambda>(t, tok). AList.update t tok) (List.map_filter line_token ls) table)"
proof (induction ls arbitrary: table)
  case (Cons l ls)
  then show ?case
    by (auto simp: read_line_eq line_token_def Let_def map_filter_simps token_of_def no_token_def read_fields_eq)
qed (simp add: map_filter_simps)

lemma fold_update:
  "map_of (fold (\<lambda>(t, tok). AList.update t tok) xs table) k
    = (case map_of (rev xs) k of Some tok \<Rightarrow> Some tok | None \<Rightarrow> map_of table k)"
  by (induction xs arbitrary: table) (auto simp: map_add_def split: option.splits)

lemma distinct_fold_update:
  "distinct (map fst table) \<Longrightarrow> distinct (map fst (fold (\<lambda>(t, tok). AList.update t tok) xs table))"
  by (induction xs arbitrary: table) (auto simp: distinct_update)

lemma tokens_file:
  assumes "file \<noteq> []" and "read_file file = Some b"
  shows "\<exists>table. loadTokens env_token read_file file = Some table \<and> distinct (map fst table)
    \<and> (\<forall>k. map_of table k = (case map_of (rev (List.map_filter line_token (SplitByte b (CHR 0x0A)))) k of
          Some tok \<Rightarrow> Some tok
        | None \<Rightarrow> if k = env_token \<and> k \<noteq> [] then Some \<lparr>Org = [], Expires = 0, Write = True\<rparr> else None))"
  using assms by (simp add: loadTokens_def Let_def read_lines_eq fold_update distinct_fold_update split: option.splits)



text \<open>A date that does not exist is no expiry but an org, which another org then replaces: the token
  never expires.\<close>

lemma mistyped_expiry:
  "read_fields [''2030-02-30'', ''acme'', ''rw''] no_token = Some \<lparr>Org = ''acme'', Expires = 0, Write = True\<rparr>"
proof -
  have "parseExpiry ''2030-02-30'' = None" "parseExpiry ''acme'' = None"
    by (simp_all add: parseExpiry_def ParseDate_def ParseRFC3339_def get_date_def get_year_def within_def valid_day_def
        days_in_def is_leap_def is_digit_def digit_val_def less_eq_char_def)
  moreover have "parseExpiry ''rw'' = None" using keywords_no_expiry(1) by (simp add: isExpiry_iff)
  ultimately show ?thesis by (simp add: read_fields_eq is_org_def isExpiry_iff no_token_def)
qed

end
