(* ===== verification/Connect.thy ===== *)
theory Connect
  imports GoNet Tokens
begin

text \<open>
  How a client of \<^verbatim>\<open>cmd/promptnet/main.go\<close> finds its server and credentials (\<open>connURL\<close>,
  \<open>envHost\<close>, \<open>authCtx\<close>), how a server is set up first (\<open>initCmd\<close>, \<open>genToken\<close>), and
  \<open>splitHostPort\<close>. \<open>None\<close> is a process that ends with \<open>log.Fatal\<close>; \<open>lit\<close> is what Go's URL
  parser makes of an IP literal in brackets.
\<close>

fun has_substring :: "string \<Rightarrow> string \<Rightarrow> bool" where
  "has_substring p [] = (p = [])"
| "has_substring p (c # s) = (HasPrefix (c # s) p \<or> has_substring p s)"

text \<open>\<open>raw\<close> is \<^verbatim>\<open>PROMPTNET_URL\<close>: host and token.\<close>

definition connURL :: "(string \<Rightarrow> string option) \<Rightarrow> string \<Rightarrow> (string \<times> string) option" where
  "connURL lit raw =
     (if raw = [] then Some ([], [])
      else if \<not> has_substring ''://'' raw then Some (raw, [])
      else url_Parse lit raw)"

definition envHost :: "(string \<Rightarrow> string option) \<Rightarrow> string \<Rightarrow> string option" where
  "envHost lit raw =
     map_option (\<lambda>(h, _). if h \<noteq> [] then h else ''localhost:8443'') (connURL lit raw)"

text \<open>The \<open>authorization\<close> values a client sends.\<close>

definition authCtx :: "(string \<Rightarrow> string option) \<Rightarrow> string \<Rightarrow> string \<Rightarrow> string list option" where
  "authCtx lit env_token raw =
     map_option (\<lambda>token. if token \<noteq> [] then [''Bearer '' @ token] else [])
       (if env_token = [] then map_option snd (connURL lit raw) else Some env_token)"

definition splitHostPort :: "string \<Rightarrow> (string \<times> int) option" where
  "splitHostPort addr =
     (case SplitHostPort addr of
        None \<Rightarrow> None
      | Some (host, portStr) \<Rightarrow>
          map_option (\<lambda>port. (if host = [] then ''0.0.0.0'' else host, port)) (Atoi portStr))"

subsection \<open>Setting up\<close>

definition lf :: string where "lf = [CHR 0x0A]"

text \<open>\<open>entropy\<close> is what \<open>rand.Read\<close> fills 32 bytes with.\<close>

definition genToken :: "bytes option \<Rightarrow> string option" where
  "genToken entropy = map_option (\<lambda>b. EncodeToString b @ lf) entropy"

type_synonym files = "string \<Rightarrow> string option"

text \<open>The output, or the end of the process, and the files after it; \<open>writable\<close> is whether the
  file can be written.\<close>

definition initCmd :: "(string \<Rightarrow> bool) \<Rightarrow> bytes option \<Rightarrow> string \<Rightarrow> string \<Rightarrow> bool \<Rightarrow> files \<Rightarrow> string option \<times> files" where
  "initCmd writable entropy tokensFile addr force fs =
     (if fs tokensFile \<noteq> None \<and> \<not> force then (None, fs)
      else case entropy of
        None \<Rightarrow> (None, fs)
      | Some b \<Rightarrow>
          let token = EncodeToString b
          in if \<not> writable tokensFile then (None, fs)
             else (Some (''wrote admin token to '' @ tokensFile @ lf @ lf
                  @ ''  start server:  promptnet serve -tokens-file '' @ tokensFile @ lf
                  @ ''  point client:  export PROMPTNET_URL=promptnet://'' @ token @ ''@'' @ addr @ lf),
                fs(tokensFile \<mapsto> token @ '' rw'' @ lf)))"

subsection \<open>URLs of the printed form\<close>

lemma cut_none: "c \<notin> set s \<Longrightarrow> cut c s = (s, [])"
  by (induction s) (auto simp: cut_def)

lemma cut_at: "c \<notin> set s \<Longrightarrow> cut c (s @ c # t) = (s, t)"
  by (induction s) (auto simp: cut_def)

lemma cut_last_at: "c \<notin> set t \<Longrightarrow> cut_last c (s @ c # t) = (s, t)"
  using cut_at [of c "rev t" "rev s"] by (simp add: cut_last_def)

lemma unescape_plain: "list_all (\<lambda>c. c \<noteq> CHR ''%'' \<and> (host \<longrightarrow> host_char c)) s \<Longrightarrow> unescape host s = Some s"
  by (induction s) simp_all

definition name_char :: "char \<Rightarrow> bool" where
  "name_char c \<longleftrightarrow> is_letter c \<or> is_digit c \<or> c = CHR ''.'' \<or> c = CHR ''-'' \<or> c = CHR '':''"

lemma name_char_not:
  "\<not> name_char (CHR ''/'')" "\<not> name_char (CHR ''@'')" "\<not> name_char (CHR ''['')" "\<not> name_char (CHR '']'')"
  "\<not> name_char (CHR ''#'')" "\<not> name_char (CHR ''?'')" "\<not> name_char (CHR ''%'')" "\<not> name_char (CHR 0x7F)"
  by (simp_all add: name_char_def is_letter_def is_digit_def less_eq_char_def)

lemma name_char_host: "name_char c \<Longrightarrow> host_char c"
  by (auto simp: name_char_def host_char_def)

lemma name_char_ctl: "name_char c \<Longrightarrow> \<not> c < CHR '' ''"
  by (auto simp: name_char_def is_letter_def is_digit_def less_eq_char_def less_char_def)

lemma name_chars_not: "list_all name_char s \<Longrightarrow> \<not> name_char c \<Longrightarrow> c \<notin> set s"
  by (auto simp: list_all_iff)

lemma unescape_name: "list_all name_char s \<Longrightarrow> unescape host s = Some s"
  using name_char_host name_char_not(7) by (intro unescape_plain) (auto simp: list_all_iff)

text \<open>Addresses \<open>host:port\<close> by name.\<close>

definition plain_addr :: "string \<Rightarrow> bool" where
  "plain_addr a \<longleftrightarrow> (\<exists>h p. a = h @ CHR '':'' # p \<and> list_all name_char h \<and> list_all is_digit p)"

lemma plain_addr_chars: "plain_addr a \<Longrightarrow> list_all name_char a"
  by (auto simp: plain_addr_def name_char_def list_all_iff)

lemma digits_no_colon: "list_all is_digit p \<Longrightarrow> CHR '':'' \<notin> set p"
  by (auto simp: list_all_iff is_digit_def less_eq_char_def)

lemma parseHost_plain:
  assumes "plain_addr a"
  shows "parseHost lit a = Some a"
proof -
  from assms obtain h p where a: "a = h @ CHR '':'' # p" "list_all is_digit p" by (auto simp: plain_addr_def)
  then have "optional_port (CHR '':'' # snd (cut_last (CHR '':'') a))"
    using cut_last_at [of "CHR '':''" p h] digits_no_colon by (simp add: optional_port_def)
  moreover have "CHR ''['' \<notin> set a"
    by (rule name_chars_not [OF plain_addr_chars [OF assms] name_char_not(3)])
  ultimately show ?thesis
    using unescape_name [OF plain_addr_chars [OF assms]] by (simp add: parseHost_def contains_def)
qed

text \<open>The token and the address of a URL \<open>promptnet://token@host:port\<close> come back.\<close>

lemma parseAuthority_plain:
  assumes "list_all name_char token" and "CHR '':'' \<notin> set token" and "plain_addr addr"
  shows "parseAuthority lit (token @ CHR ''@'' # addr) = Some (addr, token)"
proof -
  have "CHR ''@'' \<notin> set addr"
    by (rule name_chars_not [OF plain_addr_chars [OF assms(3)] name_char_not(2)])
  moreover have "list_all userinfo_char token"
    using assms(1) by (auto simp: list_all_iff name_char_def userinfo_char_def)
  ultimately show ?thesis
    using cut_last_at [of "CHR ''@''" addr token] cut_none [OF assms(2)] unescape_name [OF assms(1)]
      parseHost_plain [OF assms(3)] by (simp add: parseAuthority_def contains_def)
qed

lemma getScheme_promptnet: "getScheme (''promptnet://'' @ s) = Some (''promptnet'', ''//'' @ s)"
  by (simp add: getScheme_def is_letter_def is_digit_def less_eq_char_def HasPrefix_def)

lemma connURL_init:
  assumes "list_all name_char token" and "CHR '':'' \<notin> set token" and "plain_addr addr"
  shows "connURL lit (''promptnet://'' @ token @ ''@'' @ addr) = Some (addr, token)"
proof -
  let ?a = "token @ CHR ''@'' # addr"
  let ?raw = "''promptnet://'' @ ?a"
  have chars: "c = CHR ''@'' \<or> name_char c" if "c \<in> set ?a" for c
    using that assms(1) plain_addr_chars [OF assms(3)] by (auto simp: list_all_iff)
  have no: "c \<notin> set ?a" if "c \<noteq> CHR ''@''" "\<not> name_char c" for c
    using chars that by blast
  have cuts: "cut (CHR ''#'') ?raw = (?raw, [])" "cut (CHR ''?'') (''//'' @ ?a) = (''//'' @ ?a, [])"
    using no [OF _ name_char_not(5)] no [OF _ name_char_not(6)] by (intro cut_none; simp)+
  have "\<not> list_ex (\<lambda>c. c < CHR '' '' \<or> c = CHR 0x7F) ?a"
    using chars name_char_ctl name_char_not(8) by (fastforce simp: list_ex_iff less_char_def)
  then have ctl: "\<not> list_ex (\<lambda>c. c < CHR '' '' \<or> c = CHR 0x7F) ?raw" by (simp add: less_char_def)
  have path: "takeWhile (\<lambda>c. c \<noteq> CHR ''/'') ?a = ?a"
    using no [OF _ name_char_not(1)] by (auto simp: takeWhile_eq_all_conv)
  have "url_Parse lit ?raw = Some (addr, token)"
    unfolding url_Parse_def cuts getScheme_promptnet
    using ctl cuts(2) parseAuthority_plain [OF assms]
    by (simp add: HasPrefix_def getScheme_promptnet [simplified] path Let_def)
  then show ?thesis by (simp add: connURL_def HasPrefix_def)
qed

lemma hex_plain:
  shows "list_all name_char (EncodeToString b)" and "list_all plain_char (EncodeToString b)"
    and "CHR '':'' \<notin> set (EncodeToString b)" and "CHR ''#'' \<notin> set (EncodeToString b)" and "CHR 0x0A \<notin> set (EncodeToString b)"
proof -
  have "list_all (\<lambda>c. name_char c \<and> plain_char c \<and> c \<noteq> CHR '':'' \<and> c \<noteq> CHR ''#'' \<and> c \<noteq> CHR 0x0A) hex_digits"
    by (simp add: hex_digits_def name_char_def plain_char_def is_letter_def is_digit_def less_eq_char_def)
  then show "list_all name_char (EncodeToString b)" "list_all plain_char (EncodeToString b)"
    "CHR '':'' \<notin> set (EncodeToString b)" "CHR ''#'' \<notin> set (EncodeToString b)" "CHR 0x0A \<notin> set (EncodeToString b)"
    using set_EncodeToString [of b] by (auto simp: list_all_iff)
qed

lemma token_nonempty: "length b = 32 \<Longrightarrow> EncodeToString b \<noteq> []"
  using length_EncodeToString [of b] by (metis list.size(3) mult_eq_0_iff zero_neq_numeral)

lemma load_init_file:
  assumes "length b = 32" and "file \<noteq> []" and "fs' file = Some (EncodeToString b @ '' rw'' @ lf)"
  shows "loadTokens [] fs' file = Some [(EncodeToString b, \<lparr>Org = [], Expires = 0, Write = True\<rparr>)]"
proof -
  let ?t = "EncodeToString b"
  have split: "SplitByte (s @ lf) (CHR 0x0A) = [s, []]" if "CHR 0x0A \<notin> set s" for s
    using that by (induction s) (auto simp: lf_def)
  have "CHR 0x0A \<notin> set (?t @ '' rw'')" using hex_plain(5) by simp
  from split [OF this] have lines: "SplitByte (?t @ '' rw'' @ lf) (CHR 0x0A) = [?t @ '' rw'', []]" by simp
  have ne: "?t \<noteq> []" by (rule token_nonempty [OF assms(1)])
  moreover have "hd ?t \<noteq> CHR ''#''" using hex_plain(4) ne by (metis list.set_sel(1))
  ultimately have "read_line (Join [?t, ''rw''] '' '') [] = Some [(?t, \<lparr>Org = [], Expires = 0, Write = True\<rparr>)]"
    using token_line [of ?t "[''rw'']" "[]" 0 "[]"] hex_plain(2)
    by (simp add: is_org_def plain_char_def less_eq_char_def)
  then show ?thesis
    using assms(2,3) by (simp add: loadTokens_def lines [simplified] read_line_eq [of "[]"] TrimSpace_def)
qed

text \<open>C22: a first set-up works. After \<open>promptnet init\<close> with a random token and an address
  \<open>host:port\<close>, the file it wrote holds one token; a client with the URL it printed connects to the
  address; and a server that loaded the file lets the client's requests through, at any time, as an
  admin that may write.\<close>

theorem init_bootstraps_admin:
  assumes "length b = 32" and "plain_addr addr" and "fs file = None \<or> force" and "writable file" and "file \<noteq> []"
  shows "\<exists>before fs' url table values. initCmd writable (Some b) file addr force fs = (Some (before @ url @ lf), fs')
    \<and> envHost lit url = Some addr \<and> authCtx lit [] url = Some values
    \<and> loadTokens [] fs' file = Some table \<and> length table = 1
    \<and> (\<forall>t handler c g. AuthInterceptor table t values handler c g
          = handler (c\<lparr>scopeKey := Some [], writeKey := Some True\<rparr>) g)"
proof -
  let ?t = "EncodeToString b" and ?fs = "fs(file \<mapsto> EncodeToString b @ '' rw'' @ lf)"
  let ?url = "''promptnet://'' @ EncodeToString b @ ''@'' @ addr"
  let ?before = "''wrote admin token to '' @ file @ lf @ lf @ ''  start server:  promptnet serve -tokens-file '' @ file @ lf
    @ ''  point client:  export PROMPTNET_URL=''"
  have init: "initCmd writable (Some b) file addr force fs = (Some (?before @ ?url @ lf), ?fs)"
    using assms(3,4) by (auto simp: initCmd_def Let_def)
  have url: "connURL lit ?url = Some (addr, ?t)" by (rule connURL_init [OF hex_plain(1,3) assms(2)])
  have "?t \<noteq> []" "addr \<noteq> []" using token_nonempty [OF assms(1)] assms(2) by (auto simp: plain_addr_def)
  with url have client: "envHost lit ?url = Some addr" "authCtx lit [] ?url = Some [''Bearer '' @ ?t]"
    by (simp_all add: envHost_def authCtx_def)
  let ?table = "[(?t, \<lparr>Org = [], Expires = 0, Write = True\<rparr>)]"
  have load: "loadTokens [] ?fs file = Some ?table" by (rule load_init_file [OF assms(1,5)]) simp
  show ?thesis
  proof (intro exI conjI)
    show "initCmd writable (Some b) file addr force fs = (Some (?before @ ?url @ lf), ?fs)" by (rule init)
    show "envHost lit ?url = Some addr" "authCtx lit [] ?url = Some [''Bearer '' @ ?t]" by (rule client)+
    show "loadTokens [] ?fs file = Some ?table" by (rule load)
    show "length ?table = 1" by simp
    show "\<forall>t handler c g. AuthInterceptor ?table t [''Bearer '' @ ?t] handler c g
        = handler (c\<lparr>scopeKey := Some [], writeKey := Some True\<rparr>) g"
      by (simp add: AuthInterceptor_def)
  qed
qed

theorem init_bootstraps_admin_witness:
  "\<exists>out fs'. initCmd (\<lambda>_. True) (Some (replicate 32 (CHR 0x2A))) ''tokens.txt'' ''localhost:8443'' False (\<lambda>_. None) = (Some out, fs')
    \<and> loadTokens [] fs' ''tokens.txt'' \<noteq> None"
proof -
  have "plain_addr ''localhost:8443''"
    unfolding plain_addr_def
    by (intro exI [of _ "''localhost''"] exI [of _ "''8443''"])
      (simp add: name_char_def is_letter_def is_digit_def less_eq_char_def)
  from init_bootstraps_admin [OF _ this, of "replicate 32 (CHR 0x2A)" "\<lambda>_. None" "''tokens.txt''" False "\<lambda>_. True" "\<lambda>_. None"]
  show ?thesis by force
qed

end
