(* ===== verification/Migrate.thy ===== *)
theory Migrate
  imports Store
begin

text \<open>
  Opening a database: \<open>Open\<close>, \<open>migrate\<close> and \<open>SchemaVersion\<close> of \<^verbatim>\<open>internal/store/store.go\<close>. A
  database holds the objects its migrations created and the rows of \<open>schema_version\<close>; as in
  \<open>Store\<close>, every statement can fail, and a transaction that does not commit leaves nothing.
\<close>

subsection \<open>Migrations\<close>

text \<open>What the steps create; each is \<open>IF NOT EXISTS\<close>.\<close>

datatype ddl = PromptsTable | CommitsTable | CommitsUriIndex | RefsTable

definition migrations :: "ddl list" where
  "migrations = [PromptsTable, CommitsTable, CommitsUriIndex, RefsTable]"

record schema =
  objects :: "ddl list"
  schema_version :: "nat list option"

definition fresh :: schema where "fresh = \<lparr>objects = [], schema_version = None\<rparr>"

datatype migcall =
    VersionTable
  | ReadVersion
  | BeginStep nat
  | ApplyStep nat
  | RecordStep nat
  | CommitStep nat

datatype migerr = MigCall migcall | MigStep nat

definition create :: "ddl \<Rightarrow> schema \<Rightarrow> schema" where
  "create x d = (if x \<in> set (objects d) then d else d\<lparr>objects := objects d @ [x]\<rparr>)"

definition create_versions :: "schema \<Rightarrow> schema" where
  "create_versions d = (if schema_version d = None then d\<lparr>schema_version := Some []\<rparr> else d)"

text \<open>\<open>COALESCE(MAX(version), 0)\<close>.\<close>

definition recorded :: "schema \<Rightarrow> nat" where
  "recorded d = (case schema_version d of None \<Rightarrow> 0 | Some vs \<Rightarrow> fold max vs 0)"

definition record_version :: "nat \<Rightarrow> schema \<Rightarrow> schema" where
  "record_version v d = d\<lparr>schema_version := map_option (\<lambda>vs. vs @ [v]) (schema_version d)\<rparr>"

text \<open>The version reached, and the error that stopped before the end.\<close>

function migrate_from :: "(migcall \<Rightarrow> bool) \<Rightarrow> nat \<Rightarrow> schema \<Rightarrow> (nat \<times> migerr option) \<times> schema" where
  "migrate_from f i d =
     (if length migrations \<le> i then ((i, None), d)
      else if f (BeginStep i) then ((i, Some (MigCall (BeginStep i))), d)
      else if f (ApplyStep i) then ((i, Some (MigStep (i + 1))), d)
      else if f (RecordStep i) then ((i, Some (MigCall (RecordStep i))), d)
      else if f (CommitStep i) then ((i, Some (MigCall (CommitStep i))), d)
      else migrate_from f (i + 1) (record_version (i + 1) (create (migrations ! i) d)))"
  by pat_completeness auto
termination
  by (relation "measure (\<lambda>(_, i, _). length migrations - i)") auto

declare migrate_from.simps [simp del]

definition migrate :: "(migcall \<Rightarrow> bool) \<Rightarrow> schema \<Rightarrow> (nat \<times> migerr option) \<times> schema" where
  "migrate f d =
     (if f VersionTable then ((0, Some (MigCall VersionTable)), d)
      else let d = create_versions d
      in if f ReadVersion then ((0, Some (MigCall ReadVersion)), d)
         else migrate_from f (recorded d) d)"

subsection \<open>Open\<close>

datatype open_err =
    Unreachable
  | MigrationFailed migerr
  | BadKey crypt_err

text \<open>The handle with the schema version next to it. \<open>connects\<close> is whether \<open>sql.Open\<close> accepts the
  data source name, \<open>key\<close> the value of \<^verbatim>\<open>PROMPTNET_ENCRYPTION_KEY\<close>; the digest and the engine's
  order are the model's primitives.\<close>

definition Open :: "(bytes \<Rightarrow> bytes) \<Rightarrow> (string \<Rightarrow> string) \<Rightarrow> (driver \<Rightarrow> string \<Rightarrow> bool) \<Rightarrow> string
    \<Rightarrow> (migcall \<Rightarrow> bool) \<Rightarrow> string \<Rightarrow> schema \<Rightarrow> (open_err + store \<times> nat) \<times> schema" where
  "Open hash_fn order connects key f dsn d =
     (if \<not> connects (driver_of dsn) dsn then (Inl Unreachable, d)
      else case migrate f d of
        ((_, Some er), d') \<Rightarrow> (Inl (MigrationFailed er), d')
      | ((version, None), d') \<Rightarrow>
          (case loadCipher key of
             Inl er \<Rightarrow> (Inl (BadKey er), d')
           | Inr c \<Rightarrow>
               (Inr (\<lparr>st_driver = driver_of dsn, aead = c, sha = hash_fn, order_key = order\<rparr>, version), d')))"

subsection \<open>Consistency\<close>

text \<open>The objects are those of the first migrations, as many as the recorded version says.\<close>

definition migrated :: "nat \<Rightarrow> schema \<Rightarrow> bool" where
  "migrated n d \<longleftrightarrow> n \<le> length migrations \<and> objects d = take n migrations
     \<and> (schema_version d = None \<and> n = 0 \<or> schema_version d = Some [1..<n + 1])"

lemma distinct_migrations: "distinct migrations" by (simp add: migrations_def)

lemma fold_max_upt: "fold max [1..<n + 1] (0 :: nat) = n"
  by (induction n) simp_all

lemma recorded_migrated: "migrated n d \<Longrightarrow> recorded d = n"
  using fold_max_upt [of n] by (auto simp: migrated_def recorded_def)

lemma migrated_create_versions: "migrated n d \<Longrightarrow> migrated n (create_versions d) \<and> schema_version (create_versions d) \<noteq> None"
  by (auto simp: migrated_def create_versions_def)

lemma migrated_step:
  assumes "migrated n d" and "schema_version d \<noteq> None" and "n < length migrations"
  shows "migrated (n + 1) (record_version (n + 1) (create (migrations ! n) d))"
    and "schema_version (record_version (n + 1) (create (migrations ! n) d)) \<noteq> None"
proof -
  have "migrations ! n \<notin> set (take n migrations)"
    using distinct_migrations assms(3) by (metis distinct_take take_Suc_conv_app_nth distinct_append disjoint_insert(1) list.simps(15))
  with assms show "migrated (n + 1) (record_version (n + 1) (create (migrations ! n) d))"
    by (auto simp: migrated_def create_def record_version_def take_Suc_conv_app_nth)
  show "schema_version (record_version (n + 1) (create (migrations ! n) d)) \<noteq> None"
    using assms(2) by (simp add: record_version_def create_def)
qed

lemma migrate_from_migrated:
  assumes "migrated n d" and "schema_version d \<noteq> None"
  shows "\<exists>m er d'. migrate_from f n d = ((m, er), d') \<and> migrated m d' \<and> n \<le> m
    \<and> (er = None \<longleftrightarrow> m = length migrations) \<and> ((\<forall>c. \<not> f c) \<longrightarrow> er = None)"
  using assms
proof (induction f n d rule: migrate_from.induct)
  case (1 f n d)
  show ?case
  proof (cases "length migrations \<le> n")
    case True
    with 1(2) show ?thesis by (subst migrate_from.simps) (auto simp: migrated_def)
  next
    case False
    note step = migrated_step [OF 1(2,3)]
    show ?thesis
    proof (cases "f (BeginStep n) \<or> f (ApplyStep n) \<or> f (RecordStep n) \<or> f (CommitStep n)")
      case True
      with False 1(2) show ?thesis by (subst migrate_from.simps) auto
    next
      case ok: False
      with False 1(1) step have "\<exists>m er d'. migrate_from f (n + 1) (record_version (n + 1) (create (migrations ! n) d)) = ((m, er), d')
          \<and> migrated m d' \<and> n + 1 \<le> m \<and> (er = None \<longleftrightarrow> m = length migrations) \<and> ((\<forall>c. \<not> f c) \<longrightarrow> er = None)" by simp
      with ok False show ?thesis by (subst migrate_from.simps) auto
    qed
  qed
qed

lemma migrate_migrated:
  assumes "migrated n d" and "migrate f d = ((m, er), d')"
  shows "\<exists>k. migrated k d' \<and> n \<le> k \<and> (er = None \<longrightarrow> m = k \<and> k = length migrations)"
    and "\<forall>c. \<not> f c \<Longrightarrow> er = None"
proof -
  let ?d = "create_versions d"
  note v = migrated_create_versions [OF assms(1)]
  obtain m' er' d1 where run: "migrate_from f n ?d = ((m', er'), d1)" "migrated m' d1" "n \<le> m'"
      "er' = None \<longleftrightarrow> m' = length migrations" "(\<forall>c. \<not> f c) \<longrightarrow> er' = None"
    using migrate_from_migrated [of n ?d f] v by blast
  have m: "migrate f d = (if f VersionTable then ((0, Some (MigCall VersionTable)), d)
      else if f ReadVersion then ((0, Some (MigCall ReadVersion)), ?d) else ((m', er'), d1))"
    using run(1) recorded_migrated [of n ?d] v by (simp add: migrate_def Let_def)
  from m assms run v show "\<exists>k. migrated k d' \<and> n \<le> k \<and> (er = None \<longrightarrow> m = k \<and> k = length migrations)"
    by (auto split: if_splits)
  from m assms(2) run(5) show "\<forall>c. \<not> f c \<Longrightarrow> er = None" by (auto split: if_splits)
qed

text \<open>The databases that openings produce, whichever statements failed.\<close>

inductive opened :: "schema \<Rightarrow> bool" where
  fresh: "opened fresh"
| again: "opened d \<Longrightarrow> migrate f d = (r, d') \<Longrightarrow> opened d'"

lemma opened_migrated: "opened d \<Longrightarrow> \<exists>n. migrated n d"
proof (induction rule: opened.induct)
  case fresh
  have "migrated 0 Migrate.fresh" by (simp add: migrated_def fresh_def)
  then show ?case ..
next
  case (again d f r d')
  then show ?case using migrate_migrated(1) by (cases r) blast
qed

text \<open>C23: migrations resume. Whatever failed while a database was opened before, it holds exactly
  the objects of the first steps, as many as its recorded version; the next opening that meets no
  failure creates the rest, each object once, and reports the number of all steps; and an opening
  that succeeds on such a database leaves it as it is.\<close>

theorem migrations_resume:
  assumes "opened d"
  shows "objects d = take (recorded d) migrations
    \<and> (\<exists>d'. migrate (\<lambda>c. False) d = ((length migrations, None), d') \<and> objects d' = migrations
      \<and> (\<forall>f r d''. migrate f d' = ((r, None), d'') \<longrightarrow> r = length migrations \<and> d'' = d'))"
proof -
  obtain n where n: "migrated n d" using opened_migrated [OF assms] ..
  obtain m er d' where d': "migrate (\<lambda>c. False) d = ((m, er), d')" by (metis prod.exhaust)
  note ok = migrate_migrated [OF n d']
  then have er: "er = None" and m: "m = length migrations" and full: "migrated m d'" by auto
  have "schema_version d' \<noteq> None" using full m by (auto simp: migrated_def migrations_def)
  then have versions: "create_versions d' = d'" by (simp add: create_versions_def)
  have "r = length migrations \<and> d'' = d'" if "migrate f d' = ((r, None), d'')" for f r d''
    using that full m
    by (auto simp: migrate_def versions Let_def recorded_migrated migrate_from.simps [of f "length migrations"] split: if_splits)
  moreover have "objects d' = migrations" using full m by (simp add: migrated_def)
  moreover have "objects d = take (recorded d) migrations" using n recorded_migrated [OF n] by (simp add: migrated_def)
  ultimately show ?thesis using d' er m by blast
qed

theorem migrations_resume_witness:
  "\<exists>d d'. migrate (\<lambda>c. c = RecordStep 2) fresh = ((2, Some (MigCall (RecordStep 2))), d) \<and> objects d = [PromptsTable, CommitsTable]
    \<and> migrate (\<lambda>c. False) d = ((4, None), d') \<and> objects d' = migrations"
proof -
  let ?d = "\<lparr>objects = [PromptsTable, CommitsTable], schema_version = Some [1, 2]\<rparr>"
  have m: "migrate (\<lambda>c. c = RecordStep 2) fresh = ((2, Some (MigCall (RecordStep 2))), ?d)"
    by (simp add: migrate_def fresh_def create_versions_def recorded_def migrate_from.simps migrations_def create_def
        record_version_def numeral_2_eq_2)
  then have "opened ?d" by (rule opened.again [OF opened.fresh])
  from migrations_resume [OF this] m show ?thesis by (auto simp: migrations_def)
qed

end
