(* ===== verification/Render.thy ===== *)
theory Render
  imports ServerSafe
begin

text \<open>
  What a user sees of a diff: \<open>Format\<close>, \<open>curve\<close> and \<open>Kind\<close> of \<^verbatim>\<open>internal/semdiff/semdiff.go\<close>, and
  \<open>fromProto\<close> and \<open>fromWindows\<close> of \<^verbatim>\<open>cmd/promptnet/main.go\<close>, which rebuild the results from the
  \<open>int32\<close> fields of an answer. A rebuilt result has the fields of \<open>semdiff.Result\<close> as Go integers,
  which an answer may make negative.
\<close>

subsection \<open>Results of a client\<close>

record shown =
  s_OldStart :: int
  s_OldEnd :: int
  s_NewStart :: int
  s_NewEnd :: int
  s_Signal2 :: f64
  s_Up :: "(int \<times> f64) list \<times> bool"
  s_Down :: "(int \<times> f64) list \<times> bool"
  s_Class :: string

definition fromWindows :: "pb_window list \<Rightarrow> (int \<times> f64) list" where
  "fromWindows ws = map (\<lambda>w. (sint (w_Radius w), w_Delta w)) ws"

definition fromProto :: "pb_change list \<Rightarrow> shown list" where
  "fromProto chs =
     map (\<lambda>c. \<lparr>s_OldStart = sint (p_OldStart c), s_OldEnd = sint (p_OldEnd c),
               s_NewStart = sint (p_NewStart c), s_NewEnd = sint (p_NewEnd c),
               s_Signal2 = p_PointDelta c,
               s_Up = (fromWindows (p_Up c), p_UpBoundary c),
               s_Down = (fromWindows (p_Down c), p_DownBoundary c),
               s_Class = p_Classification c\<rparr>) chs"

text \<open>A result as the analysis returns it, its line numbers read as integers.\<close>

definition shown_direction :: "direction \<Rightarrow> (int \<times> f64) list \<times> bool" where
  "shown_direction d = (map (\<lambda>w. (int (Radius w), Delta w)) (Curve d), StoppedAtBoundary d)"

definition shown_result :: "result \<Rightarrow> shown" where
  "shown_result r =
     \<lparr>s_OldStart = int (OldStart (Hunk r)), s_OldEnd = int (OldEnd (Hunk r)),
      s_NewStart = int (NewStart (Hunk r)), s_NewEnd = int (NewEnd (Hunk r)),
      s_Signal2 = Signal2 r, s_Up = shown_direction (Up r), s_Down = shown_direction (Down r), s_Class = Class r\<rparr>"

subsection \<open>Text\<close>

text \<open>The verbs \<open>%d\<close> and \<open>%.3f\<close>: thousandths, rounded to even.\<close>

definition fmt_d :: "int \<Rightarrow> string" where
  "fmt_d n = (if n < 0 then ''-'' @ decimal (nat (- n)) else decimal (nat n))"

definition fmt_3f :: "f64 \<Rightarrow> string" where
  "fmt_3f x =
     (let n = nat (half_even (abs x * 1000))
      in (if x < 0 then ''-'' else []) @ decimal (n div 1000) @ ''.''
         @ [char_of (48 + n div 100 mod 10), char_of (48 + n div 10 mod 10), char_of (48 + n mod 10)])"

definition plus_minus :: string where "plus_minus = [CHR 0xC2, CHR 0xB1]"

definition curve :: "(int \<times> f64) list \<times> bool \<Rightarrow> string" where
  "curve d =
     (if fst d = [] then ''(none)''
      else Join (map (\<lambda>(r, x). plus_minus @ fmt_d r @ ''='' @ fmt_3f x) (fst d)) '' ''
        @ '' ('' @ (if snd d then ''boundary'' else ''flat'') @ '')'')"

definition shown_kind :: "shown \<Rightarrow> string" where
  "shown_kind r = (if s_OldStart r = s_OldEnd r then ''insert''
     else if s_NewStart r = s_NewEnd r then ''delete'' else ''replace'')"

definition format_one :: "shown \<Rightarrow> string" where
  "format_one r =
     ''change @ new lines '' @ fmt_d (s_NewStart r + 1) @ ''-'' @ fmt_d (s_NewEnd r)
       @ '' (old '' @ fmt_d (s_OldStart r + 1) @ ''-'' @ fmt_d (s_OldEnd r) @ ''): '' @ shown_kind r @ newline
     @ ''  Signal 2 (point delta): '' @ fmt_3f (s_Signal2 r) @ newline
     @ ''  Signal 3 up:   '' @ curve (s_Up r) @ newline
     @ ''  Signal 3 down: '' @ curve (s_Down r) @ newline
     @ ''  => '' @ s_Class r @ newline"

definition Format :: "shown list \<Rightarrow> string" where
  "Format results = (if results = [] then ''no changes'' @ newline else concat (map format_one results))"

subsection \<open>Small numbers travel unchanged\<close>

lemma sint_small: "n < 2 ^ 31 \<Longrightarrow> sint (of_nat n :: 32 word) = int n"
  by (simp add: signed_of_nat signed_take_bit_int_eq_self_iff)

definition small_result :: "result \<Rightarrow> bool" where
  "small_result r \<longleftrightarrow> OldStart (Hunk r) < 2 ^ 31 \<and> OldEnd (Hunk r) < 2 ^ 31 \<and> NewStart (Hunk r) < 2 ^ 31
     \<and> NewEnd (Hunk r) < 2 ^ 31 \<and> (\<forall>w \<in> set (Curve (Up r)) \<union> set (Curve (Down r)). Radius w < 2 ^ 31)"

lemma fromWindows_small:
  "\<forall>w \<in> set ws. Radius w < 2 ^ 31 \<Longrightarrow> fromWindows (toWindows ws) = map (\<lambda>w. (int (Radius w), Delta w)) ws"
  by (simp add: fromWindows_def toWindows_def sint_small)

lemma fromProto_small:
  "\<forall>r \<in> set rs. small_result r \<Longrightarrow> fromProto (map toChange rs) = map shown_result rs"
  by (induction rs)
    (simp_all add: fromProto_def toChange_def shown_result_def shown_direction_def small_result_def
      sint_small fromWindows_small)

text \<open>The last radius of a curve is at most two beyond one whose window is still inside.\<close>

lemma settled_radius:
  assumes "settled w prev 2 ws b" and "\<And>r. N \<le> r \<Longrightarrow> snd (snd (w r))" and "x \<in> set ws"
  shows "Radius x \<le> N + 2"
proof -
  obtain i where i: "i < length ws" "x = ws ! i" using assms(3) by (metis in_set_conv_nth)
  have r: "Radius x = 2 + 2 * i" using settled_window [OF assms(1) i(1)] i(2) by simp
  show ?thesis
  proof (cases i)
    case (Suc j)
    then have "\<not> snd (snd (w (2 + 2 * j)))" using settled_inside [OF assms(1), of j] i(1) by simp
    then have "2 + 2 * j < N" using assms(2) [of "2 + 2 * j"] by (cases "N \<le> 2 + 2 * j") auto
    with r Suc show ?thesis by simp
  qed (use r in simp)
qed

lemma explains_bounds:
  "explains old new i j cs \<Longrightarrow> c \<in> set cs \<Longrightarrow> OldStart c \<le> OldEnd c \<and> OldEnd c \<le> length old
     \<and> NewStart c \<le> NewEnd c \<and> NewEnd c \<le> length new"
  by (induction old new i j cs rule: explains.induct) auto

lemma Analyze_small:
  assumes "Analyze emb calls old new = Some (Inr rs, st)" and "length old + 2 < 2 ^ 31" and "length new + 2 < 2 ^ 31"
    and "r \<in> set rs"
  shows "small_result r"
proof -
  let ?N = "max (length old) (length new)"
  note ok = Analyze_ok [OF assms(1)]
  with assms(4) have "Hunk r \<in> set (changes old new)" and res: "result_ok old new (persistFracFor emb) r"
    by (metis image_eqI list.set_map, blast)
  from explains_bounds [OF changes_explains this(1)]
  have b: "OldStart (Hunk r) \<le> OldEnd (Hunk r)" "OldEnd (Hunk r) \<le> length old"
    "NewStart (Hunk r) \<le> NewEnd (Hunk r)" "NewEnd (Hunk r) \<le> length new" by simp_all
  have "snd (snd (up_window old new (Hunk r) n))" if "?N \<le> n" for n
    using b that by (intro up_window_edge) auto
  moreover have "snd (snd (down_window old new (Hunk r) n))" if "?N \<le> n" for n
    using b that by (intro down_window_edge) auto
  ultimately have "Radius w \<le> ?N + 2" if "w \<in> set (Curve (Up r)) \<union> set (Curve (Down r))" for w
    using that res settled_radius [where N = ?N] unfolding result_ok_def by (elim UnE conjE) blast+
  moreover have "?N + 2 < 2 ^ 31" using assms(2,3) by simp
  ultimately have "\<forall>w \<in> set (Curve (Up r)) \<union> set (Curve (Down r)). Radius w < 2 ^ 31"
    by (meson le_less_trans)
  then show ?thesis using b assms(2,3) unfolding small_result_def by auto
qed

text \<open>C32: a remote diff shows what the analysis found. For templates of less than \<open>2^31 - 2\<close> lines (the
  wire has 32-bit line numbers) the client of a \<open>DiffPrompt\<close> that was answered prints the very text
  that formatting the server's own results gives.\<close>

theorem remote_diff_prints_the_analysis:
  assumes "DiffPrompt srv c e uri edited w = (Reply chs, w')" and "Get (srv_store srv) e (w_db w) uri = Inr p"
    and "srv_embedder srv = Some emb"
    and "length (splitLines (Template p)) + 2 < 2 ^ 31" and "length (splitLines edited) + 2 < 2 ^ 31"
  shows "\<exists>rs st. Analyze emb (w_calls w) (splitLines (Template p)) (splitLines edited) = Some (Inr rs, st)
    \<and> Format (fromProto chs) = Format (map shown_result rs)"
proof -
  obtain x st where a: "Analyze emb (w_calls w) (splitLines (Template p)) (splitLines edited) = Some (x, st)"
    using Analyze_returns by blast
  have "diff_templates srv (Template p) edited w = (Reply chs, w')"
    using assms(1,2) by (auto simp: DiffPrompt_def guard_def split: option.splits)
  with a assms(3) obtain rs where x: "x = Inr rs" "chs = map toChange rs"
    by (auto simp: diff_templates_def run_diff_def split: sum.splits diff_err.splits)
  with a Analyze_small assms(4,5) have "fromProto chs = map shown_result rs"
    by (metis fromProto_small)
  with a x show ?thesis by auto
qed

theorem remote_diff_prints_the_analysis_witness:
  "\<exists>chs w' rs st. DiffPrompt ((demo_srv nil_ops)\<lparr>srv_embedder := Some (LexicalEmbedder demo_unicode 0)\<rparr>) no_ctx calm demo_uri ''Bye''
      (boot demo_db ()) = (Reply chs, w')
    \<and> Analyze (LexicalEmbedder demo_unicode 0) [] [''Hi {n}''] [''Bye''] = Some (Inr rs, st)
    \<and> Format (fromProto chs) = Format (map shown_result rs)"
proof -
  let ?emb = "LexicalEmbedder demo_unicode 0" and ?srv = "(demo_srv nil_ops)\<lparr>srv_embedder := Some (LexicalEmbedder demo_unicode 0)\<rparr>"
  have lines: "splitLines ''Hi {n}'' = [''Hi {n}'']" "splitLines ''Bye'' = [''Bye'']"
    by (simp_all add: splitLines_def crlf_def HasPrefix_def)
  obtain rs st where a: "Analyze ?emb [] [''Hi {n}''] [''Bye''] = Some (Inr rs, st)"
    using analyze_all_total [OF lexical_total] unfolding Analyze_def by blast
  have g: "Get (srv_store ?srv) calm (w_db (boot demo_db ())) demo_uri = Inr \<lparr>URI = demo_uri, Template = ''Hi {n}'',
      Slots = [''n''], VersionHash = Hash demo_sha ''Hi {n}'' [''n'']\<rparr>"
    using demo_Get [of calm] by simp
  obtain w' where d: "DiffPrompt ?srv no_ctx calm demo_uri ''Bye'' (boot demo_db ()) = (Reply (map toChange rs), w')"
    using a g by (simp add: DiffPrompt_def guard_def diff_templates_def run_diff_def lines)
  from remote_diff_prints_the_analysis [OF d g] a d show ?thesis by (simp add: lines)
qed

end
