(* ===== verification/StoreHashes.thy ===== *)
theory StoreHashes
  imports StoreLog
begin

text \<open>
  The type of a hash: 64 lowercase hexadecimal digits. Every hash column of every database the store
  can reach holds such a text, so that slicing one for display is in range.
\<close>

definition digest_text :: "string \<Rightarrow> bool" where
  "digest_text h \<longleftrightarrow> length h = 64 \<and> set h \<subseteq> set hex_digits"

lemma digest_text_encode: "length b = 32 \<Longrightarrow> digest_text (EncodeToString b)"
  using set_EncodeToString by (simp add: digest_text_def)

lemma digest_text_Hash: "sha_ok s \<Longrightarrow> digest_text (Hash (sha s) t sl)"
  by (simp add: Hash_def sha_ok_def digest_text_encode)

lemma digest_text_commit: "sha_ok s \<Longrightarrow> digest_text (commit_hash_of s t sl p p2 a m)"
  by (simp add: commit_hash_of_def CommitHash_def sha_ok_def digest_text_encode)

definition hash_columns :: "db \<Rightarrow> bool" where
  "hash_columns d \<longleftrightarrow> (\<forall>r \<in> set (commits d). digest_text (cr_hash r) \<and> digest_text (cr_vhash r))
     \<and> (\<forall>x \<in> set (prompts d). digest_text (pr_vhash (snd x))) \<and> (\<forall>x \<in> set (refs d). digest_text (snd x))"

lemma hash_columns_empty: "hash_columns empty_db"
  by (simp add: hash_columns_def empty_db_def)

lemma in_update: "x \<in> set (AList.update k v al) \<Longrightarrow> x \<in> set al \<or> snd x = v"
  by (induction al) (auto split: if_splits)

lemma hash_columns_upsert: "hash_columns d \<Longrightarrow> digest_text (pr_vhash r) \<Longrightarrow> hash_columns (upsert_prompt uri r d)"
  by (auto simp: hash_columns_def upsert_prompt_def dest!: in_update)

lemma hash_columns_ref: "hash_columns d \<Longrightarrow> digest_text h \<Longrightarrow> hash_columns (upsert_ref uri b h d)"
  by (auto simp: hash_columns_def upsert_ref_def dest!: in_update)

lemma hash_columns_insert:
  "hash_columns d \<Longrightarrow> digest_text (cr_hash r) \<Longrightarrow> digest_text (cr_vhash r) \<Longrightarrow> hash_columns (insert_commit r d)"
  by (auto simp: hash_columns_def insert_commit_def)

lemma hash_columns_move:
  "hash_columns d \<Longrightarrow> digest_text h \<Longrightarrow> digest_text (pr_vhash r) \<Longrightarrow> hash_columns (move_branch uri b h r d)"
  by (auto simp: move_branch_def Let_def intro: hash_columns_upsert hash_columns_ref)

lemma hash_columns_commit:
  assumes "hash_columns d" and "sha_ok s"
  shows "hash_columns (move_branch uri branch (commit_hash_of s t sl p p2 a m) (served_row s e t sl (Hash (sha s) t sl))
    (insert_commit (new_row s e uri t sl p p2 a m) d))"
  using assms digest_text_Hash digest_text_commit
  by (intro hash_columns_move hash_columns_insert) (simp_all add: served_row_def new_row_def commit_hash_of_def)

lemma GetCommit_columns:
  assumes "GetCommit s e d h = Inr c" and "hash_columns d"
  shows "digest_text (c_Hash c)" and "digest_text (c_VersionHash c)" and "c_Hash c = h"
proof -
  from GetCommit_Inr [OF assms(1)] obtain r where r: "commit_row_of d h = Some r" "scanCommit s r = Inr c"
    by (auto simp: commit_row_of_def)
  then have "r \<in> set (commits d)" "cr_hash r = h" by (auto simp: commit_row_of_def dest: find_Some_in)
  with assms(2) scanCommit_fields [OF r(2)] show "digest_text (c_Hash c)" "digest_text (c_VersionHash c)" "c_Hash c = h"
    by (auto simp: hash_columns_def)
qed

lemma apply_op_hash_columns:
  assumes "apply_op s e opn d = (r, d')" and "hash_columns d" and "sha_ok s"
  shows "hash_columns d'"
proof (cases r)
  case (Some er)
  with assms show ?thesis using apply_op_atomic by blast
next
  case None
  show ?thesis
  proof (cases opn)
    case (OpPut p)
    with None assms have "Put s e p d = (Inr (), d')" by (auto simp: err_of_None)
    then show ?thesis
      by (cases rule: Put_cases) (use assms digest_text_Hash in \<open>auto intro!: hash_columns_upsert simp: served_row_def\<close>)
  next
    case (OpCommit uri branch t sl a m)
    with None assms obtain h where "Commit s e uri branch t sl a m d = (Inr h, d')" by (auto simp: err_of_None)
    then show ?thesis by (cases rule: Commit_cases) (use assms hash_columns_commit in auto)
  next
    case (OpBranch uri name src)
    with None assms have "Branch e uri name src d = (Inr (), d')" by (auto simp: err_of_None)
    then show ?thesis
    proof (cases rule: Branch_cases)
      case (succeeded h)
      then have "digest_text h" using assms(2) map_of_SomeD by (fastforce simp: hash_columns_def)
      with succeeded assms(2) show ?thesis by (simp add: hash_columns_ref)
    qed simp
  next
    case (OpMerge uri into src a m)
    with None assms obtain h where "Merge s e uri into src a m d = (Inr h, d')" by (auto simp: err_of_None)
    then show ?thesis by (cases rule: Merge_cases) (use assms hash_columns_commit in auto)
  next
    case (OpSetBranch uri branch h)
    with None assms obtain c where "SetBranch s e uri branch h d = (Inr c, d')" by (auto simp: err_of_None)
    then show ?thesis
    proof (cases rule: SetBranch_cases)
      case (succeeded c')
      with GetCommit_columns [of s e d h c'] assms(2) show ?thesis
        by (auto intro!: hash_columns_move simp: served_row_def)
    qed simp
  qed
qed

lemma reachable_hash_columns: "reachable s d \<Longrightarrow> sha_ok s \<Longrightarrow> hash_columns d"
  by (induction rule: reachable.induct) (auto intro: hash_columns_empty apply_op_hash_columns)

lemma Get_digest: "Get s e d uri = Inr p \<Longrightarrow> hash_columns d \<Longrightarrow> digest_text (VersionHash p)"
  by (auto simp: Get_def rbind_eq_Inr hash_columns_def split: if_splits dest!: map_of_SomeD)

lemma List_digest:
  assumes "Store.List s e d pre = Inr ps" and "hash_columns d" and "p \<in> set ps"
  shows "digest_text (VersionHash p)"
  using assms by (fastforce simp: List_def hash_columns_def split: if_splits)

end
