(* ===== verification/Cli.thy ===== *)
theory Cli
  imports Render Backup Connect Migrate Pubsub StoreHashes
begin

text \<open>
  The commands of \<^verbatim>\<open>cmd/promptnet/main.go\<close> behind their flags: \<open>put\<close> on a database, \<open>migrate\<close>, and
  the clients \<open>diff\<close>, \<open>list\<close>, \<open>publish\<close> and \<open>watch\<close> of a server. A command ends with what it has
  printed and, if it did not succeed, the reason; \<open>file\<close> is what \<open>readTemplate\<close> read, \<open>None\<close> if it
  could not. A client's connection is a function from the \<open>authorization\<close> vals and a request to an
  answer.
\<close>

datatype cli_err =
    Usage
  | Unreadable
  | BadURL
  | Invalid verr
  | OpenFailed open_err
  | StoreFailed err
  | DiffFailed diff_err
  | StructuralChange
  | RpcFailed code detail
  | ServerGone
  | WrongAnswer
  | SlicePanic
  | NotConnected
  | NotSubscribed
  | Unwritable
  | RestoreFailed restored

type_synonym exit = "cli_err option \<times> string"

text \<open>\<open>readTemplate\<close>: \<open>-\<close> is the standard input.\<close>

definition readTemplate :: "files \<Rightarrow> string option \<Rightarrow> string \<Rightarrow> string option" where
  "readTemplate fs stdin name = (if name = ''-'' then stdin else fs name)"

subsection \<open>put\<close>

definition hasStructural :: "result list \<Rightarrow> bool" where
  "hasStructural res = list_ex (\<lambda>r. Class r = ''structural'') res"

text \<open>\<open>s[:12]\<close>.\<close>

definition slice12 :: "string \<Rightarrow> string option" where
  "slice12 s = (if length s < 12 then None else Some (take 12 s))"

text \<open>The pre-commit check against the prompt that would be replaced.\<close>

definition precommit :: "store \<Rightarrow> embedder \<Rightarrow> env \<Rightarrow> bool \<Rightarrow> string \<Rightarrow> string \<Rightarrow> db \<Rightarrow> exit" where
  "precommit s emb e force uri template d =
     (case Get s e d uri of
        Inr prev \<Rightarrow>
          if Template prev \<noteq> template
          then (case fst (the (Analyze emb [] (splitLines (Template prev)) (splitLines template))) of
                  Inl er \<Rightarrow> (Some (DiffFailed er), [])
                | Inr res \<Rightarrow>
                    (if \<not> force \<and> hasStructural res then Some StructuralChange else None,
                     Format (map shown_result res)))
          else (None, [])
      | Inl er \<Rightarrow> (if er \<noteq> ErrNotFound then Some (StoreFailed er) else None, []))"

definition put_cmd :: "(open_err + store) \<Rightarrow> embedder \<Rightarrow> env \<Rightarrow> bool \<Rightarrow> string \<Rightarrow> string option \<Rightarrow> string list
    \<Rightarrow> db \<Rightarrow> exit \<times> db" where
  "put_cmd st emb e force uri file slots d =
     (case file of
        None \<Rightarrow> ((Some Unreadable, []), d)
      | Some template \<Rightarrow>
          (case validate_Prompt uri template slots of
             Some v \<Rightarrow> ((Some (Invalid v), []), d)
           | None \<Rightarrow>
               (case st of
                  Inl er \<Rightarrow> ((Some (OpenFailed er), []), d)
                | Inr s \<Rightarrow>
                    (case precommit s emb e force uri template d of
                       (Some er, out) \<Rightarrow> ((Some er, out), d)
                     | (None, out) \<Rightarrow>
                         (case Put s e \<lparr>URI = uri, Template = template, Slots = slots, VersionHash = []\<rparr> d of
                            (Inl er, d') \<Rightarrow> ((Some (StoreFailed er), out), d')
                          | (Inr _, d') \<Rightarrow>
                              (case slice12 (Hash (sha s) template slots) of
                                 None \<Rightarrow> ((Some SlicePanic, out), d')
                               | Some h \<Rightarrow>
                                   ((None, out @ ''stored '' @ uri @ '' ('' @ h @ '')'' @ newline), d')))))))"

subsection \<open>migrate\<close>

definition migrateCmd :: "(open_err + store \<times> nat) \<Rightarrow> exit" where
  "migrateCmd st =
     (case st of
        Inl er \<Rightarrow> (Some (OpenFailed er), [])
      | Inr (_, version) \<Rightarrow> (None, ''schema up to date (version '' @ decimal version @ '')'' @ newline))"

subsection \<open>Clients\<close>

type_synonym 'g rpc = "string list \<Rightarrow> request \<Rightarrow> 'g \<Rightarrow> response outcome \<times> 'g"

text \<open>An RPC with the credentials of the environment; an answer that is no reply is fatal (a handler
  that panicked took the server down).\<close>

definition call :: "'g rpc \<Rightarrow> string list option \<Rightarrow> request \<Rightarrow> (response \<Rightarrow> exit) \<Rightarrow> 'g \<Rightarrow> exit \<times> 'g" where
  "call rpc auth req k g =
     (case auth of
        None \<Rightarrow> ((Some BadURL, []), g)
      | Some vals \<Rightarrow>
          (case rpc vals req g of
             (Reply x, g') \<Rightarrow> (k x, g')
           | (Fail c d, g') \<Rightarrow> ((Some (RpcFailed c d), []), g')
           | (Panic, g') \<Rightarrow> ((Some ServerGone, []), g')))"

definition diff_cmd :: "'g rpc \<Rightarrow> string list option \<Rightarrow> string \<Rightarrow> string option \<Rightarrow> 'g \<Rightarrow> exit \<times> 'g" where
  "diff_cmd rpc auth uri file g =
     (if uri = [] then ((Some Usage, []), g)
      else case file of
        None \<Rightarrow> ((Some Unreadable, []), g)
      | Some edited \<Rightarrow>
          call rpc auth (DiffPromptRequest uri edited)
            (\<lambda>x. case x of DiffPromptResponse chs \<Rightarrow> (None, Format (fromProto chs)) | _ \<Rightarrow> (Some WrongAnswer, [])) g)"

text \<open>One line per entry; a hash that is too short ends the process there.\<close>

fun list_lines :: "(string \<times> string) list \<Rightarrow> string \<Rightarrow> exit" where
  "list_lines [] out = (None, out)"
| "list_lines ((u, h) # es) out =
     (case slice12 h of
        None \<Rightarrow> (Some SlicePanic, out)
      | Some h12 \<Rightarrow> list_lines es (out @ u @ [CHR 0x09] @ h12 @ newline))"

definition list_cmd :: "'g rpc \<Rightarrow> string list option \<Rightarrow> string \<Rightarrow> 'g \<Rightarrow> exit \<times> 'g" where
  "list_cmd rpc auth pre g =
     call rpc auth (ListPromptsRequest pre)
       (\<lambda>x. case x of ListPromptsResponse es \<Rightarrow> list_lines es [] | _ \<Rightarrow> (Some WrongAnswer, [])) g"

definition em_dash :: string where "em_dash = [CHR 0xE2, CHR 0x80, CHR 0x94]"

definition print_published :: "string \<Rightarrow> response \<Rightarrow> exit" where
  "print_published uri x =
     (case x of
        PublishPromptResponse h \<Rightarrow>
          (case slice12 h of
             None \<Rightarrow> (Some SlicePanic, [])
           | Some h12 \<Rightarrow>
               (None, ''published '' @ uri @ '' ('' @ h12 @ '') '' @ em_dash @ '' subscribers notified'' @ newline))
      | _ \<Rightarrow> (Some WrongAnswer, []))"

definition publish_cmd :: "'g rpc \<Rightarrow> string list option \<Rightarrow> string \<Rightarrow> string option \<Rightarrow> string list \<Rightarrow> 'g \<Rightarrow> exit \<times> 'g" where
  "publish_cmd rpc auth uri file slots g =
     (if uri = [] then ((Some Usage, []), g)
      else case file of
        None \<Rightarrow> ((Some Unreadable, []), g)
      | Some template \<Rightarrow> call rpc auth (PublishPromptRequest uri template slots [] []) (print_published uri) g)"

subsection \<open>watch\<close>

text \<open>\<open>runHook\<close>: the command line of the platform's shell, and its environment.\<close>

definition runHook :: "bool \<Rightarrow> string list \<Rightarrow> string \<Rightarrow> string \<Rightarrow> string \<Rightarrow> string \<Rightarrow> string list \<times> string list" where
  "runHook windows environ cmd uri hash class_name =
     (if windows then [''cmd'', ''/c'', cmd] else [''sh'', ''-c'', cmd],
      environ @ [''PROMPTNET_URI='' @ uri, ''PROMPTNET_VERSION='' @ hash, ''PROMPTNET_CLASS='' @ class_name])"

text \<open>What the callback does with an event: the line it logs, and the hook it runs, if there is one.\<close>

definition on_event :: "bool \<Rightarrow> string list \<Rightarrow> string \<Rightarrow> string \<Rightarrow> event \<Rightarrow> string \<times> (string list \<times> string list) option" where
  "on_event windows environ uri hook ev =
     (let class_name = (if Classification ev = [] then ''unknown'' else Classification ev)
      in (uri @ '' updated -> '' @ Version ev @ '' ['' @ class_name @ '']'',
          if hook \<noteq> [] then Some (runHook windows environ hook uri (Version ev) (Classification ev)) else None))"

text \<open>What it does with the events of its connection; \<open>None\<close> if the subscription is refused.\<close>

definition watch :: "bool \<Rightarrow> string list \<Rightarrow> string \<Rightarrow> string \<Rightarrow> connection
    \<Rightarrow> (string \<times> (string list \<times> string list) option) list option" where
  "watch windows environ uri hook conn = map_option (map (on_event windows environ uri hook)) (Subscribe conn uri)"

subsection \<open>What a put may replace\<close>

lemma precommit_passes:
  assumes "precommit s emb e False uri template d = (None, out)" and "Get s e d uri = Inr prev" and "Template prev \<noteq> template"
  shows "\<exists>rs st. Analyze emb [] (splitLines (Template prev)) (splitLines template) = Some (Inr rs, st)
    \<and> (\<forall>r \<in> set rs. Class r \<noteq> ''structural'')"
proof -
  obtain x st where a: "Analyze emb [] (splitLines (Template prev)) (splitLines template) = Some (x, st)"
    using Analyze_returns by blast
  with assms show ?thesis
    by (auto simp: precommit_def hasStructural_def list_ex_iff split: sum.splits if_splits)
qed

lemma put_cmd_cases:
  assumes "put_cmd st emb e force uri file slots d = ((er, out), d')"
  obtains (refused) x where "er = Some x" "d' = d"
    | (stored) s template out' where "file = Some template" "st = Inr s" "validate_Prompt uri template slots = None"
        "precommit s emb e force uri template d = (None, out')" "er = None \<or> length (Hash (sha s) template slots) < 12"
        "Put s e \<lparr>URI = uri, Template = template, Slots = slots, VersionHash = []\<rparr> d = (Inr (), d')"
proof (cases "file")
  case None
  with assms that(1) show thesis by (auto simp: put_cmd_def)
next
  case template: (Some template)
  show thesis
  proof (cases "validate_Prompt uri template slots")
    case (Some v)
    with assms template that(1) show thesis by (auto simp: put_cmd_def)
  next
    case valid: None
    show thesis
    proof (cases st)
      case (Inl x)
      with assms template valid that(1) show thesis by (auto simp: put_cmd_def)
    next
      case st: (Inr s)
      obtain pe out' where pre: "precommit s emb e force uri template d = (pe, out')" by fastforce
      let ?p = "\<lparr>URI = uri, Template = template, Slots = slots, VersionHash = []\<rparr>"
      obtain y d1 where put: "Put s e ?p d = (y, d1)" by fastforce
      then have keep: "d1 = d" if "y = Inl x" for x
        using that by (auto simp: Put_def Let_def split: sum.splits)
      show thesis
      proof (cases "pe \<noteq> None \<or> (\<exists>x. y = Inl x)")
        case True
        with assms template valid st pre put keep that(1) show thesis by (cases pe) (auto simp: put_cmd_def)
      next
        case False
        then have y: "pe = None" "y = Inr ()" by (cases y; simp)+
        with assms template valid st pre put
        have "d' = d1" "er = None \<or> length (Hash (sha s) template slots) < 12"
          by (auto simp: put_cmd_def slice12_def split: if_splits)
        with y put that(2) [OF template st valid pre [unfolded y(1)]] show thesis by simp
      qed
    qed
  qed
qed

lemma Worst_among: "Worst rs = [] \<or> (\<exists>r \<in> set rs. Worst rs = Class r)"
proof -
  have "foldl (\<lambda>worst r. if rank (Class r) > rank worst then Class r else worst) u rs = u
      \<or> (\<exists>r \<in> set rs. foldl (\<lambda>worst r. if rank (Class r) > rank worst then Class r else worst) u rs = Class r)" for u
    by (induction rs arbitrary: u) force+
  then show ?thesis unfolding Worst_def .
qed

text \<open>C30: a put without \<open>-force\<close> never replaces a prompt by a structural edit. It either ends with an
  error and leaves the database as it was, or it stored a well formed prompt, which is then served
  with its version hash; and if that replaced another template, the analysis of the two found no
  structural change.\<close>

theorem put_refuses_structural_edits:
  assumes "put_cmd (Inr s) emb e False uri (Some template) slots d = ((er, out), d')" and "env_ok s e" and "sha_ok s"
  shows "(er \<noteq> None \<longrightarrow> d' = d) \<and> (er = None \<longrightarrow> well_formed uri template slots
      \<and> Get s calm d' uri = Inr \<lparr>URI = uri, Template = template, Slots = slots, VersionHash = Hash (sha s) template slots\<rparr>
      \<and> (\<forall>prev. Get s e d uri = Inr prev \<and> Template prev \<noteq> template \<longrightarrow>
           (\<exists>rs st. Analyze emb [] (splitLines (Template prev)) (splitLines template) = Some (Inr rs, st)
             \<and> Worst rs \<noteq> ''structural'')))"
  using assms(1)
proof (cases rule: put_cmd_cases)
  case (refused x)
  then show ?thesis by simp
next
  case (stored s' template' out')
  then have s: "s' = s" "template' = template" by simp_all
  have len: "length (Hash (sha s) template slots) = 64"
    using assms(3) by (simp add: Hash_def sha_ok_def)
  with stored s have er: "er = None" by simp
  have wf: "well_formed uri template slots" using stored(3) s validate_None_iff by simp
  have d': "d' = upsert_prompt uri (served_row s e template slots (Hash (sha s) template slots)) d"
    using stored(6) s Put_calm [of e s "\<lparr>URI = uri, Template = template, Slots = slots, VersionHash = []\<rparr>" d]
    by (cases "fails e UpsertPrompt") (auto simp: Put_def stmt_def Let_def)
  have "served_content s (served_row s e template slots (Hash (sha s) template slots)) template slots"
    using assms(2) slots_utf8 [of uri template slots] stored(3) s by (intro served_content_new) simp_all
  then have get: "Get s calm d' uri = Inr \<lparr>URI = uri, Template = template, Slots = slots, VersionHash = Hash (sha s) template slots\<rparr>"
    unfolding d' by (intro Get_served) (simp_all add: upsert_prompt_def)
  have "Worst rs \<noteq> ''structural''" if "\<forall>r \<in> set rs. Class r \<noteq> ''structural''" for rs
    using that Worst_among [of rs] by force
  then have "\<exists>rs st. Analyze emb [] (splitLines (Template prev)) (splitLines template) = Some (Inr rs, st) \<and> Worst rs \<noteq> ''structural''"
    if "Get s e d uri = Inr prev" "Template prev \<noteq> template" for prev
    using precommit_passes [of s emb e uri template d out' prev] stored(4) s that by metis
  with wf get er show ?thesis by simp
qed

theorem put_refuses_structural_edits_witness:
  "\<exists>out d'. put_cmd (Inr demo) (LexicalEmbedder demo_unicode 0) calm False demo_uri (Some ''Hi {n}'') [''n''] empty_db = ((None, out), d')
    \<and> Get demo calm d' demo_uri = Inr \<lparr>URI = demo_uri, Template = ''Hi {n}'', Slots = [''n''],
        VersionHash = Hash demo_sha ''Hi {n}'' [''n'']\<rparr>"
proof -
  let ?e = "LexicalEmbedder demo_unicode 0"
  have "precommit demo ?e calm False demo_uri ''Hi {n}'' empty_db = (None, [])"
    by (simp add: precommit_def Get_def empty_db_def)
  moreover have "length (Hash (sha demo) ''Hi {n}'' [''n'']) = 64"
    using digest_text_Hash [of demo] demo_ok(1) by (simp add: digest_text_def)
  ultimately obtain out d' where p: "put_cmd (Inr demo) ?e calm False demo_uri (Some ''Hi {n}'') [''n''] empty_db = ((None, out), d')"
    by (simp add: put_cmd_def demo_valid Put_calm slice12_def)
  from put_refuses_structural_edits [OF p demo_ok(2,1)] p show ?thesis by (auto simp: sha_demo)
qed

subsection \<open>Slices of hashes\<close>

lemma slice12_digest: "digest_text h \<Longrightarrow> slice12 h = Some (take 12 h)"
  by (simp add: slice12_def digest_text_def)

lemma list_lines_digests:
  "\<forall>(u, h) \<in> set es. digest_text h \<Longrightarrow>
     list_lines es out = (None, out @ concat (map (\<lambda>(u, h). u @ [CHR 0x09] @ take 12 h @ newline) es))"
  by (induction es arbitrary: out) (auto simp: slice12_digest)

lemma map_reply_Reply: "map_reply f y = Reply x \<longleftrightarrow> (\<exists>a. y = Reply a \<and> x = f a)"
  by (cases y) auto

lemma ListPrompts_digests:
  assumes "fst (ListPrompts srv c e pre w) = Reply es" and "hash_columns (w_db w)"
  shows "\<forall>(u, h) \<in> set es. digest_text h"
  using assms(1) List_digest [OF _ assms(2), of "srv_store srv" e pre]
  by (auto simp: ListPrompts_def guard_def split: option.splits sum.splits)

lemma PublishPrompt_digest:
  assumes "fst (PublishPrompt srv c e uri t sl m b w) = Reply h" and "sha_ok (srv_store srv)"
  shows "digest_text h"
proof -
  obtain x w' where p: "PublishPrompt srv c e uri t sl m b w = (x, w')" by fastforce
  then show ?thesis
    by (cases rule: Publish_cases) (use assms p digest_text_Hash [of "srv_store srv" t sl] in auto)
qed

lemma call_cases:
  assumes "call rpc auth req k g = (ex, g')"
  obtains (no_reply) er where "ex = (Some er, [])" "er \<in> {BadURL, ServerGone} \<or> (\<exists>c d. er = RpcFailed c d)"
    | (replied) vals x where "auth = Some vals" "rpc vals req g = (Reply x, g')" "ex = k x"
  using assms by (auto simp: call_def split: option.splits prod.splits outcome.splits)

lemma serve_rpc_reply:
  assumes "serve_rpc cfg e vals r g = (Reply x, g')"
  shows "\<exists>c w'. dispatch (cfg_server cfg) c e r (g_world g) = (Reply x, w')"
  using assms by (cases rule: serve_rpc_cases) auto

lemma list_cmd_safe:
  assumes cols: "hash_columns (w_db (g_world g))"
  shows "fst (fst (list_cmd (serve_rpc cfg e) auth pre g)) \<noteq> Some SlicePanic"
proof -
  obtain ex g' where c: "list_cmd (serve_rpc cfg e) auth pre g = (ex, g')" by fastforce
  from this [unfolded list_cmd_def] show ?thesis
  proof (cases rule: call_cases)
    case (replied vals x)
    from serve_rpc_reply [OF replied(2)] obtain ctx w' where "dispatch (cfg_server cfg) ctx e (ListPromptsRequest pre) (g_world g) = (Reply x, w')"
      by blast
    then obtain es where x: "x = ListPromptsResponse es" "fst (ListPrompts (cfg_server cfg) ctx e pre (g_world g)) = Reply es"
      by (auto simp: reply_def map_reply_Reply)
    from list_lines_digests [OF ListPrompts_digests [OF x(2) cols]] replied(3) x(1) c show ?thesis by simp
  qed (use c in auto)
qed

lemma publish_cmd_safe:
  assumes "sha_ok (srv_store (cfg_server cfg))"
  shows "fst (fst (publish_cmd (serve_rpc cfg e) auth uri file slots g)) \<noteq> Some SlicePanic"
proof (cases "uri = [] \<or> file = None")
  case True
  then show ?thesis by (auto simp: publish_cmd_def)
next
  case False
  then obtain template where template: "file = Some template" by auto
  obtain ex g' where c: "publish_cmd (serve_rpc cfg e) auth uri file slots g = (ex, g')" by fastforce
  from False template c
  have "call (serve_rpc cfg e) auth (PublishPromptRequest uri template slots [] []) (print_published uri) g = (ex, g')"
    by (simp add: publish_cmd_def)
  then show ?thesis
  proof (cases rule: call_cases)
    case (replied vals x)
    from serve_rpc_reply [OF replied(2)] obtain ctx w' where "dispatch (cfg_server cfg) ctx e (PublishPromptRequest uri template slots [] []) (g_world g) = (Reply x, w')"
      by blast
    then obtain h where x: "x = PublishPromptResponse h"
        "fst (PublishPrompt (cfg_server cfg) ctx e uri template slots [] [] (g_world g)) = Reply h"
      by (auto simp: reply_def map_reply_Reply)
    from slice12_digest [OF PublishPrompt_digest [OF x(2) assms]] replied(3) x(1) c show ?thesis by (simp add: print_published_def)
  qed (use c in auto)
qed

text \<open>C29: hashes are 64 hexadecimal digits, wherever the store keeps one: on every database it can
  reach, each hash that \<open>Get\<close> and \<open>GetCommit\<close> return has this form. So no slice \<open>[:12]\<close> of the
  commands \<open>list\<close> and \<open>publish\<close> is out of range, whatever the interceptors and the server do.\<close>

theorem hashes_are_hex_digests:
  assumes "reachable (srv_store (cfg_server cfg)) (w_db (g_world g))" and "sha_ok (srv_store (cfg_server cfg))"
  shows "(\<forall>uri p. Get (srv_store (cfg_server cfg)) e (w_db (g_world g)) uri = Inr p \<longrightarrow> digest_text (VersionHash p))
    \<and> (\<forall>h c. GetCommit (srv_store (cfg_server cfg)) e (w_db (g_world g)) h = Inr c
         \<longrightarrow> digest_text (c_Hash c) \<and> digest_text (c_VersionHash c))
    \<and> fst (fst (list_cmd (serve_rpc cfg e) auth pre g)) \<noteq> Some SlicePanic
    \<and> fst (fst (publish_cmd (serve_rpc cfg e) auth uri file slots g)) \<noteq> Some SlicePanic"
proof -
  have cols: "hash_columns (w_db (g_world g))" using assms by (rule reachable_hash_columns)
  note reads = Get_digest [OF _ this] GetCommit_columns(1,2) [OF _ this]
  show ?thesis
    by (intro conjI allI impI; (erule reads | rule list_cmd_safe [OF cols] | rule publish_cmd_safe [OF assms(2)]))
qed

theorem hashes_are_hex_digests_witness:
  "fst (fst (list_cmd (serve_rpc demo_config calm) (Some [''Bearer k'']) ''promptnet://acme/'' demo_gate)) \<noteq> Some SlicePanic
    \<and> digest_text (Hash demo_sha ''Hi {n}'' [''n''])"
proof -
  have "reachable (srv_store (cfg_server demo_config)) (w_db (g_world demo_gate))" "sha_ok (srv_store (cfg_server demo_config))"
    using demo_reachable by (simp_all add: demo_config_def demo_gate_def)
  moreover have "Get (srv_store (cfg_server demo_config)) calm (w_db (g_world demo_gate)) demo_uri
      = Inr \<lparr>URI = demo_uri, Template = ''Hi {n}'', Slots = [''n''], VersionHash = Hash demo_sha ''Hi {n}'' [''n'']\<rparr>"
    using demo_Get [of calm] by (simp add: demo_config_def demo_gate_def)
  ultimately show ?thesis using hashes_are_hex_digests [of demo_config demo_gate calm] by fastforce
qed

subsection \<open>Watching\<close>

text \<open>A watcher acts once for each notification of the server about its prompt, in order.\<close>

lemma watch_acts_per_notification:
  assumes "nats deliver"
    and "\<forall>(uri, v, k) \<in> set ns. (\<exists>p. uri = ''promptnet://'' @ p \<and> literal_path p)
      \<and> v \<noteq> [] \<and> valid_utf8 v \<and> valid_utf8 k"
    and "literal_path path"
  shows "watch windows environ (''promptnet://'' @ path) hook (deliver (map Publish_event ns))
    = Some (map (\<lambda>(uri, v, k). on_event windows environ uri hook \<lparr>Version = v, Classification = k\<rparr>)
        (filter (\<lambda>(uri, v, k). uri = ''promptnet://'' @ path) ns))"
proof -
  have "map (on_event windows environ u hook) (map (\<lambda>(uri, v, k). \<lparr>Version = v, Classification = k\<rparr>)
        (filter (\<lambda>(uri, v, k). uri = u) ns))
    = map (\<lambda>(uri, v, k). on_event windows environ uri hook \<lparr>Version = v, Classification = k\<rparr>) (filter (\<lambda>(uri, v, k). uri = u) ns)" for u
    by (induction ns) auto
  then show ?thesis unfolding watch_def nats.events_received [OF assms] option.map option.inject .
qed

end
