(* ===== verification/Serve.thy ===== *)
theory Serve
  imports Cli
begin

text \<open>
  \<open>serve\<close> of \<^verbatim>\<open>cmd/promptnet/main.go\<close>: how flags and environment become a running server, with
  \<open>buildCache\<close>, \<open>seedDemo\<close>, \<open>serverCreds\<close> and \<open>certPool\<close>, and \<open>NewRedisCache\<close> of
  \<^verbatim>\<open>internal/server/redis_cache.go\<close>. What the operating system and the libraries do is the record
  \<open>platform\<close>. The metrics endpoint and the log are left out, except for what the log says of TLS.
\<close>

subsection \<open>The cache\<close>

text \<open>The state of whichever cache was chosen.\<close>

datatype 'r l2 = InRedis 'r | InProcess ttl_cache

definition mem_side :: "ttl_cache cache_ops \<Rightarrow> 'r l2 cache_ops" where
  "mem_side ops =
     \<lparr>CGet = \<lambda>t u c. case c of InProcess m \<Rightarrow> CGet ops t u m | InRedis r \<Rightarrow> None,
      CPut = \<lambda>t u x c. case c of InProcess m \<Rightarrow> InProcess (CPut ops t u x m) | InRedis r \<Rightarrow> c,
      CInvalidate = \<lambda>t u c. case c of InProcess m \<Rightarrow> InProcess (CInvalidate ops t u m) | InRedis r \<Rightarrow> c\<rparr>"

definition redis_side :: "'r cache_ops \<Rightarrow> 'r l2 cache_ops" where
  "redis_side ops =
     \<lparr>CGet = \<lambda>t u c. case c of InRedis r \<Rightarrow> CGet ops t u r | InProcess m \<Rightarrow> None,
      CPut = \<lambda>t u x c. case c of InRedis r \<Rightarrow> InRedis (CPut ops t u x r) | InProcess m \<Rightarrow> c,
      CInvalidate = \<lambda>t u c. case c of InRedis r \<Rightarrow> InRedis (CInvalidate ops t u r) | InProcess m \<Rightarrow> c\<rparr>"

text \<open>The Redis library: what a URL connects to, and the protobuf codec.\<close>

record 'r redis_lib =
  redis_connect :: "string \<Rightarrow> ('r redis_client \<times> 'r) option"
  proto_Marshal :: "get_resp \<Rightarrow> bytes option"
  proto_Unmarshal :: "bytes \<Rightarrow> get_resp option"

definition NewRedisCache :: "'r redis_lib \<Rightarrow> string \<Rightarrow> int \<Rightarrow> ('r cache_ops \<times> 'r) option" where
  "NewRedisCache lib u ttl =
     map_option (\<lambda>(rdb, st). (redis_ops rdb (proto_Marshal lib) (proto_Unmarshal lib) ttl, st)) (redis_connect lib u)"

definition buildCache :: "'r redis_lib \<Rightarrow> string \<Rightarrow> int \<Rightarrow> ('r l2 cache_ops \<times> 'r l2) option" where
  "buildCache lib redisURL ttl =
     (if redisURL \<noteq> [] then map_option (\<lambda>(ops, st). (redis_side ops, InRedis st)) (NewRedisCache lib redisURL ttl)
      else Some (mem_side (mem_ops ttl), InProcess []))"

definition cacheName :: "string \<Rightarrow> int \<Rightarrow> string" where
  "cacheName redisURL ttl = (if redisURL \<noteq> [] then ''redis'' else if 0 < ttl then ''mem'' else ''off'')"

definition embedName :: "string \<Rightarrow> string \<Rightarrow> string" where
  "embedName u model = (if u = [] then ''lexical(offline)'' else model @ ''@'' @ u)"

subsection \<open>The demo prompt\<close>

definition seed_uri :: string where "seed_uri = ''promptnet://acme/onboarding/welcome''"

definition seedDemo :: "store \<Rightarrow> env \<Rightarrow> db \<Rightarrow> db" where
  "seedDemo s e d =
     (if Get s e d seed_uri \<noteq> Inl ErrNotFound then d
      else snd (Commit s e seed_uri ''main'' ''Hi {name}, welcome to {org}!'' [''name'', ''org''] ''promptnet'' ''seed: demo prompt'' d))"

subsection \<open>Transport security\<close>

datatype transport = Plaintext | ServerTls | MutualTls

text \<open>\<open>has_certs\<close>: whether PEM text holds a certificate.\<close>

definition certPool :: "files \<Rightarrow> (string \<Rightarrow> bool) \<Rightarrow> string \<Rightarrow> string option" where
  "certPool fs has_certs pemFile =
     (case fs pemFile of None \<Rightarrow> None | Some pem \<Rightarrow> if has_certs pem then Some pem else None)"

text \<open>\<open>key_pair\<close>: whether \<open>tls.LoadX509KeyPair\<close> succeeds.\<close>

definition serverCreds :: "files \<Rightarrow> (string \<Rightarrow> bool) \<Rightarrow> (string \<Rightarrow> string \<Rightarrow> bool) \<Rightarrow> string \<Rightarrow> string \<Rightarrow> string \<Rightarrow> transport option" where
  "serverCreds fs has_certs key_pair certFile keyFile clientCA =
     (if \<not> key_pair certFile keyFile then None
      else if clientCA \<noteq> [] then map_option (\<lambda>_. MutualTls) (certPool fs has_certs clientCA)
      else Some ServerTls)"

subsection \<open>serve\<close>

record flags =
  f_addr :: string
  f_tls_cert :: string
  f_tls_key :: string
  f_client_ca :: string
  f_cache_ttl :: int
  f_redis_url :: string
  f_embed_url :: string
  f_embed_model :: string
  f_nats_addr :: string
  f_tokens_file :: string
  f_rate_limit :: f64
  f_rate_burst :: int
  f_seed :: bool

datatype nats_server = NeverStarted | Started | Shutdown

record nats_lib =
  nats_accepts :: "string \<Rightarrow> int \<Rightarrow> bool"
  nats_ready :: "string \<Rightarrow> int \<Rightarrow> bool"
  nats_connects :: "string \<Rightarrow> int \<Rightarrow> bool"

record ('r, 'l) platform =
  os_token :: string
  os_embed_key :: string
  os_files :: files
  os_redis :: "'r redis_lib"
  os_nats :: nats_lib
  os_has_certs :: "string \<Rightarrow> bool"
  os_key_pair :: "string \<Rightarrow> string \<Rightarrow> bool"
  os_listen :: "string \<Rightarrow> bool"
  os_unicode :: unicode
  os_post :: "string list list \<Rightarrow> http_request \<Rightarrow> http_answer"
  os_limiter :: "'l limiter_ops"

datatype serve_err =
    BadTokens
  | BadStore open_err
  | BadRedis
  | BadNatsAddr
  | NatsFailed
  | BadCreds
  | ClientCaAlone
  | ListenFailed

record ('r, 'l) running =
  run_config :: "('r l2, 'l) config"
  run_cache :: "'r l2"
  run_transport :: transport
  run_logs_tls :: bool

text \<open>\<open>NewEmbedded\<close> of \<^verbatim>\<open>internal/pubsub/pubsub.go\<close>: whether a bus is there, and what became of the NATS
  server. \<open>nats_lib\<close> is the library: whether it accepts the address, gets ready and is connected to.\<close>

definition NewEmbedded :: "nats_lib \<Rightarrow> string \<Rightarrow> int \<Rightarrow> bool \<times> nats_server" where
  "NewEmbedded lib host port =
     (if \<not> nats_accepts lib host port then (False, NeverStarted)
      else if \<not> nats_ready lib host port then (False, Shutdown)
      else if \<not> nats_connects lib host port then (False, Shutdown)
      else (True, Started))"

text \<open>The embedded bus: \<open>False\<close> if it is disabled.\<close>

definition start_bus :: "('r, 'l) platform \<Rightarrow> string \<Rightarrow> serve_err + bool" where
  "start_bus os addr =
     (if addr = [] then Inr False
      else case splitHostPort addr of
        None \<Rightarrow> Inl BadNatsAddr
      | Some (host, port) \<Rightarrow> if fst (NewEmbedded (os_nats os) host port) then Inr True else Inl NatsFailed)"

definition start_transport :: "('r, 'l) platform \<Rightarrow> flags \<Rightarrow> serve_err + transport" where
  "start_transport os fl =
     (if f_tls_cert fl \<noteq> [] \<and> f_tls_key fl \<noteq> []
      then of_option BadCreds (serverCreds (os_files os) (os_has_certs os) (os_key_pair os) (f_tls_cert fl) (f_tls_key fl) (f_client_ca fl))
      else if f_client_ca fl \<noteq> [] then Inl ClientCaAlone
      else Inr Plaintext)"

text \<open>\<open>st\<close> is what \<open>Open\<close> returned. Seeding comes before most failures.\<close>

definition serve :: "('r, 'l) platform \<Rightarrow> flags \<Rightarrow> env \<Rightarrow> (open_err + store) \<Rightarrow> db \<Rightarrow> (serve_err + ('r, 'l) running) \<times> db" where
  "serve os fl e st d =
     (case loadTokens (os_token os) (os_files os) (f_tokens_file fl) of
        None \<Rightarrow> (Inl BadTokens, d)
      | Some table \<Rightarrow>
          (case st of
             Inl er \<Rightarrow> (Inl (BadStore er), d)
           | Inr s \<Rightarrow>
               (rbind (of_option BadRedis (buildCache (os_redis os) (f_redis_url fl) (f_cache_ttl fl))) (\<lambda>(cache, c0).
                rbind (start_bus os (f_nats_addr fl)) (\<lambda>bus.
                rbind (start_transport os fl) (\<lambda>tls.
                  if \<not> os_listen os (f_addr fl) then Inl ListenFailed
                  else Inr \<lparr>run_config =
                      \<lparr>cfg_server = \<lparr>srv_store = s, srv_cache = cache,
                          srv_embedder = Some (buildEmbedder (os_unicode os) (os_post os) (f_embed_url fl) (f_embed_model fl) (os_embed_key os)),
                          srv_notifier = bus\<rparr>,
                       cfg_tokens = table, cfg_limiter = os_limiter os,
                       cfg_rps = f_rate_limit fl, cfg_burst = f_rate_burst fl\<rparr>,
                     run_cache = c0, run_transport = tls, run_logs_tls = (f_tls_cert fl \<noteq> [])\<rparr>))),
                if f_seed fl then seedDemo s e d else d)))"

subsection \<open>Connecting to a server\<close>

text \<open>\<open>dial\<close>: the transport of a client, with the certificates it trusts (\<open>None\<close>: the system's) and the
  one it presents; \<open>None\<close> as a whole is fatal. \<open>new_client\<close> is whether gRPC accepts the address.\<close>

record client_tls =
  RootCAs :: "string option"
  Certificates :: "(string \<times> string) list"

definition dial :: "files \<Rightarrow> (string \<Rightarrow> bool) \<Rightarrow> (string \<Rightarrow> string \<Rightarrow> bool) \<Rightarrow> (string \<Rightarrow> bool) \<Rightarrow> string \<Rightarrow> bool
    \<Rightarrow> string \<Rightarrow> string \<Rightarrow> string \<Rightarrow> client_tls option option" where
  "dial fs has_certs key_pair new_client addr useTLS caCert clientCert clientKey =
     (let creds =
        (if \<not> useTLS then Some None
         else let roots = (if caCert \<noteq> [] then map_option Some (certPool fs has_certs caCert) else Some None);
                  certs = (if clientCert \<noteq> [] then if key_pair clientCert clientKey then Some [(clientCert, clientKey)] else None
                           else Some [])
           in case roots of None \<Rightarrow> None
              | Some rs \<Rightarrow> map_option (\<lambda>cs. Some \<lparr>RootCAs = rs, Certificates = cs\<rparr>) certs)
      in if new_client addr then creds else None)"

text \<open>A client that was asked for TLS never connects in plaintext, and trusts no system roots if it was
  given a CA file.\<close>

lemma dial_keeps_tls:
  assumes "dial fs has_certs key_pair new_client addr True caCert clientCert clientKey = Some t"
  shows "\<exists>tls. t = Some tls \<and> (caCert \<noteq> [] \<longrightarrow> RootCAs tls = fs caCert \<and> fs caCert \<noteq> None)
    \<and> (clientCert \<noteq> [] \<longrightarrow> Certificates tls = [(clientCert, clientKey)])"
  using assms by (auto simp: dial_def certPool_def Let_def split: if_splits option.splits)

subsection \<open>What a running server guarantees\<close>

lemma rbind_pair: "rbind x (\<lambda>(a, b). f a b) = Inr r \<longleftrightarrow> (\<exists>a b. x = Inr (a, b) \<and> f a b = Inr r)"
  by (auto simp: rbind_eq_Inr)

lemma serve_running:
  assumes "serve os fl e st d = (Inr r, d')"
  obtains table s cache c0 bus where "loadTokens (os_token os) (os_files os) (f_tokens_file fl) = Some table"
    "st = Inr s" "buildCache (os_redis os) (f_redis_url fl) (f_cache_ttl fl) = Some (cache, c0)"
    "start_bus os (f_nats_addr fl) = Inr bus" "start_transport os fl = Inr (run_transport r)"
    "cfg_tokens (run_config r) = table" "srv_store (cfg_server (run_config r)) = s"
    "srv_cache (cfg_server (run_config r)) = cache" "run_cache r = c0"
    "srv_notifier (cfg_server (run_config r)) = bus" "run_logs_tls r = (f_tls_cert fl \<noteq> [])"
    "d' = (if f_seed fl then seedDemo s e d else d)"
  using assms that
  by (auto simp: serve_def rbind_pair rbind_eq_Inr split: option.splits sum.splits if_splits)

text \<open>Credentials at all, in the environment or on a line of the file, switch authentication on.\<close>

definition credentials :: "string \<Rightarrow> files \<Rightarrow> string \<Rightarrow> bool" where
  "credentials env_token fs file \<longleftrightarrow> env_token \<noteq> []
     \<or> file \<noteq> [] \<and> (\<exists>b l. fs file = Some b \<and> l \<in> set (SplitByte b (CHR 0x0A)) \<and> line_token l \<noteq> None)"

text \<open>None of the configured tokens is presented.\<close>

definition unknown_token :: "(string \<times> token) list \<Rightarrow> string list \<Rightarrow> bool" where
  "unknown_token table vals \<longleftrightarrow> (\<forall>k tok. vals \<noteq> [] \<longrightarrow> hd vals = ''Bearer '' @ k \<longrightarrow> (k, tok) \<notin> set table)"

lemma loadTokens_nonempty:
  assumes "loadTokens env_token fs file = Some table" and "credentials env_token fs file"
  shows "table \<noteq> []"
proof (cases "file = []")
  case True
  with assms show ?thesis by (auto simp: loadTokens_def credentials_def Let_def split: if_splits)
next
  case False
  then obtain b where b: "fs file = Some b" using assms(1) by (auto simp: loadTokens_def Let_def split: option.splits)
  let ?xs = "List.map_filter line_token (SplitByte b (CHR 0x0A))"
  from tokens_file [of _ fs b env_token, OF False b] assms(1)
  have map: "map_of table k = (case map_of (rev ?xs) k of Some tok \<Rightarrow> Some tok
      | None \<Rightarrow> if k = env_token \<and> k \<noteq> [] then Some \<lparr>Org = [], Expires = 0, Write = True\<rparr> else None)" for k by simp
  have "\<exists>k. map_of table k \<noteq> None"
  proof (cases "?xs = []")
    case True
    with assms(2) b have "env_token \<noteq> []" by (force simp: credentials_def map_filter_def filter_empty_conv)
    with map [of env_token] True show ?thesis by auto
  next
    case False
    then obtain k tok where "(k, tok) \<in> set (rev ?xs)" by (cases ?xs) auto
    then have "map_of (rev ?xs) k \<noteq> None" by (metis map_of_eq_None_iff fst_conv image_eqI)
    then have "map_of table k \<noteq> None" using map [of k] by auto
    then show ?thesis by blast
  qed
  then show ?thesis by auto
qed

lemma unknown_token_refused:
  assumes "cfg_tokens cfg \<noteq> []" and "unknown_token (cfg_tokens cfg) vals" and "serve_rpc cfg e vals req g = (x, g')"
  shows "(\<exists>d. x = Fail Unauthenticated d) \<and> g_world g' = g_world g"
  using assms(3)
proof (cases rule: serve_rpc_cases)
  case (refused d)
  then show ?thesis by simp
qed (use assms(1,2) in \<open>auto simp: admitted_def unknown_token_def\<close>)

text \<open>C17: a server fails closed. If \<open>serve\<close> gets as far as serving with credentials configured, be it the
  environment's token or a line of the tokens file, every request without a configured token is
  refused and changes nothing; with \<open>-client-ca\<close> it requires client certificates; with both
  \<open>-tls-cert\<close> and \<open>-tls-key\<close> it is not in plaintext; and it publishes events exactly if a NATS address
  was given.\<close>

theorem serve_fails_closed:
  assumes "serve os fl e st d = (Inr r, d')"
  shows "(credentials (os_token os) (os_files os) (f_tokens_file fl) \<and> unknown_token (cfg_tokens (run_config r)) vals
        \<and> serve_rpc (run_config r) e' vals req g = (x, g')
      \<longrightarrow> (\<exists>dt. x = Fail Unauthenticated dt) \<and> g_world g' = g_world g)
    \<and> (f_client_ca fl \<noteq> [] \<longrightarrow> run_transport r = MutualTls)
    \<and> (f_tls_cert fl \<noteq> [] \<and> f_tls_key fl \<noteq> [] \<longrightarrow> run_transport r \<noteq> Plaintext)
    \<and> (srv_notifier (cfg_server (run_config r)) \<longleftrightarrow> f_nats_addr fl \<noteq> [])"
  using assms
proof (rule serve_running)
  fix table s cache c0 bus
  assume load: "loadTokens (os_token os) (os_files os) (f_tokens_file fl) = Some table"
    and bus: "start_bus os (f_nats_addr fl) = Inr bus" "srv_notifier (cfg_server (run_config r)) = bus"
    and tls: "start_transport os fl = Inr (run_transport r)" and table: "cfg_tokens (run_config r) = table"
  have "bus \<longleftrightarrow> f_nats_addr fl \<noteq> []"
    using bus(1) by (auto simp: start_bus_def split: if_splits option.splits)
  moreover have "(f_client_ca fl \<noteq> [] \<longrightarrow> run_transport r = MutualTls)
      \<and> (f_tls_cert fl \<noteq> [] \<and> f_tls_key fl \<noteq> [] \<longrightarrow> run_transport r \<noteq> Plaintext)"
    using tls by (auto simp: start_transport_def serverCreds_def split: if_splits)
  moreover have "(\<exists>dt. x = Fail Unauthenticated dt) \<and> g_world g' = g_world g"
    if "credentials (os_token os) (os_files os) (f_tokens_file fl)" "unknown_token (cfg_tokens (run_config r)) vals"
      "serve_rpc (run_config r) e' vals req g = (x, g')"
    using unknown_token_refused [OF _ that(2,3)] loadTokens_nonempty [OF load that(1)] table by simp
  ultimately show ?thesis using bus(2) by simp
qed

theorem serve_fails_closed_witness:
  "\<exists>os fl (r :: (redis_db, nat) running) d' x g'. serve os fl calm (Inr demo) empty_db = (Inr r, d')
    \<and> serve_rpc (run_config r) calm [''Bearer wrong''] (GetPromptRequest demo_uri [])
        \<lparr>g_world = boot d' (run_cache r), g_limiters = [], reqTotal = [], reqDuration = [], g_audit = []\<rparr> = (x, g')
    \<and> (\<exists>dt. x = Fail Unauthenticated dt)"
proof -
  define lib :: "redis_db redis_lib" where
    "lib = \<lparr>redis_connect = \<lambda>_. None, proto_Marshal = ref_marshal, proto_Unmarshal = ref_unmarshal\<rparr>"
  define os :: "(redis_db, nat) platform" where
    "os = \<lparr>os_token = ''root'', os_embed_key = [], os_files = \<lambda>_. None, os_redis = lib, os_nats = \<lparr>nats_accepts = \<lambda>_ _. True, nats_ready = \<lambda>_ _. True, nats_connects = \<lambda>_ _. True\<rparr>,
       os_has_certs = \<lambda>_. True, os_key_pair = \<lambda>_ _. True, os_listen = \<lambda>_. True, os_unicode = demo_unicode,
       os_post = \<lambda>_ _. TransportErr [], os_limiter = cfg_limiter demo_config\<rparr>"
  define fl where
    "fl = \<lparr>f_addr = '':8443'', f_tls_cert = [], f_tls_key = [], f_client_ca = [], f_cache_ttl = 30000000000, f_redis_url = [],
       f_embed_url = [], f_embed_model = [], f_nats_addr = [], f_tokens_file = [], f_rate_limit = 0, f_rate_burst = 0, f_seed = False\<rparr>"
  have "\<exists>r d'. serve os fl calm (Inr demo) empty_db = (Inr r, d')
      \<and> cfg_tokens (run_config r) = [(''root'', \<lparr>Org = [], Expires = 0, Write = True\<rparr>)]"
    by (simp add: serve_def loadTokens_def buildCache_def start_bus_def start_transport_def os_def fl_def)
  then obtain r d' where r: "serve os fl calm (Inr demo) empty_db = (Inr r, d')"
    "cfg_tokens (run_config r) = [(''root'', \<lparr>Org = [], Expires = 0, Write = True\<rparr>)]" by blast
  let ?g = "\<lparr>g_world = boot d' (run_cache r), g_limiters = [], reqTotal = [], reqDuration = [], g_audit = []\<rparr>"
  obtain x g' where rpc: "serve_rpc (run_config r) calm [''Bearer wrong''] (GetPromptRequest demo_uri []) ?g = (x, g')"
    by fastforce
  have "credentials (os_token os) (os_files os) (f_tokens_file fl)" by (simp add: credentials_def os_def)
  moreover have "unknown_token (cfg_tokens (run_config r)) [''Bearer wrong'']" by (simp add: r(2) unknown_token_def)
  ultimately show ?thesis using serve_fails_closed [OF r(1)] r(1) rpc by blast
qed

subsection \<open>Traps\<close>

text \<open>With a certificate but no key the server starts in plaintext, and its log claims TLS.\<close>

lemma certificate_without_key:
  assumes "serve os fl e st d = (Inr r, d')" and "f_tls_cert fl \<noteq> []" and "f_tls_key fl = []"
  shows "run_transport r = Plaintext \<and> run_logs_tls r"
  using assms by (elim serve_running) (auto simp: start_transport_def split: if_splits)

text \<open>\<open>-cache-ttl 0\<close> disables the in-process cache only: in Redis an entry that is put under it stays
  for good.\<close>

lemma redis_zero_ttl_never_expires:
  assumes "ref_marshal x \<noteq> None"
  shows "CGet (redis_ops (ref_redis (\<lambda>_. True)) ref_marshal ref_unmarshal 0) t' uri
      (CPut (redis_ops (ref_redis (\<lambda>_. True)) ref_marshal ref_unmarshal 0) t uri x c) = Some x"
proof -
  obtain b where b: "ref_marshal x = Some b" using assms by blast
  then have "ref_unmarshal b = Some x" by (rule ref_redis.proto)
  with b show ?thesis by (simp add: redis_ops_def redis_Put_def redis_Get_def ref_redis_def)
qed

subsection \<open>The chosen cache keeps its interface\<close>

definition mem_entries :: "int \<Rightarrow> 'r l2 \<Rightarrow> (string \<times> get_resp) set" where
  "mem_entries ttl c = (case c of InProcess m \<Rightarrow> if ttl \<le> 0 then {} else ttl_entries m | InRedis r \<Rightarrow> {})"

interpretation served_mem: coherent_cache "mem_side (mem_ops ttl)" "mem_entries ttl" for ttl
proof
  note laws = ttl.get_entry [of ttl] ttl.put_entries [of ttl] ttl.invalidate_entries [of ttl] ttl.invalidate_removes [of _ _ ttl]
  fix t uri c r
  show "CGet (mem_side (mem_ops ttl)) t uri c = Some r \<Longrightarrow> (uri, r) \<in> mem_entries ttl c"
    using laws(1) by (auto simp: mem_side_def mem_ops_def mem_entries_def split: l2.splits if_splits)
  show "mem_entries ttl (CPut (mem_side (mem_ops ttl)) t uri r c) \<subseteq> insert (uri, r) (mem_entries ttl c)"
    using laws(2) by (auto simp: mem_side_def mem_ops_def mem_entries_def split: l2.splits)
  show "mem_entries ttl (CInvalidate (mem_side (mem_ops ttl)) t uri c) \<subseteq> mem_entries ttl c"
    using laws(3) by (auto simp: mem_side_def mem_ops_def mem_entries_def split: l2.splits)
  show "(uri, r) \<notin> mem_entries ttl (CInvalidate (mem_side (mem_ops ttl)) t uri c)"
    using laws(4) by (auto simp: mem_side_def mem_ops_def mem_entries_def split: l2.splits)
qed

text \<open>So a server that was started without Redis hands out valid prompts only, after any requests.\<close>

lemma running_serves_valid_prompts:
  assumes "serve os fl e st d = (Inr r, d')" and "f_redis_url fl = []"
    and "serve_all (cfg_server (run_config r)) (boot d1 (run_cache r)) rs = (xs, w)"
    and "GetPrompt (cfg_server (run_config r)) c e' uri ref w = (Reply y, w')"
  shows "valid_resp uri y"
  using assms(1)
proof (rule serve_running)
  fix table s cache c0 bus
  assume "buildCache (os_redis os) (f_redis_url fl) (f_cache_ttl fl) = Some (cache, c0)"
    and ops: "srv_cache (cfg_server (run_config r)) = cache" and c0: "run_cache r = c0"
  with assms(2) have mem: "cache = mem_side (mem_ops (f_cache_ttl fl))" "c0 = InProcess []" by (simp_all add: buildCache_def)
  have "\<forall>(u, y) \<in> mem_entries (f_cache_ttl fl) (w_cache (boot d1 (run_cache r))). valid_resp u y"
    by (simp add: c0 mem(2) mem_entries_def ttl_entries_def)
  note valid = served_mem.serve_all_valid [OF ops [unfolded mem(1)] this assms(3)]
  show ?thesis
    using GetPrompt_valid [OF _ assms(4)] served_mem.hit_inv [OF valid] unfolding ops mem(1) by blast
qed

subsection \<open>Seeding\<close>

text \<open>Seeding only writes while the demo prompt has no row; once it has written, later starts change
  nothing.\<close>

lemma Get_not_found: "Get s e d uri = Inl ErrNotFound \<Longrightarrow> map_of (prompts d) uri = None"
  by (auto simp: Get_def read_columns_def rbind_eq_Inl of_option_def open_col_def split: if_splits option.splits sum.splits)

lemma seeding_is_idempotent:
  assumes "seedDemo s e d \<noteq> d"
  shows "seedDemo s e' (seedDemo s e d) = seedDemo s e d"
proof -
  obtain r d' where c: "Commit s e seed_uri ''main'' ''Hi {name}, welcome to {org}!'' [''name'', ''org''] ''promptnet'' ''seed: demo prompt'' d
      = (r, d')" by fastforce
  with assms have d': "seedDemo s e d = d'" "d' \<noteq> d" by (auto simp: seedDemo_def split: if_splits)
  from c d'(2) have "map_of (prompts d') seed_uri \<noteq> None"
    by (elim Commit_cases) (auto simp: move_branch_def DefaultBranch_def upsert_prompt_def)
  then have "Get s e' d' seed_uri \<noteq> Inl ErrNotFound" using Get_not_found [of s e' d' seed_uri] by auto
  then show ?thesis unfolding d'(1) by (simp add: seedDemo_def)
qed

end
