(* ===== verification/Promptctl.thy ===== *)
theory Promptctl
  imports Cli
begin

text \<open>
  \<^verbatim>\<open>cmd/promptctl/main.go\<close>: prompts as \<open>.prompt\<close> files of a git repository. The repository is a
  library (go-git): its operations are the record \<open>git_ops\<close> over an abstract state, and
  \<open>git_repo\<close> states what the commands rely on. The working tree is a list of regular files with
  slash paths, in the order of a directory walk; a walk may fail on the way, and a file that cannot be
  read is one that is not there, as for the code. \<open>filepath.ToSlash\<close> and \<open>FromSlash\<close> are the identity (Unix), and the
  commands start with the repository opened.
\<close>

subsection \<open>Prompt files\<close>

type_synonym tree = "(string \<times> string) list"

text \<open>\<open>deriveSlots\<close>: the first occurrences of the placeholder names; \<open>seen\<close> are those before.\<close>

fun derive :: "string list \<Rightarrow> string list \<Rightarrow> string list" where
  "derive seen [] = []"
| "derive seen (m # ms) = (if m \<in> set seen then derive seen ms else m # derive (m # seen) ms)"

definition deriveSlots :: "string \<Rightarrow> string list" where
  "deriveSlots template = derive [] (placeholders template)"

definition pathToURI :: "string \<Rightarrow> string" where
  "pathToURI p = ''promptnet://'' @ TrimSuffix p ''.prompt''"

text \<open>A file below a directory \<open>.git\<close> is not visited.\<close>

definition in_git_dir :: "string \<Rightarrow> bool" where
  "in_git_dir p \<longleftrightarrow> ''.git'' \<in> set (butlast (SplitByte p (CHR ''/'')))"

text \<open>A walk: the number of files it visits before it meets a directory that it cannot read, where it
  ends; \<open>None\<close> if it meets none.\<close>

type_synonym walk = "nat option"

definition visited :: "walk \<Rightarrow> tree \<Rightarrow> tree" where
  "visited walk disk = (case walk of None \<Rightarrow> disk | Some n \<Rightarrow> take n disk)"

text \<open>The error of \<open>WalkDir\<close> is not looked at: what was found up to there is the answer.\<close>

definition diskPromptFiles :: "walk \<Rightarrow> tree \<Rightarrow> string list" where
  "diskPromptFiles walk disk =
     filter (\<lambda>p. HasSuffix p ''.prompt'') (filter (\<lambda>p. \<not> in_git_dir p) (map fst (visited walk disk)))"

text \<open>\<open>""\<close> stands for a file that is not there, in a tree and on disk.\<close>

definition blobContent :: "tree \<Rightarrow> string \<Rightarrow> string" where
  "blobContent t p = (case map_of t p of None \<Rightarrow> [] | Some c \<Rightarrow> c)"

definition diskContent :: "tree \<Rightarrow> string \<Rightarrow> string" where
  "diskContent disk p = (case map_of disk p of None \<Rightarrow> [] | Some c \<Rightarrow> c)"

definition promptUnion :: "tree \<Rightarrow> walk \<Rightarrow> tree \<Rightarrow> string list" where
  "promptUnion t walk disk =
     sort (remdups (filter (\<lambda>p. HasSuffix p ''.prompt'') (map fst t) @ diskPromptFiles walk disk))"

definition firstLine :: "string \<Rightarrow> string" where
  "firstLine s = (let i = IndexByte s (CHR 0x0A) in if 0 \<le> i then take (nat i) s else s)"

subsection \<open>Outcomes\<close>

datatype ctl_err =
    CtlUsage
  | UnknownRef string
  | GitFailed
  | WriteFailed
  | NotOnBranch
  | InvalidPrompts "(string \<times> verr) list"
  | CtlDiff diff_err
  | CtlRpc cli_err

type_synonym ctl_exit = "ctl_err option \<times> string"

text \<open>The prompts that do not validate, as \<open>validateAll\<close> reports them.\<close>

definition invalid_prompts :: "walk \<Rightarrow> tree \<Rightarrow> (string \<times> verr) list" where
  "invalid_prompts walk disk = List.map_filter (\<lambda>p. let t = diskContent disk p in
     map_option (\<lambda>v. (p, v)) (validate_Prompt (pathToURI p) t (deriveSlots t))) (diskPromptFiles walk disk)"

definition validateAll :: "walk \<Rightarrow> tree \<Rightarrow> ctl_err option" where
  "validateAll walk disk = (let bad = invalid_prompts walk disk in if length bad > 0 then Some (InvalidPrompts bad) else None)"

subsection \<open>The repository\<close>

text \<open>What the commands call. A tree is looked up by a branch name or any other revision; checking
  out replaces the working tree; a commit returns its hash; \<open>os_write\<close> is \<open>os.WriteFile\<close>, which
  fails for instance if the directory does not exist.\<close>

record 'g git_ops =
  git_tree :: "'g \<Rightarrow> string \<Rightarrow> tree option"
  git_checkout :: "string \<Rightarrow> 'g \<times> tree \<Rightarrow> ('g \<times> tree) option"
  git_add_all :: "tree \<Rightarrow> 'g \<Rightarrow> 'g option"
  git_add :: "string \<Rightarrow> tree \<Rightarrow> 'g \<Rightarrow> 'g option"
  git_commit :: "string \<Rightarrow> string \<times> string \<Rightarrow> 'g \<Rightarrow> (string \<times> 'g) option"
  git_log :: "'g \<Rightarrow> string \<Rightarrow> (string \<times> string) list option"
  git_config :: "'g \<Rightarrow> (string \<times> string) option list"
  git_origin :: "'g \<Rightarrow> string list option"
  os_write :: "string \<Rightarrow> string \<Rightarrow> tree \<Rightarrow> tree option"

text \<open>\<open>author\<close>: the last scope that names a name, and an address, wins.\<close>

definition author :: "'g git_ops \<Rightarrow> 'g \<Rightarrow> string \<times> string" where
  "author git g =
     fold (\<lambda>cfg (name, email). case cfg of
         None \<Rightarrow> (name, email)
       | Some (n, m) \<Rightarrow> (if n \<noteq> [] then n else name, if m \<noteq> [] then m else email))
       (git_config git g) (''promptctl'', ''promptctl@localhost'')"

datatype remote_auth = NoAuth | BasicAuth string string | SshAgent

definition authFor :: "'g git_ops \<Rightarrow> string \<Rightarrow> bool \<Rightarrow> 'g \<Rightarrow> remote_auth" where
  "authFor git token agent g =
     (case git_origin git g of
        None \<Rightarrow> NoAuth
      | Some [] \<Rightarrow> NoAuth
      | Some (u # us) \<Rightarrow>
          if HasPrefix u ''http'' then (if token \<noteq> [] then BasicAuth ''git'' token else NoAuth)
          else if agent then SshAgent else NoAuth)"

subsection \<open>commit, log, diff\<close>

definition commit_cmd :: "'g git_ops \<Rightarrow> string \<Rightarrow> walk \<Rightarrow> tree \<Rightarrow> 'g \<Rightarrow> ctl_exit \<times> 'g" where
  "commit_cmd git msg walk disk g =
     (if msg = [] then ((Some CtlUsage, []), g)
      else case validateAll walk disk of
        Some er \<Rightarrow> ((Some er, []), g)
      | None \<Rightarrow>
          (case git_add_all git disk g of
             None \<Rightarrow> ((Some GitFailed, []), g)
           | Some g1 \<Rightarrow>
               (case git_commit git msg (author git g1) g1 of
                  None \<Rightarrow> ((Some GitFailed, []), g1)
                | Some (h, g2) \<Rightarrow> ((None, ''committed '' @ take 12 h @ newline), g2))))"

definition log_cmd :: "'g git_ops \<Rightarrow> string list \<Rightarrow> 'g \<Rightarrow> ctl_exit" where
  "log_cmd git args g =
     (case args of
        [p] \<Rightarrow>
          (case git_log git g p of
             None \<Rightarrow> (Some GitFailed, [])
           | Some cs \<Rightarrow> (None, concat (map (\<lambda>(h, m). take 8 h @ '' '' @ firstLine m @ newline) cs)))
      | _ \<Rightarrow> (Some CtlUsage, []))"

text \<open>The loop of \<open>diffCmd\<close>, with the calls the embedder has seen: the sections printed, up to the first
  analysis that fails.\<close>

fun diff_sections :: "embedder \<Rightarrow> (string \<Rightarrow> string) \<Rightarrow> (string \<Rightarrow> string) \<Rightarrow> string list \<Rightarrow> string list list \<Rightarrow> string \<Rightarrow> ctl_exit" where
  "diff_sections emb old new [] calls out = (None, out)"
| "diff_sections emb old new (p # ps) calls out =
     (if old p = new p then diff_sections emb old new ps calls out
      else case the (Analyze emb calls (splitLines (old p)) (splitLines (new p))) of
        (Inl er, st) \<Rightarrow> (Some (CtlDiff er), out)
      | (Inr res, st) \<Rightarrow>
          diff_sections emb old new ps (asked st)
            (out @ ''## '' @ p @ newline @ Format (map shown_result res) @ newline))"

text \<open>\<open>semdiff.EmbedderFromEnv\<close>: lexical without a URL.\<close>

definition EmbedderFromEnv :: "unicode \<Rightarrow> (string list list \<Rightarrow> http_request \<Rightarrow> http_answer) \<Rightarrow> (string \<Rightarrow> string) \<Rightarrow> embedder" where
  "EmbedderFromEnv uni post getenv =
     (let u = getenv ''PROMPTNET_EMBED_URL''
      in if u \<noteq> [] then HTTPEmbedder post u (getenv ''PROMPTNET_EMBED_MODEL'') (getenv ''PROMPTNET_EMBED_KEY'')
         else LexicalEmbedder uni 0)"

definition diff_cmd_ref :: "string list \<Rightarrow> string" where
  "diff_cmd_ref args = (case args of [] \<Rightarrow> ''HEAD'' | r # rs \<Rightarrow> r)"

definition diffCmd :: "'g git_ops \<Rightarrow> embedder \<Rightarrow> string list \<Rightarrow> walk \<Rightarrow> tree \<Rightarrow> 'g \<Rightarrow> ctl_exit" where
  "diffCmd git emb args walk disk g =
     (let ref = diff_cmd_ref args
      in case git_tree git g ref of
           None \<Rightarrow> (Some (UnknownRef ref), [])
         | Some t \<Rightarrow>
             let ps = promptUnion t walk disk
             in if list_all (\<lambda>p. blobContent t p = diskContent disk p) ps
                then (None, ''no prompt changes vs '' @ ref @ newline)
                else diff_sections emb (blobContent t) (diskContent disk) ps [] [])"

subsection \<open>promote\<close>

text \<open>The part of \<open>promote\<close> that changes the repository: check out, write, stage, commit.\<close>

definition promote_onto :: "'g git_ops \<Rightarrow> string \<Rightarrow> string \<Rightarrow> string \<Rightarrow> string \<Rightarrow> 'g \<times> tree \<Rightarrow> ctl_exit \<times> ('g \<times> tree)" where
  "promote_onto git path src dst content gd =
     (case git_checkout git dst gd of
        None \<Rightarrow> ((Some GitFailed, []), gd)
      | Some (g1, disk1) \<Rightarrow>
          (case os_write git path content disk1 of
             None \<Rightarrow> ((Some WriteFailed, []), (g1, disk1))
           | Some disk2 \<Rightarrow>
               (case git_add git path disk2 g1 of
                  None \<Rightarrow> ((Some GitFailed, []), (g1, disk2))
                | Some g2 \<Rightarrow>
                    (case git_commit git (''promote '' @ path @ '': '' @ src @ '' -> '' @ dst) (author git g2) g2 of
                       None \<Rightarrow> ((Some GitFailed, []), (g2, disk2))
                     | Some (h, g3) \<Rightarrow>
                         ((None, ''promoted '' @ path @ '' onto '' @ dst @ '' ('' @ take 12 h @ '')'' @ newline),
                          (g3, disk2))))))"

definition promote :: "'g git_ops \<Rightarrow> string \<Rightarrow> string \<Rightarrow> string \<Rightarrow> 'g \<times> tree \<Rightarrow> ctl_exit \<times> ('g \<times> tree)" where
  "promote git path src dst gd =
     (case git_tree git (fst gd) src of
        None \<Rightarrow> ((Some (UnknownRef src), []), gd)
      | Some t \<Rightarrow>
          let content = blobContent t path
          in if content = [] then ((Some NotOnBranch, []), gd)
             else case git_tree git (fst gd) dst of
               None \<Rightarrow> ((Some (UnknownRef dst), []), gd)
             | Some t' \<Rightarrow>
                 if content = blobContent t' path
                 then ((None, ''already up to date: '' @ path @ '' on '' @ dst @ '' matches '' @ src @ newline), gd)
                 else case validate_Prompt (pathToURI path) content (deriveSlots content) of
                   Some v \<Rightarrow> ((Some (InvalidPrompts [(path, v)]), []), gd)
                 | None \<Rightarrow> promote_onto git path src dst content gd)"

subsection \<open>Publishing and synchronizing\<close>

text \<open>One prompt after the other, up to the first that is invalid or refused.\<close>

fun publishToServer :: "'w rpc \<Rightarrow> string list option \<Rightarrow> tree \<Rightarrow> string list \<Rightarrow> string \<Rightarrow> 'w \<Rightarrow> ctl_exit \<times> 'w" where
  "publishToServer rpc auth disk [] out w = ((None, out), w)"
| "publishToServer rpc auth disk (p # ps) out w =
     (let t = diskContent disk p; slots = deriveSlots t; uri = pathToURI p
      in case validate_Prompt uri t slots of
           Some v \<Rightarrow> ((Some (InvalidPrompts [(p, v)]), out), w)
         | None \<Rightarrow>
             (case call rpc auth (PublishPromptRequest uri t slots [] [])
                (\<lambda>x. case x of
                   PublishPromptResponse h \<Rightarrow>
                     (case slice12 h of
                        None \<Rightarrow> (Some SlicePanic, [])
                      | Some h12 \<Rightarrow> (None, ''published '' @ uri @ '' ('' @ h12 @ '')'' @ newline))
                 | _ \<Rightarrow> (Some WrongAnswer, [])) w of
                ((Some er, _), w') \<Rightarrow> ((Some (CtlRpc er), out), w')
              | ((None, line), w') \<Rightarrow> publishToServer rpc auth disk ps (out @ line) w'))"

definition publish_paths :: "walk \<Rightarrow> tree \<Rightarrow> string list \<Rightarrow> string list" where
  "publish_paths walk disk args = (if args = [] then diskPromptFiles walk disk else args)"

definition publishCmd :: "'w rpc \<Rightarrow> string list option \<Rightarrow> string \<Rightarrow> string list \<Rightarrow> walk \<Rightarrow> tree \<Rightarrow> 'w
    \<Rightarrow> ctl_exit \<times> 'w" where
  "publishCmd rpc auth server args walk disk w =
     (if server = [] then ((Some CtlUsage, []), w)
      else publishToServer rpc auth disk (publish_paths walk disk args) [] w)"

datatype sync = AlreadyUpToDate | SyncFailed | Synced

definition reportSync :: "string \<Rightarrow> sync \<Rightarrow> ctl_exit" where
  "reportSync verb s =
     (case s of
        AlreadyUpToDate \<Rightarrow> (None, ''already up to date'' @ newline)
      | SyncFailed \<Rightarrow> (Some GitFailed, [])
      | Synced \<Rightarrow> (None, verb @ newline))"

definition pull :: "sync \<Rightarrow> ctl_exit" where
  "pull pulled = reportSync ''pulled'' pulled"

text \<open>\<open>pushed\<close> is how the push to the remote ended. The tree is walked twice: to validate it, and to
  publish it.\<close>

definition pushCmd :: "'w rpc \<Rightarrow> string list option \<Rightarrow> string \<Rightarrow> sync \<Rightarrow> walk \<Rightarrow> walk \<Rightarrow> tree \<Rightarrow> 'w \<Rightarrow> ctl_exit \<times> 'w" where
  "pushCmd rpc auth server pushed walk1 walk2 disk w =
     (case validateAll walk1 disk of
        Some er \<Rightarrow> ((Some er, []), w)
      | None \<Rightarrow>
          (case reportSync ''pushed'' pushed of
             (Some er, out) \<Rightarrow> ((Some er, out), w)
           | (None, out) \<Rightarrow>
               if server = [] then ((None, out), w)
               else publishToServer rpc auth disk (diskPromptFiles walk2 disk) out w))"

end
