(* ===== verification/PromptctlGit.thy ===== *)
theory PromptctlGit
  imports Promptctl
begin

text \<open>
  What the authoring commands rely on of the repository, as the locale \<open>git_repo\<close>: every repository has
  branches with their contents, a current branch and an index, and its operations change them as git
  documents it. \<open>plain_ref\<close> are the revisions that name a branch and nothing else; \<open>ignored\<close> are the paths
  that staging everything passes over: those below a directory \<open>.git\<close>, and those that the repository
  ignores. The commands' lemmas
  are proved over these laws; \<open>small_git\<close> is a repository of branches without history that has them.
\<close>

subsection \<open>The laws of a repository\<close>

locale git_repo =
  fixes git :: "'g git_ops"
    and branch :: "'g \<Rightarrow> string \<Rightarrow> (string \<Rightarrow> string option) option"
    and head :: "'g \<Rightarrow> string"
    and index :: "'g \<Rightarrow> string \<Rightarrow> string option"
    and plain_ref :: "'g \<Rightarrow> string \<Rightarrow> bool"
    and ignored :: "'g \<Rightarrow> tree \<Rightarrow> string \<Rightarrow> bool"
  assumes tree: "plain_ref g b \<Longrightarrow> map_option map_of (git_tree git g b) = branch g b"
    and checkout: "git_checkout git b (g, disk) = Some (g', disk') \<Longrightarrow>
      branch g' = branch g \<and> plain_ref g' = plain_ref g \<and> head g' = b \<and> branch g b = Some (index g') \<and> index g' \<subseteq>\<^sub>m map_of disk'"
    and writes_file: "os_write git p c disk = Some disk' \<Longrightarrow> map_of disk' = (map_of disk)(p \<mapsto> c)"
    and add: "git_add git p disk g = Some g' \<Longrightarrow>
      branch g' = branch g \<and> plain_ref g' = plain_ref g \<and> head g' = head g \<and> index g' = (index g)(p := map_of disk p)"
    and add_all: "git_add_all git disk g = Some g' \<Longrightarrow>
      branch g' = branch g \<and> plain_ref g' = plain_ref g \<and> head g' = head g
      \<and> index g' = (\<lambda>p. if ignored g disk p then index g p else map_of disk p)"
    and git_dirs: "in_git_dir p \<Longrightarrow> ignored g disk p"
    and commits: "git_commit git m a g = Some (h, g') \<Longrightarrow>
      branch g' = (branch g)(head g \<mapsto> index g) \<and> plain_ref g' = plain_ref g \<and> head g' = head g \<and> index g' = index g"
begin

lemma treeAt: "plain_ref g b \<Longrightarrow> git_tree git g b = Some t \<Longrightarrow> branch g b = Some (map_of t)"
  using tree by (metis option.map(2))

lemma tree_of_branch:
  assumes "plain_ref g b" and "branch g b = Some m"
  obtains t where "git_tree git g b = Some t" "map_of t = m"
  using tree [OF assms(1)] assms(2) by (cases "git_tree git g b") auto

lemma commit_cmd_effect:
  assumes "commit_cmd git msg walk disk g = ((er, out), g')"
  shows "if er = None then validateAll walk disk = None
      \<and> branch g' = (branch g)(head g \<mapsto> (\<lambda>p. if ignored g disk p then index g p else map_of disk p))
    else branch g' = branch g \<and> (validateAll walk disk \<noteq> None \<longrightarrow> g' = g)"
  using assms by (auto simp: commit_cmd_def split: if_splits option.splits dest!: add_all commits)

lemma promote_onto_effect:
  assumes "promote_onto git path src dst c (g, disk) = ((er, out), (g', disk'))"
  shows "if er = None
    then \<exists>td. branch g dst = Some td \<and> branch g' = (branch g)(dst \<mapsto> td(path \<mapsto> c)) \<and> plain_ref g' = plain_ref g
    else branch g' = branch g"
proof (cases "git_checkout git dst (g, disk)")
  case None
  with assms show ?thesis by (auto simp: promote_onto_def)
next
  case (Some x)
  obtain g1 disk1 where x: "git_checkout git dst (g, disk) = Some (g1, disk1)" using Some by (cases x) simp
  note c1 = checkout [OF x]
  show ?thesis
  proof (cases "os_write git path c disk1")
    case None
    with assms x c1 show ?thesis by (auto simp: promote_onto_def)
  next
    case w: (Some disk2)
    show ?thesis
    proof (cases "git_add git path disk2 g1")
      case None
      with assms x w c1 show ?thesis by (auto simp: promote_onto_def)
    next
      case a: (Some g2)
      note a1 = add [OF a] writes_file [OF w]
      show ?thesis
      proof (cases "git_commit git (''promote '' @ path @ '': '' @ src @ '' -> '' @ dst) (author git g2) g2")
        case None
        with assms x w a a1 c1 show ?thesis by (auto simp: promote_onto_def)
      next
        case m: (Some hg)
        obtain h g3 where hg: "hg = (h, g3)" by (cases hg)
        with assms x w a m have "er = None" "g' = g3" by (simp_all add: promote_onto_def)
        with commits [OF m [unfolded hg]] a1 c1 show ?thesis by simp
      qed
    qed
  qed
qed

text \<open>The ways a promotion ends: refused, nothing to do, or with the repository's part.\<close>

lemma promote_cases:
  assumes "promote git path src dst (g, disk) = ((er, out), (g', disk'))"
  obtains (refused) x where "er = Some x" "g' = g" "disk' = disk"
    | (same) t t' where "er = None" "g' = g" "disk' = disk" "git_tree git g src = Some t" "git_tree git g dst = Some t'"
        "blobContent t path \<noteq> []" "blobContent t' path = blobContent t path"
    | (went_on) t where "git_tree git g src = Some t" "blobContent t path \<noteq> []"
        "validate_Prompt (pathToURI path) (blobContent t path) (deriveSlots (blobContent t path)) = None"
        "promote_onto git path src dst (blobContent t path) (g, disk) = ((er, out), (g', disk'))"
proof (cases "git_tree git g src")
  case None
  with assms that(1) show thesis by (auto simp: promote_def)
next
  case t: (Some t)
  show thesis
  proof (cases "git_tree git g dst")
    case None
    with assms t that(1) show thesis by (auto simp: promote_def Let_def split: if_splits)
  next
    case t': (Some t')
    show thesis
    proof (cases "blobContent t path = [] \<or> blobContent t path = blobContent t' path")
      case True
      with assms t t' that(1,2) show thesis by (cases "blobContent t path = []") (auto simp: promote_def)
    next
      case False
      with assms t t' that(1,3) show thesis
        by (cases "validate_Prompt (pathToURI path) (blobContent t path) (deriveSlots (blobContent t path))")
          (auto simp: promote_def)
    qed
  qed
qed

lemma blobContent_Some: "blobContent t p \<noteq> [] \<Longrightarrow> map_of t p = Some (blobContent t p)"
  by (auto simp: blobContent_def split: option.splits)

lemma promote_effect:
  assumes "plain_ref g src" and "plain_ref g dst"
    and "promote git path src dst (g, disk) = ((er, out), (g', disk'))"
  shows "if er = None
    then \<exists>ts td c. branch g src = Some ts \<and> branch g dst = Some td \<and> ts path = Some c
      \<and> branch g' = (branch g)(dst \<mapsto> td(path \<mapsto> c)) \<and> (td path = Some c \<or> \<not> blank c)
      \<and> promote git path src dst (g', disk')
        = ((None, ''already up to date: '' @ path @ '' on '' @ dst @ '' matches '' @ src @ newline), (g', disk'))
    else branch g' = branch g"
  using assms(3)
proof (cases rule: promote_cases)
  case (refused x)
  then show ?thesis by (simp only: refused option.simps if_False)
next
  case (same t t')
  note b = treeAt [OF assms(1) same(4)] treeAt [OF assms(2) same(5)]
  have c: "map_of t path = Some (blobContent t path)" "map_of t' path = Some (blobContent t path)"
    using same(6,7) blobContent_Some by metis+
  then have "(map_of t')(path \<mapsto> blobContent t path) = map_of t'" using fun_upd_idem_iff c(2) by metis
  then have "branch g' = (branch g)(dst \<mapsto> (map_of t')(path \<mapsto> blobContent t path))" using b(2) same(2) by auto
  moreover have "promote git path src dst (g', disk')
      = ((None, ''already up to date: '' @ path @ '' on '' @ dst @ '' matches '' @ src @ newline), (g', disk'))"
    using same by (simp add: promote_def)
  ultimately show ?thesis unfolding if_P [OF same(1)] using b c by blast
next
  case (went_on t)
  note b = treeAt [OF assms(1) went_on(1)]
  let ?c = "blobContent t path"
  have c: "map_of t path = Some ?c" using went_on(2) by (rule blobContent_Some)
  have nb: "\<not> blank ?c" using went_on(3) by (auto simp: validate_None_iff well_formed_def)
  note on = promote_onto_effect [OF went_on(4)]
  show ?thesis
  proof (cases "er = None")
    case True
    with on obtain td where td: "branch g dst = Some td" "branch g' = (branch g)(dst \<mapsto> td(path \<mapsto> ?c))" "plain_ref g' = plain_ref g"
      by auto
    have b': "branch g' src = Some (if src = dst then td(path \<mapsto> ?c) else map_of t)" "branch g' dst = Some (td(path \<mapsto> ?c))"
      using td(2) b by simp_all
    have pl: "plain_ref g' src" "plain_ref g' dst" using assms(1,2) td(3) by simp_all
    obtain u where u: "git_tree git g' src = Some u" "map_of u = (if src = dst then td(path \<mapsto> ?c) else map_of t)"
      using tree_of_branch [OF pl(1) b'(1)] .
    obtain u' where u': "git_tree git g' dst = Some u'" "map_of u' = td(path \<mapsto> ?c)"
      using tree_of_branch [OF pl(2) b'(2)] .
    have is_c: "map_of m path = Some x \<Longrightarrow> blobContent m path = x" for m x by (simp add: blobContent_def)
    have "map_of u path = Some ?c" "map_of u' path = Some ?c" using c by (simp_all add: u(2) u'(2))
    then have "blobContent u path = ?c" "blobContent u' path = ?c" using is_c by blast+
    then have again: "promote git path src dst (g', disk')
        = ((None, ''already up to date: '' @ path @ '' on '' @ dst @ '' matches '' @ src @ newline), (g', disk'))"
      using u(1) u'(1) went_on(2) by (simp add: promote_def)
    show ?thesis
      unfolding if_P [OF True] by (intro exI conjI, fact b, fact td(1), fact c, fact td(2), rule disjI2, fact nb, fact again)
  next
    case False
    then show ?thesis using on by (simp only: if_False)
  qed
qed

end

subsection \<open>A repository\<close>

text \<open>Branches that keep their last tree, a current branch and an index. A file named in a line of
  \<open>.gitignore\<close> is ignored until it is tracked. Untracked files survive a checkout; a commit that changes nothing is refused; a file is only written into a directory that is
  there, which is one with a file in it.\<close>

record repo =
  r_branches :: "(string \<times> tree) list"
  r_head :: string
  r_index :: tree

definition dir_of :: "string \<Rightarrow> string list" where
  "dir_of p = butlast (SplitByte p (CHR ''/''))"

definition r_ignored :: "repo \<Rightarrow> tree \<Rightarrow> string \<Rightarrow> bool" where
  "r_ignored g disk p \<longleftrightarrow> in_git_dir p
     \<or> map_of (r_index g) p = None \<and> p \<in> set (SplitByte (diskContent disk ''.gitignore'') (CHR 0x0A))"

definition small_git :: "repo git_ops" where
  "small_git =
     \<lparr>git_tree = \<lambda>g r. map_of (r_branches g) (if r = ''HEAD'' then r_head g else r),
      git_checkout = \<lambda>b (g, disk).
        (case map_of (r_branches g) b of
           None \<Rightarrow> None
         | Some t \<Rightarrow> Some (g\<lparr>r_head := b, r_index := t\<rparr>,
             t @ filter (\<lambda>(p, c). map_of (r_index g) p = None) disk)),
      git_add_all = \<lambda>disk g. Some (g\<lparr>r_index :=
        filter (\<lambda>(p, c). \<not> r_ignored g disk p) disk @ filter (\<lambda>(p, c). r_ignored g disk p) (r_index g)\<rparr>),
      git_add = \<lambda>p disk g. map_option (\<lambda>c. g\<lparr>r_index := AList.update p c (r_index g)\<rparr>) (map_of disk p),
      git_commit = \<lambda>m a g.
        (if map_of (r_branches g) (r_head g) = Some (r_index g) then None
         else Some (replicate 40 (CHR ''0''), g\<lparr>r_branches := AList.update (r_head g) (r_index g) (r_branches g)\<rparr>)),
      git_log = \<lambda>g p. None,
      git_config = \<lambda>g. [],
      git_origin = \<lambda>g. None,
      os_write = \<lambda>p c disk.
        (if dir_of p = [] \<or> list_ex (\<lambda>(q, _). take (length (dir_of p)) (dir_of q) = dir_of p) disk
         then Some (AList.update p c disk) else None)\<rparr>"

definition r_branch :: "repo \<Rightarrow> string \<Rightarrow> (string \<Rightarrow> string option) option" where
  "r_branch g b = map_option map_of (map_of (r_branches g) b)"

lemma map_of_chosen:
  "map_of (filter (\<lambda>(p, c). \<not> P p) xs @ filter (\<lambda>(p, c). P p) ys) = (\<lambda>p. if P p then map_of ys p else map_of xs p)"
proof -
  have "map_of (filter (\<lambda>(p, c). Q p) zs) p = (if Q p then map_of zs p else None)" for Q and zs :: "('a \<times> 'b) list" and p
    by (induction zs) auto
  from this [of "\<lambda>p. \<not> P p"] this [of P] show ?thesis
    by (auto simp: fun_eq_iff map_add_def split: option.splits)
qed

interpretation small: git_repo small_git r_branch r_head "\<lambda>g. map_of (r_index g)" "\<lambda>g b. b \<noteq> ''HEAD''" r_ignored
proof
  fix g g' :: repo and b disk disk'
  assume "git_checkout small_git b (g, disk) = Some (g', disk')"
  then show "r_branch g' = r_branch g \<and> (\<lambda>b. b \<noteq> ''HEAD'') = (\<lambda>b. b \<noteq> ''HEAD'') \<and> r_head g' = b
      \<and> r_branch g b = Some (map_of (r_index g')) \<and> map_of (r_index g') \<subseteq>\<^sub>m map_of disk'"
    by (auto simp: small_git_def r_branch_def fun_eq_iff map_le_def split: option.splits)
next
  fix g g' :: repo and disk
  assume "git_add_all small_git disk g = Some g'"
  then show "r_branch g' = r_branch g \<and> (\<lambda>b. b \<noteq> ''HEAD'') = (\<lambda>b. b \<noteq> ''HEAD'') \<and> r_head g' = r_head g
      \<and> map_of (r_index g') = (\<lambda>p. if r_ignored g disk p then map_of (r_index g) p else map_of disk p)"
    unfolding small_git_def r_branch_def by (auto simp del: map_of_append simp add: map_of_chosen)
qed (auto simp: small_git_def r_branch_def r_ignored_def fun_eq_iff split: if_splits)

end
