(* ===== verification/PromptctlProps.thy ===== *)
theory PromptctlProps
  imports PromptctlGit "HOL-Library.Sublist"
begin

text \<open>
  What the authoring commands promise: the slots derived from a template are those the server
  accepts, a promotion copies one prompt onto one branch, a commit holds valid prompts only, a diff
  reports every prompt that changed, and publishing a working tree makes the server serve it.
\<close>

subsection \<open>Derived slots\<close>

lemma derive_set: "set (derive seen ms) = set ms - set seen"
  by (induction seen ms rule: derive.induct) auto

lemma derive_distinct: "distinct (derive seen ms)"
  by (induction seen ms rule: derive.induct) (auto simp: derive_set)

lemma derive_subseq: "subseq (derive seen ms) ms"
  by (induction seen ms rule: derive.induct) auto

lemma set_deriveSlots: "set (deriveSlots t) = {w. slot_name w \<and> occurs_in w t}"
  by (simp add: deriveSlots_def derive_set set_placeholders)

text \<open>Trimming keeps a byte that is in no white-space rune, so the URI of a path is never blank.\<close>

lemma trim_left_keeps:
  "c \<in> set s \<Longrightarrow> \<forall>w \<in> set ws. c \<notin> set w \<Longrightarrow> c \<in> set (trim_left ws s)"
proof (induction ws s rule: trim_left.induct)
  case (1 ws s)
  show ?case
  proof (cases "space_len ws s = 0")
    case True
    with 1(2) show ?thesis by (subst trim_left.simps) (simp add: Let_def)
  next
    case False
    then obtain w where w: "w \<in> set ws" "HasPrefix s w" "space_len ws s = length w"
      by (auto simp: space_len_def dest: find_Some_in split: option.splits)
    then obtain r where "s = w @ r" by (auto simp: HasPrefix_iff)
    with 1(2,3) w have "c \<in> set (drop (space_len ws s) s)" by auto
    with 1(1) [OF refl False] 1(3) False show ?thesis by (subst trim_left.simps) (simp add: Let_def)
  qed
qed

lemma not_blank_if: "c \<in> set s \<Longrightarrow> \<forall>w \<in> set space_runes. c \<notin> set w \<Longrightarrow> \<not> blank s"
  using trim_left_keeps [of c "rev (trim_left space_runes s)" "map rev space_runes"]
    trim_left_keeps [of c s space_runes]
  by (auto simp: TrimSpace_def)

lemma pathToURI_not_blank: "\<not> blank (pathToURI p)"
  by (rule not_blank_if [of "CHR ''p''"]) (simp_all add: pathToURI_def space_runes_def)

lemma validate_derived:
  "validate_Prompt (pathToURI p) t (deriveSlots t) = (if blank t then Some TemplateEmpty else None)"
proof (cases "blank t")
  case True
  then show ?thesis by (simp add: validate_Prompt_def pathToURI_not_blank)
next
  case False
  then have "well_formed (pathToURI p) t (deriveSlots t)"
    by (simp add: well_formed_def pathToURI_not_blank set_deriveSlots)
  with False show ?thesis by (simp add: validate_None_iff)
qed

text \<open>The slots read off a template are exactly the ones the server's validation demands, each
  once and in the order of their first placeholders, so a prompt file is rejected only for being
  blank, whatever its path.\<close>

theorem derived_slots_always_match:
  "validate_Prompt (pathToURI p) t (deriveSlots t) = (if blank t then Some TemplateEmpty else None)
    \<and> distinct (deriveSlots t) \<and> subseq (deriveSlots t) (placeholders t)
    \<and> set (deriveSlots t) = set (placeholders t)"
  unfolding validate_derived by (simp add: deriveSlots_def derive_set derive_distinct derive_subseq)

subsection \<open>Promotion\<close>

text \<open>C27: promoting a prompt that succeeds puts the content it has on the source branch onto the
  target branch and changes nothing else: every other file of the target and every other branch stay;
  promoting it again then reports that there is nothing to do. A promotion that fails leaves every branch
  as it was. A blank prompt is not carried over.\<close>

theorem promote_copies_content:
  assumes "git_repo git branch head index plain_ref ignored" and "plain_ref g src" and "plain_ref g dst"
    and "promote git path src dst (g, disk) = ((er, out), (g', disk'))"
  shows "if er = None
    then \<exists>ts td c. branch g src = Some ts \<and> branch g dst = Some td \<and> ts path = Some c
      \<and> branch g' = (branch g)(dst \<mapsto> td(path \<mapsto> c)) \<and> (td path = Some c \<or> \<not> blank c)
      \<and> promote git path src dst (g', disk')
        = ((None, ''already up to date: '' @ path @ '' on '' @ dst @ '' matches '' @ src @ newline), (g', disk'))
    else branch g' = branch g"
  using assms by (rule git_repo.promote_effect)

definition demo_repo :: repo where
  "demo_repo = \<lparr>r_branches = [(''dev'', [(''a.prompt'', ''Hi {n}''), (''new/b.prompt'', ''Hello'')]), (''main'', [(''a.prompt'', ''Hi'')])],
     r_head = ''dev'', r_index = [(''a.prompt'', ''Hi {n}''), (''new/b.prompt'', ''Hello'')]\<rparr>"

lemma demo_promote:
  "promote small_git ''a.prompt'' ''dev'' ''main'' (demo_repo, r_index demo_repo)
    = ((None, ''promoted a.prompt onto main (000000000000)'' @ newline),
       (demo_repo\<lparr>r_branches := [(''dev'', [(''a.prompt'', ''Hi {n}''), (''new/b.prompt'', ''Hello'')]), (''main'', [(''a.prompt'', ''Hi {n}'')])],
          r_head := ''main'', r_index := [(''a.prompt'', ''Hi {n}'')]\<rparr>, [(''a.prompt'', ''Hi {n}'')]))"
  by code_simp

theorem promote_copies_content_witness:
  "\<exists>g' d' ts td c. promote small_git ''a.prompt'' ''dev'' ''main'' (demo_repo, r_index demo_repo)
      = ((None, ''promoted a.prompt onto main (000000000000)'' @ newline), (g', d'))
    \<and> ts ''a.prompt'' = Some c \<and> r_branch g' = (r_branch demo_repo)(''main'' \<mapsto> td(''a.prompt'' \<mapsto> c))"
proof -
  have "''dev'' \<noteq> ''HEAD''" "''main'' \<noteq> ''HEAD''" by simp_all
  from promote_copies_content [OF small.git_repo_axioms this demo_promote] demo_promote show ?thesis
    unfolding if_P [OF refl] by blast
qed

text \<open>The first prompt of a directory cannot be promoted to a branch that lacks the directory: the file is
  written without creating it, and the repository is left on the target branch.\<close>

theorem promote_needs_the_directory:
  "promote small_git ''new/b.prompt'' ''dev'' ''main'' (demo_repo, r_index demo_repo)
    = ((Some WriteFailed, []), (demo_repo\<lparr>r_head := ''main'', r_index := [(''a.prompt'', ''Hi'')]\<rparr>, [(''a.prompt'', ''Hi'')]))"
  by code_simp

subsection \<open>Commits\<close>

lemma set_diskPromptFiles:
  "set (diskPromptFiles walk disk) = {p. p \<in> fst ` set (visited walk disk) \<and> HasSuffix p ''.prompt'' \<and> \<not> in_git_dir p}"
  by (auto simp: diskPromptFiles_def)

lemma map_of_visited: "p \<in> fst ` set (visited walk disk) \<Longrightarrow> map_of (visited walk disk) p = map_of disk p"
proof (cases walk)
  case (Some n)
  assume "p \<in> fst ` set (visited walk disk)"
  with Some have "map_of (take n disk) p \<noteq> None" by (simp add: visited_def map_of_eq_None_iff)
  then obtain c where c: "map_of (take n disk) p = Some c" by blast
  have "map_of disk p = (map_of (drop n disk) ++ map_of (take n disk)) p"
    unfolding map_of_append [symmetric] append_take_drop_id ..
  also have "\<dots> = Some c" using c by (rule map_add_find_right)
  finally show ?thesis using c Some by (simp add: visited_def)
qed (simp add: visited_def)

lemma diskContent_visited: "map_of (visited walk disk) p = Some c \<Longrightarrow> diskContent disk p = c"
proof -
  assume c: "map_of (visited walk disk) p = Some c"
  then have "p \<in> fst ` set (visited walk disk)" by (metis map_of_eq_None_iff option.distinct(1))
  from map_of_visited [OF this] have "map_of disk p = Some c" unfolding c by simp
  then show "diskContent disk p = c" by (simp add: diskContent_def)
qed

lemma validateAll_None: "validateAll walk disk = None \<longleftrightarrow>
    (\<forall>p \<in> set (diskPromptFiles walk disk).
       validate_Prompt (pathToURI p) (diskContent disk p) (deriveSlots (diskContent disk p)) = None)"
proof -
  have "List.map_filter f xs = [] \<longleftrightarrow> (\<forall>x \<in> set xs. f x = None)" for f :: "string \<Rightarrow> (string \<times> verr) option" and xs
    by (induction xs) (auto simp: List.map_filter_simps split: option.splits)
  then show ?thesis by (simp add: validateAll_def invalid_prompts_def Let_def)
qed

text \<open>Every prompt file of a tree is valid with the slots of its text.\<close>

definition prompts_valid :: "tree \<Rightarrow> bool" where
  "prompts_valid disk \<longleftrightarrow> (\<forall>p c. map_of disk p = Some c \<and> HasSuffix p ''.prompt'' \<and> \<not> in_git_dir p
     \<longrightarrow> validate_Prompt (pathToURI p) c (deriveSlots c) = None)"

lemma validateAll_iff: "validateAll walk disk = None \<longleftrightarrow> prompts_valid (visited walk disk)"
  unfolding validateAll_None set_diskPromptFiles prompts_valid_def
proof (intro iffI allI impI ballI)
  fix p assume "p \<in> {p. p \<in> fst ` set (visited walk disk) \<and> HasSuffix p ''.prompt'' \<and> \<not> in_git_dir p}"
    and ok: "\<forall>p c. map_of (visited walk disk) p = Some c \<and> HasSuffix p ''.prompt'' \<and> \<not> in_git_dir p
      \<longrightarrow> validate_Prompt (pathToURI p) c (deriveSlots c) = None"
  then have p: "p \<in> fst ` set (visited walk disk)" "HasSuffix p ''.prompt''" "\<not> in_git_dir p" by simp_all
  then obtain c where c: "map_of (visited walk disk) p = Some c" by (metis map_of_eq_None_iff not_None_eq)
  from ok p c diskContent_visited [OF c]
  show "validate_Prompt (pathToURI p) (diskContent disk p) (deriveSlots (diskContent disk p)) = None" by simp
next
  fix p c
  assume ok: "\<forall>p \<in> {p. p \<in> fst ` set (visited walk disk) \<and> HasSuffix p ''.prompt'' \<and> \<not> in_git_dir p}.
      validate_Prompt (pathToURI p) (diskContent disk p) (deriveSlots (diskContent disk p)) = None"
    and p: "map_of (visited walk disk) p = Some c \<and> HasSuffix p ''.prompt'' \<and> \<not> in_git_dir p"
  have "map_of (visited walk disk) p \<noteq> None" using p by simp
  then have "p \<in> fst ` set (visited walk disk)" unfolding map_of_eq_None_iff by simp
  then have "p \<in> {p. p \<in> fst ` set (visited walk disk) \<and> HasSuffix p ''.prompt'' \<and> \<not> in_git_dir p}" using p by simp
  with ok have "validate_Prompt (pathToURI p) (diskContent disk p) (deriveSlots (diskContent disk p)) = None" by (rule bspec)
  with diskContent_visited [of walk disk p c] p show "validate_Prompt (pathToURI p) c (deriveSlots c) = None" by simp
qed

text \<open>A walk that meets no error sees the whole tree.\<close>

lemma visited_all [simp]: "visited None disk = disk"
  by (simp add: visited_def)

text \<open>C28: a commit holds valid prompts only. If it succeeds, the current branch holds the files of the
  working tree, except that a path that git ignores keeps what was staged for it, and no other branch
  moves. Every prompt file that the walk visited passed validation with the slots of its text; so if
  the walk met no error, every prompt file of the commit is valid, but for an ignored one that had
  been staged before. If a prompt that was visited is invalid nothing is touched, and if git fails no
  branch moves.\<close>

theorem commits_hold_valid_prompts:
  assumes "git_repo git branch head index plain_ref ignored" and "commit_cmd git msg walk disk g = ((er, out), g')"
  shows "if er = None
    then (\<exists>m. branch g' = (branch g)(head g \<mapsto> m)
        \<and> (\<forall>p. m p = (if ignored g disk p then index g p else map_of disk p))
        \<and> (\<forall>p c. walk = None \<and> m p = Some c \<and> HasSuffix p ''.prompt'' \<and> \<not> in_git_dir p
             \<and> (ignored g disk p \<longrightarrow> index g p = None)
             \<longrightarrow> validate_Prompt (pathToURI p) c (deriveSlots c) = None))
      \<and> (\<forall>p c. map_of (visited walk disk) p = Some c \<and> HasSuffix p ''.prompt'' \<and> \<not> in_git_dir p
           \<longrightarrow> validate_Prompt (pathToURI p) c (deriveSlots c) = None)
    else branch g' = branch g \<and> (\<not> prompts_valid (visited walk disk) \<longrightarrow> g' = g)"
proof (cases "er = None")
  case True
  note eff = git_repo.commit_cmd_effect [OF assms, unfolded if_P [OF True] validateAll_iff]
  have valid: "\<forall>p c. map_of (visited walk disk) p = Some c \<and> HasSuffix p ''.prompt'' \<and> \<not> in_git_dir p
      \<longrightarrow> validate_Prompt (pathToURI p) c (deriveSlots c) = None"
    using eff unfolding prompts_valid_def by (rule conjunct1)
  show ?thesis
    unfolding if_P [OF True]
  proof (intro conjI exI [of _ "\<lambda>p. if ignored g disk p then index g p else map_of disk p"], rule conjunct2 [OF eff])
    show "\<forall>p c. walk = None \<and> (if ignored g disk p then index g p else map_of disk p) = Some c
        \<and> HasSuffix p ''.prompt'' \<and> \<not> in_git_dir p \<and> (ignored g disk p \<longrightarrow> index g p = None)
        \<longrightarrow> validate_Prompt (pathToURI p) c (deriveSlots c) = None"
    proof (intro allI impI, elim conjE)
      fix p c
      assume w: "walk = None" and m: "(if ignored g disk p then index g p else map_of disk p) = Some c"
        and p: "HasSuffix p ''.prompt''" "\<not> in_git_dir p" and i: "ignored g disk p \<longrightarrow> index g p = None"
      have "map_of (visited walk disk) p = Some c" using m i by (cases "ignored g disk p") (simp_all add: w)
      with valid p show "validate_Prompt (pathToURI p) c (deriveSlots c) = None" by (simp only: simp_thms)
    qed
  qed (simp, rule valid)
next
  case False
  from git_repo.commit_cmd_effect [OF assms] show ?thesis
    unfolding if_not_P [OF False] validateAll_iff .
qed

definition demo_work :: tree where
  "demo_work = [(''.gitignore'', ''old.prompt''), (''a.prompt'', ''Hi {m}'')]"

definition demo_committed :: repo where
  "demo_committed = demo_repo\<lparr>r_branches := [(''dev'', demo_work), (''main'', [(''a.prompt'', ''Hi'')])], r_index := demo_work\<rparr>"

theorem commits_hold_valid_prompts_witness:
  "commit_cmd small_git ''shorter'' None demo_work demo_repo = ((None, ''committed 000000000000'' @ newline), demo_committed)
    \<and> map_option (\<lambda>m. m ''a.prompt'') (r_branch demo_committed ''dev'') = Some (Some ''Hi {m}'')
    \<and> validate_Prompt ''promptnet://a'' ''Hi {m}'' [''m''] = None"
proof -
  have g': "commit_cmd small_git ''shorter'' None demo_work demo_repo = ((None, ''committed 000000000000'' @ newline), demo_committed)"
    by code_simp
  have p: "map_of (visited None demo_work) ''a.prompt'' = Some ''Hi {m}'' \<and> HasSuffix ''a.prompt'' ''.prompt'' \<and> \<not> in_git_dir ''a.prompt''"
    and s: "deriveSlots ''Hi {m}'' = [''m'']" "pathToURI ''a.prompt'' = ''promptnet://a''"
    and b: "map_option (\<lambda>m. m ''a.prompt'') (r_branch demo_committed ''dev'') = Some (Some ''Hi {m}'')"
    by code_simp+
  from commits_hold_valid_prompts [OF small.git_repo_axioms g'] p
  have "validate_Prompt (pathToURI ''a.prompt'') ''Hi {m}'' (deriveSlots ''Hi {m}'') = None"
    unfolding if_P [OF refl] by blast
  with g' b s show ?thesis by simp
qed

text \<open>Since the error of the walk is not looked at, a prompt behind a directory that cannot be read is
  committed without having been validated.\<close>

lemma partial_walk_commits_invalid:
  "commit_cmd small_git ''blank'' (Some 0) [(''a.prompt'', '' '')] demo_repo
     = ((None, ''committed 000000000000'' @ newline),
        demo_repo\<lparr>r_branches := [(''dev'', [(''a.prompt'', '' '')]), (''main'', [(''a.prompt'', ''Hi'')])], r_index := [(''a.prompt'', '' '')]\<rparr>)
   \<and> validateAll None [(''a.prompt'', '' '')] = Some (InvalidPrompts [(''a.prompt'', TemplateEmpty)])"
  by (rule conjI) code_simp+

subsection \<open>Differences\<close>

text \<open>What \<open>diffCmd\<close> prints of a prompt.\<close>

definition section_of :: "string \<Rightarrow> result list \<Rightarrow> string" where
  "section_of p rs = ''## '' @ p @ newline @ Format (map shown_result rs) @ newline"

lemma diff_sections_reports:
  assumes "diff_sections emb old new ps calls out = (None, out')"
  shows "\<exists>rss. list_all2 (\<lambda>p rs. map Hunk rs = LineDiff.changes (splitLines (old p)) (splitLines (new p)))
      (filter (\<lambda>p. old p \<noteq> new p) ps) rss
    \<and> out' = out @ concat (map2 section_of (filter (\<lambda>p. old p \<noteq> new p) ps) rss)"
  using assms
proof (induction ps arbitrary: calls out)
  case (Cons p ps)
  show ?case
  proof (cases "old p = new p")
    case True
    with Cons show ?thesis by simp
  next
    case False
    obtain x st where a: "Analyze emb calls (splitLines (old p)) (splitLines (new p)) = Some (x, st)"
      using Analyze_returns by blast
    with False Cons.prems obtain rs where x: "x = Inr rs"
      and rest: "diff_sections emb old new ps (asked st) (out @ section_of p rs) = (None, out')"
      by (auto simp: section_of_def split: sum.splits)
    from Cons.IH [OF rest] obtain rss where
      "list_all2 (\<lambda>p rs. map Hunk rs = LineDiff.changes (splitLines (old p)) (splitLines (new p)))
        (filter (\<lambda>p. old p \<noteq> new p) ps) rss"
      "out' = (out @ section_of p rs) @ concat (map2 section_of (filter (\<lambda>p. old p \<noteq> new p) ps) rss)" by blast
    moreover have "map Hunk rs = LineDiff.changes (splitLines (old p)) (splitLines (new p))"
      using Analyze_ok a x by blast
    ultimately show ?thesis using False by (intro exI [of _ "rs # rss"]) simp
  qed
qed simp

lemma set_promptUnion:
  "set (promptUnion t walk disk) =
     {p. HasSuffix p ''.prompt'' \<and> (p \<in> fst ` set t \<or> p \<in> fst ` set (visited walk disk) \<and> \<not> in_git_dir p)}"
  unfolding promptUnion_def set_sort set_remdups set_append set_diskPromptFiles by auto

text \<open>C31: a diff that succeeds reports every prompt file, in the revision or in the working tree as far as
  it is walked (all of it if the walk meets no error), whose content differs, and no other: one section
  each, in the order of their paths, with the hunks of its line diff; if none differs it says so.\<close>

theorem diff_reports_every_change:
  assumes "git_tree git g (diff_cmd_ref args) = Some t" and "diffCmd git emb args walk disk g = (None, out)"
  shows "\<exists>ps rss. sorted ps \<and> distinct ps
    \<and> set ps = {p. HasSuffix p ''.prompt'' \<and> (p \<in> fst ` set t \<or> p \<in> fst ` set (visited walk disk) \<and> \<not> in_git_dir p)
                  \<and> blobContent t p \<noteq> diskContent disk p}
    \<and> list_all2 (\<lambda>p rs. map Hunk rs = LineDiff.changes (splitLines (blobContent t p)) (splitLines (diskContent disk p))) ps rss
    \<and> out = (if ps = [] then ''no prompt changes vs '' @ diff_cmd_ref args @ newline
             else concat (map2 section_of ps rss))"
proof -
  let ?differs = "\<lambda>p. blobContent t p \<noteq> diskContent disk p"
  define ps where "ps = filter ?differs (promptUnion t walk disk)"
  have ps: "sorted ps" "distinct ps"
    unfolding ps_def promptUnion_def by (simp_all add: sorted_filter [where f = "\<lambda>x. x", simplified])
  have set: "set ps = {p. HasSuffix p ''.prompt'' \<and> (p \<in> fst ` set t \<or> p \<in> fst ` set (visited walk disk) \<and> \<not> in_git_dir p) \<and> ?differs p}"
    unfolding ps_def set_filter set_promptUnion by auto
  have "\<exists>rss. list_all2 (\<lambda>p rs. map Hunk rs = LineDiff.changes (splitLines (blobContent t p)) (splitLines (diskContent disk p))) ps rss
      \<and> out = (if ps = [] then ''no prompt changes vs '' @ diff_cmd_ref args @ newline else concat (map2 section_of ps rss))"
  proof (cases "ps = []")
    case True
    then have "list_all (\<lambda>p. blobContent t p = diskContent disk p) (promptUnion t walk disk)"
      by (simp add: ps_def filter_empty_conv list_all_iff)
    with assms True show ?thesis by (simp add: diffCmd_def)
  next
    case False
    then have "\<not> list_all (\<lambda>p. blobContent t p = diskContent disk p) (promptUnion t walk disk)"
      by (simp add: ps_def filter_empty_conv list_all_iff)
    with assms have "diff_sections emb (blobContent t) (diskContent disk) (promptUnion t walk disk) [] [] = (None, out)"
      by (simp add: diffCmd_def)
    from diff_sections_reports [OF this] False show ?thesis unfolding ps_def by simp
  qed
  with ps set show ?thesis by blast
qed

theorem diff_reports_every_change_witness:
  "\<exists>out. diffCmd small_git (LexicalEmbedder demo_unicode 0) [] None [(''a.prompt'', ''Hi {n}'')] demo_repo = (None, out)
    \<and> (\<exists>rs. map Hunk rs = LineDiff.changes [''Hello''] [[]] \<and> out = section_of ''new/b.prompt'' rs)"
proof -
  let ?emb = "LexicalEmbedder demo_unicode 0" and ?disk = "[(''a.prompt'', ''Hi {n}'')]"
  let ?t = "[(''a.prompt'', ''Hi {n}''), (''new/b.prompt'', ''Hello'')]"
  obtain rs st where a: "Analyze ?emb [] [''Hello''] [[]] = Some (Inr rs, st)"
    using analyze_all_total [OF lexical_total] unfolding Analyze_def by blast
  have lines: "splitLines ''Hello'' = [''Hello'']" "splitLines [] = [[]]"
    by (simp_all add: splitLines_def crlf_def HasPrefix_def)
  have t: "git_tree small_git demo_repo (diff_cmd_ref []) = Some ?t" and u: "promptUnion ?t None ?disk = [''a.prompt'', ''new/b.prompt'']"
    and c: "blobContent ?t ''a.prompt'' = ''Hi {n}''" "diskContent ?disk ''a.prompt'' = ''Hi {n}''"
      "blobContent ?t ''new/b.prompt'' = ''Hello''" "diskContent ?disk ''new/b.prompt'' = []"
    by code_simp+
  have d: "diffCmd small_git ?emb [] None ?disk demo_repo = (None, section_of ''new/b.prompt'' rs)"
    using a by (simp add: diffCmd_def t u c lines section_of_def)
  from diff_reports_every_change [OF t d] obtain ps rss where p: "sorted ps" "distinct ps"
    "set ps = {p. HasSuffix p ''.prompt'' \<and> (p \<in> fst ` set ?t \<or> p \<in> fst ` set (visited None ?disk) \<and> \<not> in_git_dir p)
       \<and> blobContent ?t p \<noteq> diskContent ?disk p}"
    "list_all2 (\<lambda>p rs. map Hunk rs = LineDiff.changes (splitLines (blobContent ?t p)) (splitLines (diskContent ?disk p))) ps rss"
    "section_of ''new/b.prompt'' rs = (if ps = [] then ''no prompt changes vs '' @ diff_cmd_ref [] @ newline else concat (map2 section_of ps rss))"
    by (elim exE conjE)
  have one: "distinct xs \<Longrightarrow> set xs = {x} \<Longrightarrow> xs = [x]" for xs :: "string list" and x
    by (cases xs; cases "tl xs") auto
  have "set ps = {''new/b.prompt''}" unfolding p(3) set_promptUnion [symmetric]
    by (auto simp: blobContent_def diskContent_def HasSuffix_def HasPrefix_def split: if_splits)
  from one [OF p(2) this] have ps: "ps = [''new/b.prompt'']" .
  from p(4) [unfolded ps] obtain rs' where rss: "rss = [rs']"
    and h: "map Hunk rs' = LineDiff.changes (splitLines (blobContent ?t ''new/b.prompt'')) (splitLines (diskContent ?disk ''new/b.prompt''))"
    by (auto simp only: list_all2_Cons1 list_all2_Nil)
  from p(5) [unfolded ps rss] have "section_of ''new/b.prompt'' rs = section_of ''new/b.prompt'' rs'" by simp
  with d h [unfolded c lines] show ?thesis by metis
qed

end
