(* ===== verification/PromptctlPublish.thy ===== *)
theory PromptctlPublish
  imports PromptctlProps Serve
begin

text \<open>
  Publishing a working tree to a live server: the client of \<^verbatim>\<open>cmd/promptctl/main.go\<close> against the
  interceptors and handlers of the server, each request in an environment of its own (time, failing
  statements, nonces).
\<close>

definition serve_timed :: "('c, 'l) config \<Rightarrow> (nat \<Rightarrow> env) \<Rightarrow> (nat \<times> ('c, 'l) gate) rpc" where
  "serve_timed cfg es vals r ng =
     (let (x, g') = serve_rpc cfg (es (fst ng)) vals r (snd ng) in (x, (Suc (fst ng), g')))"

text \<open>\<open>dial\<close> and \<open>authCtx\<close> of \<^verbatim>\<open>cmd/promptctl/main.go\<close>: \<open>NewClientTLSFromFile\<close> reads the file it is given,
  also when none is.\<close>

definition ctl_dial :: "files \<Rightarrow> (string \<Rightarrow> bool) \<Rightarrow> (string \<Rightarrow> bool) \<Rightarrow> string \<Rightarrow> bool \<Rightarrow> string \<Rightarrow> client_tls option option" where
  "ctl_dial fs has_certs new_client addr useTLS caCert =
     (let creds = (if useTLS then map_option (\<lambda>pem. Some \<lparr>RootCAs = Some pem, Certificates = []\<rparr>) (certPool fs has_certs caCert)
                   else Some None)
      in if new_client addr then creds else None)"

definition ctl_authCtx :: "string \<Rightarrow> string list" where
  "ctl_authCtx token = (if token \<noteq> [] then [''Bearer '' @ token] else [])"

text \<open>The CA file is called optional; without it a TLS connection is not even tried, where \<open>promptnet\<close>
  falls back on the system's roots.\<close>

lemma ctl_tls_needs_a_ca_file:
  assumes "fs [] = None" and "new_client addr"
  shows "ctl_dial fs has_certs new_client addr True [] = None
    \<and> dial fs has_certs key_pair new_client addr True [] [] [] = Some (Some \<lparr>RootCAs = None, Certificates = []\<rparr>)"
  using assms by (simp add: ctl_dial_def dial_def certPool_def)

text \<open>The version served under a URI.\<close>

definition served_version :: "db \<Rightarrow> string \<Rightarrow> string option" where
  "served_version d uri = map_option pr_vhash (map_of (prompts d) uri)"

lemma served_version_Get: "Get s e d uri = Inr p \<Longrightarrow> served_version d uri = Some (VersionHash p)"
  by (auto simp: Get_def served_version_def of_option_def rbind_eq_Inr split: if_splits option.splits)

lemma Publish_version:
  assumes "PublishPrompt srv c e uri t sl m [] w = (Reply h, w')"
  shows "h = Hash (sha (srv_store srv)) t sl \<and> served_version (w_db w') uri = Some h
    \<and> (\<forall>u. u \<noteq> uri \<longrightarrow> served_version (w_db w') u = served_version (w_db w) u)"
  using assms
proof (cases rule: Publish_cases)
  case (same prev)
  then show ?thesis using served_version_Get [OF same(4)] by simp
next
  case (stored k cls d)
  have b: "branchOr [] = DefaultBranch" by (simp add: branchOr_def)
  from stored(5) show ?thesis
  proof (cases rule: Commit_cases)
    case (succeeded parent)
    then show ?thesis using stored(1,6) b by (simp add: served_version_def)
  qed simp
qed simp_all

lemma publishToServer_versions:
  assumes "publishToServer (serve_timed cfg es) auth disk ps out (n, g) = ((None, out'), (n', g'))"
    and "distinct (map pathToURI ps)"
  shows "(\<forall>p \<in> set ps. served_version (w_db (g_world g')) (pathToURI p)
        = Some (Hash (sha (srv_store (cfg_server cfg))) (diskContent disk p) (deriveSlots (diskContent disk p))))
    \<and> (\<forall>u. u \<notin> pathToURI ` set ps \<longrightarrow> served_version (w_db (g_world g')) u = served_version (w_db (g_world g)) u)"
  using assms
proof (induction ps arbitrary: out n g)
  case (Cons p ps)
  let ?t = "diskContent disk p"
  let ?hash = "Hash (sha (srv_store (cfg_server cfg))) ?t (deriveSlots ?t)"
  let ?print = "\<lambda>x. case x of PublishPromptResponse h \<Rightarrow>
        (case slice12 h of None \<Rightarrow> (Some SlicePanic, [])
         | Some h12 \<Rightarrow> (None, ''published '' @ pathToURI p @ '' ('' @ h12 @ '')'' @ newline))
      | _ \<Rightarrow> (Some WrongAnswer, [])"
  obtain ex ng where c: "call (serve_timed cfg es) auth (PublishPromptRequest (pathToURI p) ?t (deriveSlots ?t) [] []) ?print (n, g) = (ex, ng)"
    by (meson surj_pair)
  obtain n1 g1 where ng: "ng = (n1, g1)" by (cases ng)
  have ok: "fst ex = None" "publishToServer (serve_timed cfg es) auth disk ps (out @ snd ex) (n1, g1) = ((None, out'), (n', g'))"
    using Cons.prems(1) c ng by (auto simp: Let_def split: option.splits prod.splits)
  from c ok(1) obtain vals x where r: "serve_timed cfg es vals (PublishPromptRequest (pathToURI p) ?t (deriveSlots ?t) [] []) (n, g) = (Reply x, ng)"
    "ex = ?print x"
    by (auto simp: call_def split: option.splits prod.splits outcome.splits)
  from r(1) ng obtain e' where
      "serve_rpc cfg e' vals (PublishPromptRequest (pathToURI p) ?t (deriveSlots ?t) [] []) g = (Reply x, g1)"
    by (auto simp: serve_timed_def Let_def split: prod.splits)
  then obtain ctx where
      "dispatch (cfg_server cfg) ctx e' (PublishPromptRequest (pathToURI p) ?t (deriveSlots ?t) [] []) (g_world g) = (Reply x, g_world g1)"
    by (cases rule: serve_rpc_cases) auto
  then obtain h where "PublishPrompt (cfg_server cfg) ctx e' (pathToURI p) ?t (deriveSlots ?t) [] [] (g_world g) = (Reply h, g_world g1)"
    by (auto simp: reply_def map_reply_Reply prod_eq_iff)
  from Publish_version [OF this]
  have step: "served_version (w_db (g_world g1)) (pathToURI p) = Some ?hash"
    "u \<noteq> pathToURI p \<Longrightarrow> served_version (w_db (g_world g1)) u = served_version (w_db (g_world g)) u" for u
    by simp_all
  from Cons.prems(2) have d: "pathToURI p \<notin> pathToURI ` set ps" "distinct (map pathToURI ps)" by simp_all
  note IH = Cons.IH [OF ok(2) d(2)]
  show ?case
  proof (intro conjI ballI allI impI)
    fix q assume "q \<in> set (p # ps)"
    then show "served_version (w_db (g_world g')) (pathToURI q)
        = Some (Hash (sha (srv_store (cfg_server cfg))) (diskContent disk q) (deriveSlots (diskContent disk q)))"
    proof (cases "q = p")
      case True
      with IH d(1) step(1) show ?thesis by simp
    next
      case False
      with \<open>q \<in> set (p # ps)\<close> IH show ?thesis by simp
    qed
  next
    fix u assume "u \<notin> pathToURI ` set (p # ps)"
    with IH step(2) show "served_version (w_db (g_world g')) u = served_version (w_db (g_world g)) u" by simp
  qed
qed simp

text \<open>Paths with the suffix have URIs of their own.\<close>

lemma HasSuffix_TrimSuffix: "HasSuffix p sfx \<Longrightarrow> TrimSuffix p sfx @ sfx = p"
proof -
  assume s: "HasSuffix p sfx"
  then obtain t where "rev p = rev sfx @ t" by (auto simp: HasSuffix_def HasPrefix_iff)
  then have "p = rev t @ sfx" by (metis rev_append rev_rev_ident)
  then show ?thesis by simp
qed

lemma pathToURI_inj:
  assumes "HasSuffix p ''.prompt''" and "HasSuffix q ''.prompt''" and "pathToURI p = pathToURI q"
  shows "p = q"
proof -
  have "TrimSuffix p ''.prompt'' = TrimSuffix q ''.prompt''" using assms(3) by (simp add: pathToURI_def)
  then show ?thesis using assms(1,2) by (metis HasSuffix_TrimSuffix)
qed

lemma distinct_uris: "distinct (map fst disk) \<Longrightarrow> distinct (map pathToURI (diskPromptFiles walk disk))"
proof -
  assume "distinct (map fst disk)"
  then have "distinct (map fst (visited walk disk))"
    by (cases walk) (simp_all add: visited_def take_map [symmetric])
  then show ?thesis
    unfolding distinct_map [of pathToURI] by (simp add: diskPromptFiles_def inj_on_def) (blast intro: pathToURI_inj)
qed

lemma demo_republish:
  "\<exists>g'. serve_rpc demo_config calm [''Bearer k''] (PublishPromptRequest demo_uri ''Hi {n}'' [''n''] [] []) demo_gate
      = (Reply (PublishPromptResponse (Hash demo_sha ''Hi {n}'' [''n''])), g')"
proof -
  have "PublishPrompt (demo_srv (ttl_ops 5)) \<lparr>scopeKey = Some ''acme'', writeKey = Some True\<rparr> calm demo_uri ''Hi {n}'' [''n''] [] []
      (boot demo_db []) = (Reply (Hash demo_sha ''Hi {n}'' [''n'']), boot demo_db [])"
    using demo_authorized
    by (simp add: PublishPrompt_def demo_valid judge_prev_def branchOr_def demo_Get sha_demo requireWrite_def)
  then show ?thesis
    by (simp add: serve_rpc_def MetricsInterceptor_def AuthInterceptor_def AuditInterceptor_def RateLimitInterceptor_def
        take_token_def handle_def demo_config_def demo_gate_def no_ctx_def reply_def effective_burst_def scope_value_def)
qed

text \<open>C19: after a push that also publishes, the server serves the working tree: every prompt file is
  valid and its URI, its path without the suffix, is served with the version hash of its text and
  slots; what is served under any other URI is as before, whoever else's tokens and limits the
  interceptors apply. If a walk of the tree meets an error, this holds for the files it visited: those
  of the first are valid, those of the second are served.\<close>

theorem push_publishes_the_tree:
  assumes "pushCmd (serve_timed cfg es) auth server pushed walk1 walk2 disk (n, g) = ((None, out), (n', g'))" and "server \<noteq> []"
    and "distinct (map fst disk)"
  shows "prompts_valid (visited walk1 disk)
    \<and> (\<forall>p \<in> set (diskPromptFiles walk2 disk). served_version (w_db (g_world g')) (pathToURI p)
        = Some (Hash (sha (srv_store (cfg_server cfg))) (diskContent disk p) (deriveSlots (diskContent disk p))))
    \<and> (\<forall>u. u \<notin> pathToURI ` set (diskPromptFiles walk2 disk)
        \<longrightarrow> served_version (w_db (g_world g')) u = served_version (w_db (g_world g)) u)"
proof -
  obtain out1 where v: "validateAll walk1 disk = None"
    and p: "publishToServer (serve_timed cfg es) auth disk (diskPromptFiles walk2 disk) out1 (n, g) = ((None, out), (n', g'))"
    using assms(1,2) by (auto simp: pushCmd_def split: option.splits prod.splits)
  show ?thesis
    using v publishToServer_versions [OF p distinct_uris [OF assms(3)]] unfolding validateAll_iff by (rule conjI)
qed

theorem push_publishes_the_tree_witness:
  "\<exists>out n' g'. pushCmd (serve_timed demo_config (\<lambda>_. calm)) (Some [''Bearer k'']) ''host:1'' Synced None None [(''acme/a.prompt'', ''Hi {n}'')] (0, demo_gate)
      = ((None, out), (n', g'))
    \<and> served_version (w_db (g_world g')) demo_uri = Some (Hash demo_sha ''Hi {n}'' [''n''])"
proof -
  let ?disk = "[(''acme/a.prompt'', ''Hi {n}'')]" and ?h = "Hash demo_sha ''Hi {n}'' [''n'']"
  have v: "validateAll None ?disk = None" and files: "diskPromptFiles None ?disk = [''acme/a.prompt'']"
    and t: "diskContent ?disk ''acme/a.prompt'' = ''Hi {n}''" and sl: "deriveSlots ''Hi {n}'' = [''n'']"
    and uri: "pathToURI ''acme/a.prompt'' = demo_uri"
    by code_simp+
  have valid: "validate_Prompt demo_uri ''Hi {n}'' [''n''] = None" by (rule demo_valid)
  obtain g' where r: "serve_rpc demo_config calm [''Bearer k''] (PublishPromptRequest demo_uri ''Hi {n}'' [''n''] [] []) demo_gate
      = (Reply (PublishPromptResponse ?h), g')" using demo_republish by blast
  have "slice12 ?h = Some (take 12 ?h)" using slice12_digest [OF digest_text_Hash [OF demo_ok(1)]] by (simp add: sha_demo)
  then obtain out n' where "pushCmd (serve_timed demo_config (\<lambda>_. calm)) (Some [''Bearer k'']) ''host:1'' Synced None None ?disk (0, demo_gate)
      = ((None, out), (n', g'))"
    by (simp add: pushCmd_def v reportSync_def files t sl uri valid call_def serve_timed_def r)
  from this push_publishes_the_tree [OF this] show ?thesis
    by (auto simp: files t sl uri demo_config_def sha_demo)
qed

end
