(* ===== verification/StoreConc.thy ===== *)
theory StoreConc
  imports StoreProps
begin

text \<open>
  Writers of the store that run at the same time. A method of \<^verbatim>\<open>internal/store/store.go\<close> is a sequence
  of statements, and other requests' statements may come between any two: \<open>task\<close> is a call that is on
  its way, \<open>task_step\<close> its next statement, a transaction being one, and \<open>conc\<close> are the databases any
  interleaving of any number of calls reaches. A call that nothing interrupts is the method of \<open>Store\<close>
  (\<open>task_alone\<close>). The invariants of the store survive every interleaving; the history of a branch does
  not: of two commits that read the same tip the later one drops the earlier (\<open>concurrent_commits_lose_one\<close>).
\<close>

subsection \<open>Calls on their way\<close>

text \<open>What a call will do next, with what it has read so far.\<close>

datatype task =
    CommitTip string string string "string list" string string
  | WriteTx string string string "string list" string string string string
  | BranchTip string string string
  | BranchInsert string string string
  | MergeInto string string string string string
  | MergeFrom string string string string string string
  | MergeLoad string string string string string string string
  | SetLoad string string string
  | SetTx string string string commit
  | Returned "err option"

fun task_of :: "store_op \<Rightarrow> task option" where
  "task_of (OpPut p) = None"
| "task_of (OpCommit uri branch t sl a m) = Some (CommitTip uri branch t sl a m)"
| "task_of (OpBranch uri name src) = Some (BranchTip uri name src)"
| "task_of (OpMerge uri into src a m) = Some (MergeInto uri into src a m)"
| "task_of (OpSetBranch uri branch h) = Some (SetLoad uri branch h)"

text \<open>The transaction of \<open>SetBranch\<close>, for the commit it has read.\<close>

definition set_tx :: "store \<Rightarrow> env \<Rightarrow> string \<Rightarrow> string \<Rightarrow> string \<Rightarrow> commit \<Rightarrow> db \<Rightarrow> (err + commit) \<times> db" where
  "set_tx s e uri branch commitHash c =
     transaction e (\<lambda>d.
       rbind (stmt e UpsertRef (upsert_ref uri branch commitHash) d) (\<lambda>d.
         if branch = DefaultBranch
         then stmt e UpsertPrompt (upsert_prompt uri
                \<lparr>pr_template = seal (aead s) (nonceT e) (c_Template c),
                 pr_slots = seal (aead s) (nonceS e) (json_marshal (c_Slots c)),
                 pr_vhash = c_VersionHash c\<rparr>) d
         else Inr d)) c"

definition returned :: "(err + 'a) \<times> db \<Rightarrow> task \<times> db" where
  "returned x = (case err_of x of (er, d) \<Rightarrow> (Returned er, d))"

fun task_step :: "store \<Rightarrow> env \<Rightarrow> task \<Rightarrow> db \<Rightarrow> task \<times> db" where
  "task_step s e (CommitTip uri branch t sl a m) d =
     (case tip e d uri branch of
        Inr parent \<Rightarrow> (WriteTx uri branch t sl parent [] a m, d)
      | Inl er \<Rightarrow> if er \<noteq> ErrBranchNotFound then (Returned (Some er), d) else (WriteTx uri branch t sl [] [] a m, d))"
| "task_step s e (WriteTx uri branch t sl p p2 a m) d = returned (commitTx s e uri branch t sl p p2 a m d)"
| "task_step s e (BranchTip uri name src) d =
     (case tip e d uri src of Inl er \<Rightarrow> (Returned (Some er), d) | Inr h \<Rightarrow> (BranchInsert uri name h, d))"
| "task_step s e (BranchInsert uri name h) d =
     (if fails e InsRef then (Returned (Some (DbErr InsRef)), d)
      else case insert_ref uri name h d of Inl er \<Rightarrow> (Returned (Some er), d) | Inr d' \<Rightarrow> (Returned None, d'))"
| "task_step s e (MergeInto uri into src a m) d =
     (case tip e d uri into of Inl er \<Rightarrow> (Returned (Some er), d) | Inr dst \<Rightarrow> (MergeFrom uri into src a m dst, d))"
| "task_step s e (MergeFrom uri into src a m dst) d =
     (case tip e d uri src of Inl er \<Rightarrow> (Returned (Some er), d) | Inr h \<Rightarrow> (MergeLoad uri into src a m dst h, d))"
| "task_step s e (MergeLoad uri into src a m dst h) d =
     (case GetCommit s e d h of
        Inl er \<Rightarrow> (Returned (Some er), d)
      | Inr c \<Rightarrow> (WriteTx uri into (c_Template c) (c_Slots c) dst h a
          (if m = [] then ''merge '' @ src @ '' into '' @ into else m), d))"
| "task_step s e (SetLoad uri branch h) d =
     (case GetCommit s e d h of
        Inl er \<Rightarrow> (Returned (Some er), d)
      | Inr c \<Rightarrow> if c_URI c \<noteq> uri then (Returned (Some ErrNotFound), d) else (SetTx uri branch h c, d))"
| "task_step s e (SetTx uri branch h c) d = returned (set_tx s e uri branch h c d)"
| "task_step s e (Returned er) d = (Returned er, d)"

text \<open>No call has more than four statements.\<close>

fun task_run :: "nat \<Rightarrow> store \<Rightarrow> env \<Rightarrow> task \<Rightarrow> db \<Rightarrow> task \<times> db" where
  "task_run 0 s e t d = (t, d)"
| "task_run (Suc n) s e t d = (case task_step s e t d of (t', d') \<Rightarrow> task_run n s e t' d')"

lemma task_run_Returned [simp]: "task_run n s e (Returned er) d = (Returned er, d)"
  by (induction n) simp_all

lemma returned_eq: "returned (r, d) = (t', d') \<longleftrightarrow> d' = d \<and> t' = Returned (case r of Inl er \<Rightarrow> Some er | Inr v \<Rightarrow> None)"
  by (auto simp: returned_def err_of_def split: sum.splits)

text \<open>The statements in a row are the method.\<close>

lemma task_alone:
  assumes "task_of opn = Some t"
  shows "task_run 4 s e t d = (case apply_op s e opn d of (er, d') \<Rightarrow> (Returned er, d'))"
proof (cases opn)
  case (OpCommit uri branch tm sl a m)
  with assms show ?thesis
    by (auto simp: numeral_eq_Suc Commit_def returned_def err_of_def split: sum.splits prod.splits)
next
  case (OpBranch uri name src)
  with assms show ?thesis
    by (auto simp: numeral_eq_Suc Branch_def returned_def err_of_def split: sum.splits prod.splits)
next
  case (OpMerge uri into src a m)
  with assms show ?thesis
    by (auto simp: numeral_eq_Suc Merge_def returned_def err_of_def Let_def rbind_def split: sum.splits prod.splits)
next
  case (OpSetBranch uri branch h)
  with assms show ?thesis
    by (auto simp: numeral_eq_Suc SetBranch_def set_tx_def returned_def err_of_def split: sum.splits prod.splits)
qed (use assms in simp)

subsection \<open>Interleavings\<close>

text \<open>The messages a call hashes with its next statement, and what it may rely on: the hashes it has
  read are those of commits that are there, which stay.\<close>

fun task_msgs :: "store \<Rightarrow> task \<Rightarrow> bytes set" where
  "task_msgs s (WriteTx uri branch t sl p p2 a m) = commit_msgs s t sl p p2 a m"
| "task_msgs s _ = {}"

fun task_ok :: "store \<Rightarrow> db \<Rightarrow> task \<Rightarrow> bool" where
  "task_ok s d (CommitTip uri branch t sl a m) = (list_all valid_utf8 sl \<and> plain t sl)"
| "task_ok s d (WriteTx uri branch t sl p p2 a m) = (list_all valid_utf8 sl \<and> plain t sl
     \<and> (p = [] \<or> commit_row_of d p \<noteq> None) \<and> (p2 = [] \<or> commit_row_of d p2 \<noteq> None))"
| "task_ok s d (BranchInsert uri name h) = (commit_row_of d h \<noteq> None)"
| "task_ok s d (MergeFrom uri into src a m dst) = (commit_row_of d dst \<noteq> None)"
| "task_ok s d (MergeLoad uri into src a m dst h) = (commit_row_of d dst \<noteq> None \<and> commit_row_of d h \<noteq> None)"
| "task_ok s d (SetTx uri branch h c) =
     (\<exists>x. commit_row_of d h = Some x \<and> row_content s x (c_Template c) (c_Slots c) \<and> scanCommit s x = Inr c)"
| "task_ok s d _ = True"

definition older :: "db \<Rightarrow> db \<Rightarrow> bool" where
  "older d d' \<longleftrightarrow> (\<forall>h r. commit_row_of d h = Some r \<longrightarrow> commit_row_of d' h = Some r)"

lemma older_refl [simp]: "older d d" and older_insert [simp]: "older d (insert_commit r d)"
  and older_move [simp]: "older d (move_branch uri branch h p d') = older d d'"
  and older_ref [simp]: "older d (upsert_ref uri branch h d') = older d d'"
  by (simp_all add: older_def commit_row_insert_other)

lemma older_trans: "older d d' \<Longrightarrow> older d' d'' \<Longrightarrow> older d d''"
  by (simp add: older_def)

lemma task_ok_older: "older d d' \<Longrightarrow> task_ok s d t \<Longrightarrow> task_ok s d' t"
  by (cases t) (auto simp: older_def)

lemma hashes_row: "h \<in> hashes (commits d) \<longleftrightarrow> commit_row_of d h \<noteq> None"
  by (auto simp: commit_row_of_def find_None_iff)

lemma tip_Inr: "tip e d uri branch = Inr h \<Longrightarrow> map_of (refs d) (uri, branch) = Some h"
  by (auto simp: tip_def split: if_splits)

lemma tip_row: "synced s M d \<Longrightarrow> tip e d uri branch = Inr h \<Longrightarrow> commit_row_of d h \<noteq> None"
  using tip_Inr refs_ok_tip unfolding hashes_row [symmetric] by (fastforce simp: synced_def wf_db_def)

inductive conc :: "store \<Rightarrow> bytes set \<Rightarrow> db \<Rightarrow> task list \<Rightarrow> bool" for s M where
  conc_start: "conc s M empty_db []"
| conc_call: "conc s M d ts \<Longrightarrow> server_op opn \<Longrightarrow> task_of opn = Some t \<Longrightarrow> conc s M d (ts @ [t])"
| conc_step: "conc s M d ts \<Longrightarrow> i < length ts \<Longrightarrow> task_step s e (ts ! i) d = (t', d') \<Longrightarrow> env_ok s e \<Longrightarrow>
    task_msgs s (ts ! i) \<subseteq> M \<Longrightarrow> conc s M d' (ts[i := t'])"

inductive_cases conc_stepE: "conc s M d ts"

subsection \<open>One statement keeps the invariants\<close>

lemma set_tx_cases:
  assumes "set_tx s e uri branch h c d = (r, d')"
  obtains (failed) er where "r = Inl er" "d' = d"
    | (succeeded) "r = Inr c" "d' = move_branch uri branch h (served_row s e (c_Template c) (c_Slots c) (c_VersionHash c)) d"
  using assms unfolding set_tx_def
  by (cases rule: transaction_cases)
    (auto simp: rbind_eq_Inr stmt_eq_Inr move_branch_def served_row_def Let_def split: if_splits)

lemma commitTx_synced:
  assumes "inj_on (sha s) M" and "sha_ok s" and "synced s M d" and "env_ok s e"
    and "task_ok s d (WriteTx uri branch t sl p p2 a m)" and "commit_msgs s t sl p p2 a m \<subseteq> M"
    and "commitTx s e uri branch t sl p p2 a m d = (r, d')"
  shows "synced s M d' \<and> older d d'"
  using assms(7)
proof (cases rule: commitTx_cases)
  case succeeded
  have "p = [] \<or> p \<in> hashes (commits d)" "p2 = [] \<or> p2 \<in> hashes (commits d)" "list_all valid_utf8 sl" "plain t sl"
    using assms(5) by (simp_all add: hashes_row)
  then show ?thesis unfolding succeeded(2) using synced_commit [OF assms(1-4)] assms(6) by simp
qed (use assms(3) in simp)

lemma set_tx_synced:
  assumes "synced s M d" and "env_ok s e" and "task_ok s d (SetTx uri branch h c)" and "set_tx s e uri branch h c d = (r, d')"
  shows "synced s M d' \<and> older d d'"
  using assms(4)
proof (cases rule: set_tx_cases)
  case succeeded
  have old: "wf_db d" "content_ok s d" "head_sync s d" "\<forall>r \<in> set (commits d). hashed_ok s M r"
    using assms(1) by (simp_all add: synced_def)
  obtain x where x: "commit_row_of d h = Some x" "row_content s x (c_Template c) (c_Slots c)" "scanCommit s x = Inr c"
    using assms(3) by auto
  let ?row = "served_row s e (c_Template c) (c_Slots c) (c_VersionHash c)"
  have v: "c_VersionHash c = Hash (sha s) (c_Template c) (c_Slots c)" "list_all valid_utf8 (c_Slots c)"
    using x(2) scanCommit_fields(3) [OF x(3)] by (simp_all add: row_content_def)
  have "head_sync s d'"
    unfolding succeeded(2)
    by (rule head_sync_move [OF old(3) x(1)]) (use x(2) v assms(2) scanCommit_fields(3) [OF x(3)] in \<open>simp_all add: row_content_def\<close>)
  moreover have "wf_db d'" unfolding succeeded(2) using old(1) by (rule wf_move_branch) (simp add: hashes_row x(1))
  moreover have "content_ok s d'" unfolding succeeded(2) v(1)
    by (rule content_ok_move [OF old(2) served_content_new]) (use assms(2) v(2) in simp_all)
  ultimately show ?thesis using succeeded(2) old(4) by (simp add: synced_def)
qed (use assms(1) in simp)

lemma insert_ref_synced:
  assumes "synced s M d" and "task_ok s d (BranchInsert uri name h)" and "insert_ref uri name h d = Inr d'"
  shows "synced s M d' \<and> older d d'"
proof -
  have old: "wf_db d" "content_ok s d" "head_sync s d" "\<forall>r \<in> set (commits d). hashed_ok s M r"
    using assms(1) by (simp_all add: synced_def)
  have new: "d' = upsert_ref uri name h d" "map_of (refs d) (uri, name) = None"
    using assms(3) by (auto simp: insert_ref_def upsert_ref_def split: option.splits if_splits)
  have "h \<in> hashes (commits d)" using assms(2) by (simp add: hashes_row)
  then have "wf_db d'"
    using old(1) snd_update_subset [of "(uri, name)" h "refs d"] unfolding new(1)
    by (auto simp: wf_db_def refs_ok_def distinct_update)
  moreover have "head_sync s d'"
    by (rule head_sync_other [OF old(3) disjI2 [OF new(2)], of _ h]) (simp_all add: new(1))
  ultimately show ?thesis using new old by (simp add: synced_def content_ok_refs)
qed

lemma task_step_keeps:
  assumes "inj_on (sha s) M" and "sha_ok s" and "synced s M d" and "env_ok s e" and "task_ok s d t"
    and "task_msgs s t \<subseteq> M" and "task_step s e t d = (t', d')"
  shows "synced s M d' \<and> older d d' \<and> task_ok s d' t'"
proof (cases t)
  case (WriteTx uri branch tm sl p p2 a m)
  obtain r d1 where r: "commitTx s e uri branch tm sl p p2 a m d = (r, d1)" by fastforce
  with assms(7) WriteTx have "d' = d1" "\<exists>er. t' = Returned er" by (auto simp: returned_eq)
  with commitTx_synced [OF assms(1-4) _ _ r] assms(5,6) WriteTx show ?thesis by auto
next
  case (SetTx uri branch h c)
  obtain r d1 where r: "set_tx s e uri branch h c d = (r, d1)" by fastforce
  with assms(7) SetTx have "d' = d1" "\<exists>er. t' = Returned er" by (auto simp: returned_eq)
  with set_tx_synced [OF assms(3,4) _ r] assms(5) SetTx show ?thesis by auto
next
  case (BranchInsert uri name h)
  show ?thesis
  proof (cases "insert_ref uri name h d")
    case (Inr d1)
    with insert_ref_synced [OF assms(3) _ this] assms(3,5,7) BranchInsert show ?thesis by (auto split: if_splits)
  qed (use assms(3,7) BranchInsert in \<open>auto split: if_splits\<close>)
next
  case (MergeLoad uri into src a m dst h)
  show ?thesis
  proof (cases "GetCommit s e d h")
    case (Inr c)
    have c: "content_ok s d" "\<forall>r \<in> set (commits d). hashed_ok s M r" using assms(3) by (simp_all add: synced_def)
    from GetCommit_content [OF c(1) Inr] obtain x where "x \<in> set (commits d)" "row_content s x (c_Template c) (c_Slots c)" by blast
    with c(2) have "plain (c_Template c) (c_Slots c)" "list_all valid_utf8 (c_Slots c)"
      by (auto simp: hashed_ok_def row_content_def)
    with assms(3,5,7) MergeLoad Inr show ?thesis by auto
  qed (use assms(3,7) MergeLoad in auto)
next
  case (SetLoad uri branch h)
  show ?thesis
  proof (cases "GetCommit s e d h")
    case (Inr c)
    have "content_ok s d" using assms(3) by (simp add: synced_def)
    from GetCommit_content [OF this Inr] obtain x where
      "commit_row_of d h = Some x" "row_content s x (c_Template c) (c_Slots c)" "scanCommit s x = Inr c" by blast
    with assms(3,7) SetLoad Inr show ?thesis by (auto split: if_splits)
  qed (use assms(3,7) SetLoad in auto)
next
  case (CommitTip uri branch tm sl a m)
  then show ?thesis using assms(3,5,7) tip_row [OF assms(3), of e uri branch]
    by (cases "tip e d uri branch") (auto split: if_splits)
next
  case (BranchTip uri name src)
  then show ?thesis using assms(3,5,7) tip_row [OF assms(3), of e uri src] by (cases "tip e d uri src") auto
next
  case (MergeInto uri into src a m)
  then show ?thesis using assms(3,5,7) tip_row [OF assms(3), of e uri into] by (cases "tip e d uri into") auto
next
  case (MergeFrom uri into src a m dst)
  then show ?thesis using assms(3,5,7) tip_row [OF assms(3), of e uri src] by (cases "tip e d uri src") auto
qed (use assms(3,7) in auto)

lemma conc_keeps:
  assumes "conc s M d ts" and "inj_on (sha s) M" and "sha_ok s"
  shows "synced s M d \<and> (\<forall>t \<in> set ts. task_ok s d t)"
  using assms(1)
proof induction
  case conc_start
  show ?case by (simp add: synced_empty)
next
  case (conc_call d ts opn t)
  then have "task_ok s d t" by (cases opn) auto
  with conc_call show ?case by auto
next
  case (conc_step d ts i e t' d')
  then have "task_ok s d (ts ! i)" by simp
  with task_step_keeps [OF assms(2,3) _ conc_step(4) _ conc_step(5,3)] conc_step(6)
  have "synced s M d'" "older d d'" "task_ok s d' t'" by simp_all
  with conc_step(6) task_ok_older set_update_subset_insert [of ts i t'] show ?case by blast
qed

text \<open>Where nothing fails, every branch has a history.\<close>

lemma log_loop_no_error:
  assumes "wf_db d" and "content_ok s d" and "\<And>q. \<not> fails e q"
    and "log_loop s e d h out = Some r" and "h = [] \<or> commit_row_of d h \<noteq> None"
  shows "\<exists>cs. r = Inr cs"
proof -
  have "d1 = d \<longrightarrow> e1 = e \<longrightarrow> s1 = s \<longrightarrow> h1 = [] \<or> commit_row_of d h1 \<noteq> None \<longrightarrow> (\<exists>cs. r1 = Inr cs)"
    if "log_loop s1 e1 d1 h1 out1 = Some r1" for s1 e1 d1 h1 out1 r1
    using that
  proof (induction rule: log_loop.raw_induct [rotated, consumes 1])
    case (1 f s1 e1 d1 h1 out1 r1)
    show ?case
    proof (intro impI, cases "h1 = []")
      assume eq: "d1 = d" "e1 = e" "s1 = s" and row: "h1 = [] \<or> commit_row_of d h1 \<noteq> None" and h: "h1 \<noteq> []"
      then obtain x where x: "commit_row_of d h1 = Some x" by auto
      then have "x \<in> set (commits d)" by (auto simp: commit_row_of_def dest: find_Some_in)
      with assms(2) obtain t sl where "row_content s x t sl" by (auto simp: content_ok_def)
      with x assms(3) obtain c where c: "GetCommit s e d h1 = Inr c" "c_Parent c = null_string (cr_parent x)"
        by (metis GetCommit_served)
      have "c_Parent c = [] \<or> commit_row_of d (c_Parent c) \<noteq> None"
        using parents_older(1) [of "commits d" x] assms(1) \<open>x \<in> set (commits d)\<close> c(2)
        by (cases "cr_parent x") (auto simp: wf_db_def null_string_def commit_row_of_def find_None_iff)
      moreover from 1(2) h c eq have "f s1 e1 d1 (c_Parent c) (out1 @ [c]) = Some r1" by simp
      ultimately show "\<exists>cs. r1 = Inr cs" using 1(1) eq by blast
    qed (use 1(2) in auto)
  qed
  with assms(4,5) show ?thesis by blast
qed

lemma synced_log:
  assumes "synced s M d" and "\<And>q. \<not> fails e q" and "map_of (refs d) (uri, branch) \<noteq> None"
  shows "\<exists>cs. Log s e d uri branch = Some (Inr cs) \<and> cs \<noteq> [] \<and> distinct (map c_Hash cs)"
proof -
  have wf: "wf_db d" "content_ok s d" using assms(1) by (simp_all add: synced_def)
  obtain h where h: "map_of (refs d) (uri, branch) = Some h" using assms(3) by auto
  then have "h \<in> hashes (commits d)" using wf(1) refs_ok_tip by (auto simp: wf_db_def)
  then have row: "commit_row_of d h \<noteq> None" by (auto simp: commit_row_of_def find_None_iff)
  from wf_log [OF wf(1), of s e uri branch] show ?thesis
  proof (elim disjE exE)
    fix er assume "Log s e d uri branch = Some (Inl er)"
    then have "log_loop s e d h [] = Some (Inl er)" using h assms(2) by (simp add: Log_def tip_def)
    from log_loop_no_error [OF wf assms(2) this] row show ?thesis by auto
  qed auto
qed

subsection \<open>What survives interleaving\<close>

lemma unserved_task:
  assumes "task_step s e t d = (t', d')" and "unserved d' uri"
  shows "unserved d uri \<or> (\<exists>h. t = BranchInsert uri ''main'' h)"
proof (cases t)
  case (WriteTx u branch tm sl p p2 a m)
  obtain r d1 where r: "commitTx s e u branch tm sl p p2 a m d = (r, d1)" by fastforce
  with assms(1) WriteTx have d1: "d1 = d'" by (auto simp: returned_eq)
  from r show ?thesis by (cases rule: commitTx_cases) (use assms(2) d1 in simp_all)
next
  case (SetTx u branch h c)
  obtain r d1 where r: "set_tx s e u branch h c d = (r, d1)" by fastforce
  with assms(1) SetTx have d1: "d1 = d'" by (auto simp: returned_eq)
  from r show ?thesis by (cases rule: set_tx_cases) (use assms(2) d1 in simp_all)
next
  case (BranchInsert u name h)
  have "d' = d \<or> d' = upsert_ref u name h d"
    using assms(1) BranchInsert by (auto simp: insert_ref_def upsert_ref_def split: if_splits)
  then show ?thesis
  proof
    assume "d' = upsert_ref u name h d"
    with assms(2) unserved_ref [of u name h d uri] BranchInsert show ?thesis by auto
  qed (use assms(2) in simp)
qed (use assms in \<open>auto split: sum.splits if_splits\<close>)

text \<open>C4: isolation of the served head. However the statements of any number of commits (of templates
  without NUL bytes), branchings, merges and rollbacks interleave, and whichever of them fail, \<open>Get\<close>
  answers with the content and the version hash of the commit that \<open>main\<close> points at, and reports a
  prompt missing exactly when it has no branch \<open>main\<close>; the one exception is a \<open>main\<close> that is there but
  not served, then \<open>Get\<close> reports the prompt missing, and no statement makes a prompt such but the
  insertion of a branch under the name \<open>main\<close>. \<open>Log\<close> returns a history without repetition for every
  branch there is. (No digest collides on what was committed, and no served row was written alone, as
  \<open>Put\<close> does for local commands.)\<close>

theorem interleaved_writes_keep_head:
  assumes "conc s M d ts" and "inj_on (sha s) M" and "sha_ok s" and "\<And>q. \<not> fails e q"
  shows "(if unserved d uri
      then Get s e d uri = Inl ErrNotFound
      else Get s e d uri = (case Resolve s e d uri ''main'' of
          Inl er \<Rightarrow> Inl ErrNotFound
        | Inr c \<Rightarrow> Inr \<lparr>URI = uri, Template = c_Template c, Slots = c_Slots c, VersionHash = c_VersionHash c\<rparr>)
        \<and> (Get s e d uri = Inl ErrNotFound \<longleftrightarrow> map_of (refs d) (uri, ''main'') = None))
    \<and> (\<forall>e' t t' d'. task_step s e' t d = (t', d') \<and> unserved d' uri \<longrightarrow>
         unserved d uri \<or> (\<exists>h. t = BranchInsert uri ''main'' h))
    \<and> (map_of (refs d) (uri, branch) \<noteq> None \<longrightarrow>
        (\<exists>cs. Log s e d uri branch = Some (Inr cs) \<and> cs \<noteq> [] \<and> distinct (map c_Hash cs)))"
proof -
  have sync: "synced s M d" using conc_keeps [OF assms(1-3)] by simp
  show ?thesis
    using synced_head [OF sync assms(3,4), of uri] synced_log [OF sync assms(4), of uri branch] unserved_task
    by (intro conjI allI impI) (assumption, blast, blast)
qed

theorem interleaved_writes_keep_head_witness:
  "\<exists>ts. conc demo demo_M demo_db ts \<and> WriteTx demo_uri ''main'' ''Hi {n}'' [''n''] [] [] ''acme'' ''first'' \<in> set ts
    \<and> Get demo calm demo_db demo_uri = Inr \<lparr>URI = demo_uri, Template = ''Hi {n}'', Slots = [''n''], VersionHash = Hash demo_sha ''Hi {n}'' [''n'']\<rparr>"
proof -
  let ?t = "CommitTip demo_uri ''main'' ''Hi {n}'' [''n''] ''acme'' ''first''"
  let ?w = "WriteTx demo_uri ''main'' ''Hi {n}'' [''n''] [] [] ''acme'' ''first''"
  have op: "server_op (OpCommit demo_uri ''main'' ''Hi {n}'' [''n''] ''acme'' ''first'')"
    "task_of (OpCommit demo_uri ''main'' ''Hi {n}'' [''n''] ''acme'' ''first'') = Some ?t" by simp_all
  have read: "task_step demo calm ?t empty_db = (?w, empty_db)" by (simp add: tip_def empty_db_def)
  have "commitTx demo calm demo_uri ''main'' ''Hi {n}'' [''n''] [] [] ''acme'' ''first'' empty_db = (Inr demo_hash, demo_db)"
    using demo_commit by (simp add: Commit_def tip_def empty_db_def)
  then have wrote: "task_step demo calm ?w empty_db = (Returned None, demo_db)" by (simp add: returned_eq)
  have "conc demo demo_M empty_db [?t, ?t]"
    using conc_call [OF conc_call [OF conc_start op] op] by simp
  from conc_step [OF this, of 0 calm ?w empty_db] read have "conc demo demo_M empty_db [?w, ?t]" by simp
  from conc_step [OF this, of 1 calm ?w empty_db] read have "conc demo demo_M empty_db [?w, ?w]" by simp
  from conc_step [OF this, of 0 calm "Returned None" demo_db] wrote have c: "conc demo demo_M demo_db [Returned None, ?w]"
    by (simp add: demo_M_def)
  have "Resolve demo calm demo_db demo_uri ''main'' = GetCommit demo calm demo_db demo_hash"
    by (rule Resolve_branch [OF demo_tip]) simp
  with interleaved_writes_keep_head [OF c demo_inj demo_ok(1,3), of demo_uri, THEN conjunct1] c demo_served show ?thesis
    by (intro exI [of _ "[Returned None, ?w]"]) (simp add: demo_GetCommit)
qed

text \<open>\<open>Log\<close> reads the tip and then one commit after the other; \<open>ds\<close> are the databases at these reads.
  \<open>None\<close> is a walk that has not ended yet.\<close>

fun log_over :: "store \<Rightarrow> env \<Rightarrow> db list \<Rightarrow> string \<Rightarrow> commit list \<Rightarrow> (err + commit list) option" where
  "log_over s e [] h out = (if h = [] then Some (Inr out) else None)"
| "log_over s e (d # ds) h out =
     (if h = [] then Some (Inr out)
      else case GetCommit s e d h of
        Inl er \<Rightarrow> Some (Inl er)
      | Inr c \<Rightarrow> log_over s e ds (c_Parent c) (out @ [c]))"

lemma log_over_mainline:
  "mainline s e d h cs \<Longrightarrow> \<forall>d' \<in> set ds. older d d' \<Longrightarrow> length cs \<le> length ds \<Longrightarrow>
     log_over s e ds h out = Some (Inr (out @ cs))"
proof (induction cs arbitrary: h out ds)
  case Nil
  then show ?case by (cases ds) simp_all
next
  case (Cons c cs)
  then obtain d' ds' where ds: "ds = d' # ds'" by (cases ds) auto
  have "mainline s e d' h (c # cs)"
    by (rule mainline_newer [OF _ Cons.prems(1)]) (use Cons.prems(2) ds in \<open>simp add: older_def\<close>)
  then have "h \<noteq> []" "GetCommit s e d' h = Inr c" by simp_all
  with Cons ds show ?case by simp
qed

text \<open>What it returns is the history at the instant it read the tip, whatever was written meanwhile.\<close>

lemma log_is_a_snapshot:
  assumes "Log s e d uri branch = Some (Inr cs)" and "tip e d uri branch = Inr h"
    and "\<forall>d' \<in> set ds. older d d'" and "length cs \<le> length ds"
  shows "log_over s e ds h [] = Some (Inr cs)"
  using log_over_mainline [OF _ assms(3,4), of s e h "[]"] assms(1,2) by (auto simp: Log_iff)

subsection \<open>What does not\<close>

text \<open>A commit whose row is new and that succeeds.\<close>

lemma write_new_commit:
  assumes "task_step s e (WriteTx uri branch t sl p p2 a m) d = (Returned None, d')"
    and "commit_row_of d (commit_hash_of s t sl p p2 a m) = None"
  shows "map_of (refs d') (uri, branch) = Some (commit_hash_of s t sl p p2 a m)" and "older d d'"
    and "commit_row_of d' (commit_hash_of s t sl p p2 a m) = Some (new_row s e uri t sl p p2 a m)"
    and "commit_row_of d h \<noteq> None \<or> h = commit_hash_of s t sl p p2 a m \<longleftrightarrow> commit_row_of d' h \<noteq> None"
proof -
  obtain r where "commitTx s e uri branch t sl p p2 a m d = (r, d')" "\<exists>v. r = Inr v"
    using assms(1) by (cases "commitTx s e uri branch t sl p p2 a m d") (auto simp: returned_eq split: sum.splits)
  then have d': "d' = move_branch uri branch (commit_hash_of s t sl p p2 a m)
       (served_row s e t sl (Hash (sha s) t sl)) (insert_commit (new_row s e uri t sl p p2 a m) d)"
    by (auto elim: commitTx_cases)
  then show "map_of (refs d') (uri, branch) = Some (commit_hash_of s t sl p p2 a m)" "older d d'" by simp_all
  show "commit_row_of d' (commit_hash_of s t sl p p2 a m) = Some (new_row s e uri t sl p p2 a m)"
    using commit_row_insert_new [of d "new_row s e uri t sl p p2 a m"] assms(2) d' by simp
  show "commit_row_of d h \<noteq> None \<or> h = commit_hash_of s t sl p p2 a m \<longleftrightarrow> commit_row_of d' h \<noteq> None"
    using hashes_row [of h d'] hashes_row [of h d] hashes_insert_commit [of "new_row s e uri t sl p p2 a m" d]
    unfolding d' by auto
qed

lemma mainline_rows: "mainline s e d h cs \<Longrightarrow> c \<in> set cs \<Longrightarrow> commit_row_of d (c_Hash c) \<noteq> None"
  by (induction cs arbitrary: h) (auto elim!: GetCommit_Inr)

text \<open>The tip a commit reads, and the history it stands for.\<close>

lemma tip_history:
  assumes "wf_db d" and "\<And>q. \<not> fails e q"
    and "if map_of (refs d) (uri, branch) = None then old = [] else Log s e d uri branch = Some (Inr old)"
  shows "mainline s e d (null_string (map_of (refs d) (uri, branch))) old"
  using assms by (cases "map_of (refs d) (uri, branch)") (auto simp: null_string_def Log_iff tip_def)

text \<open>C11: of two commits on a branch that run at the same time one can be lost. When both read the tip
  before either writes, both report success; afterwards the history of the branch is the second
  commit and the old history, the first is in no history of the branch, though it can still be read
  by its hash.\<close>

theorem concurrent_commits_lose_one:
  assumes "reachable s d" and "sha_ok s" and "env_ok s e1" and "env_ok s e2" and "\<And>q. \<not> fails e q"
    and "list_all valid_utf8 sl1" and "list_all valid_utf8 sl2"
    and "if map_of (refs d) (uri, branch) = None then old = [] else Log s e d uri branch = Some (Inr old)"
    and "p = null_string (map_of (refs d) (uri, branch))"
    and "h1 = commit_hash_of s t1 sl1 p [] a1 m1" and "h2 = commit_hash_of s t2 sl2 p [] a2 m2" and "h1 \<noteq> h2"
    and "commit_row_of d h1 = None" and "commit_row_of d h2 = None"
    and "task_step s e (CommitTip uri branch t1 sl1 a1 m1) d = (x1, d)"
    and "task_step s e (CommitTip uri branch t2 sl2 a2 m2) d = (x2, d)"
    and "task_step s e1 x1 d = (Returned None, d1)" and "task_step s e2 x2 d1 = (Returned None, d2)"
  shows "(\<exists>c. Log s e d2 uri branch = Some (Inr (c # old)) \<and> c_Hash c = h2 \<and> h1 \<notin> c_Hash ` set (c # old))
    \<and> (\<exists>c. GetCommit s e d2 h1 = Inr c \<and> c_Template c = t1)"
proof -
  have wf: "wf_db d" using assms(1,2) by (rule reachable_wf)
  have x: "x1 = WriteTx uri branch t1 sl1 p [] a1 m1" "x2 = WriteTx uri branch t2 sl2 p [] a2 m2"
    using assms(5,9,15,16) by (auto simp: tip_def null_string_def split: option.splits)
  note one = write_new_commit [OF assms(17) [unfolded x(1)] assms(13) [unfolded assms(10)], folded assms(10)]
  have new2: "commit_row_of d1 h2 = None" using one(4) [of h2] assms(12,14) by auto
  note two = write_new_commit [OF assms(18) [unfolded x(2)] new2 [unfolded assms(11)], folded assms(11)]
  have "mainline s e d p old" using tip_history [OF wf assms(5,8)] assms(9) by simp
  have "older d d2" using one(2) two(2) by (rule older_trans)
  with \<open>mainline s e d p old\<close> have old: "mainline s e d2 p old"
    by (intro mainline_newer [of d d2]) (simp_all add: older_def)
  have not_old: "h1 \<notin> c_Hash ` set old"
    using mainline_rows [OF \<open>mainline s e d p old\<close>] assms(13) by (metis imageE)
  obtain c where c: "GetCommit s e d2 h2 = Inr c" "c_Hash c = h2" "c_Parent c = p"
    using GetCommit_served [OF two(3) row_content_new [OF assms(4,7)], of e] assms(5) by auto
  have "commit_row_of d2 h1 = Some (new_row s e1 uri t1 sl1 p [] a1 m1)"
    using one(3) two(2) by (simp add: older_def)
  from GetCommit_served [OF this row_content_new [OF assms(3,6)], of e] assms(5)
  have "\<exists>c. GetCommit s e d2 h1 = Inr c \<and> c_Template c = t1" by metis
  moreover have "h2 \<noteq> []" using commit_hash_nonempty [OF assms(2)] assms(11) by simp
  then have "mainline s e d2 h2 (c # old)" using c old by simp
  then have "Log s e d2 uri branch = Some (Inr (c # old))" using Log_tip two(1) assms(5) by blast
  ultimately show ?thesis using c(2) not_old assms(12) by auto
qed

theorem concurrent_commits_lose_one_witness:
  "\<exists>d1 d2 h1 c. task_step demo calm (WriteTx demo_uri ''main'' ''Hi {n}'' [''n''] [] [] ''acme'' ''first'') empty_db = (Returned None, d1)
    \<and> task_step demo calm (WriteTx demo_uri ''main'' ''Bye'' [] [] [] ''acme'' ''second'') d1 = (Returned None, d2)
    \<and> Log demo calm d2 demo_uri ''main'' = Some (Inr [c]) \<and> c_Hash c \<noteq> h1
    \<and> (\<exists>c1. GetCommit demo calm d2 h1 = Inr c1 \<and> c_Template c1 = ''Hi {n}'')"
proof -
  let ?h1 = "commit_hash_of demo ''Hi {n}'' [''n''] [] [] ''acme'' ''first''"
  let ?h2 = "commit_hash_of demo ''Bye'' [] [] [] ''acme'' ''second''"
  have ne: "?h1 \<noteq> ?h2"
    by (simp add: commit_hash_of_def CommitHash_alt EncodeToString_inj commit_input_def demo_def demo_sha_def)
  have none: "commit_row_of empty_db h = None" and no_branch: "map_of (refs empty_db) k = None" for h k
    by (simp_all add: commit_row_of_def empty_db_def)
  have ok: "list_all valid_utf8 [''n'']" "list_all valid_utf8 []" by simp_all
  have read: "task_step demo calm (CommitTip demo_uri ''main'' t sl a m) empty_db = (WriteTx demo_uri ''main'' t sl [] [] a m, empty_db)" for t sl a m
    by (simp add: tip_def no_branch)
  have wrote: "\<exists>d'. task_step demo calm (WriteTx demo_uri ''main'' t sl [] [] a m) d = (Returned None, d')" for t sl a m d
    by (simp add: commitTx_def Let_def transaction_def stmt_def returned_eq)
  obtain d1 where d1: "task_step demo calm (WriteTx demo_uri ''main'' ''Hi {n}'' [''n''] [] [] ''acme'' ''first'') empty_db = (Returned None, d1)"
    using wrote by blast
  obtain d2 where d2: "task_step demo calm (WriteTx demo_uri ''main'' ''Bye'' [] [] [] ''acme'' ''second'') d1 = (Returned None, d2)"
    using wrote by blast
  have p: "[] = null_string (map_of (refs empty_db) (demo_uri, ''main''))" by (simp add: no_branch null_string_def)
  have old: "if map_of (refs empty_db) (demo_uri, ''main'') = None then [] = ([] :: commit list)
      else Log demo calm empty_db demo_uri ''main'' = Some (Inr [])" by (simp add: no_branch)
  from concurrent_commits_lose_one [OF reachable.start demo_ok(1,2,2,3) ok old p refl refl ne none none read read d1 d2]
  obtain c where "Log demo calm d2 demo_uri ''main'' = Some (Inr [c])" "?h1 \<notin> c_Hash ` set [c]"
    "\<exists>c1. GetCommit demo calm d2 ?h1 = Inr c1 \<and> c_Template c1 = ''Hi {n}''" by blast
  then have "Log demo calm d2 demo_uri ''main'' = Some (Inr [c]) \<and> c_Hash c \<noteq> ?h1
    \<and> (\<exists>c1. GetCommit demo calm d2 ?h1 = Inr c1 \<and> c_Template c1 = ''Hi {n}'')" by simp
  then show ?thesis by (intro exI [of _ d1] exI [of _ d2] exI [of _ ?h1] exI [of _ c] conjI [OF d1] conjI [OF d2])
qed

end
