(* ===== verification/ServerConc.thy ===== *)
theory ServerConc
  imports ServerSafe StoreConc
begin

text \<open>
  Requests that a server handles at the same time. \<open>flight\<close> is a \<open>GetPrompt\<close> of the head or a
  \<open>PublishPrompt\<close> on its way, \<open>call_step\<close> its next access to the cache, the database or the notifier;
  a call that nothing interrupts is the handler of \<open>Server\<close> (\<open>call_alone\<close>). \<open>live\<close> are the worlds that
  any interleaving reaches of such calls, of the other requests, of other nodes' writes and of the
  statements of merges and rollbacks. A read never answers with what was not served, and its answer
  is at most as old as the cache allows; but it may be older than a publish that was acknowledged before it.
\<close>

subsection \<open>Calls on their way\<close>

datatype flight =
    Lookup string
  | Load string
  | Fill string get_resp
  | Judge string string string "string list" string string
  | Storing string string string bool task
  | Drop string string string
  | Tell string string string
  | Answered "response outcome"

text \<open>The guards before the first access.\<close>

definition past_guard :: "(code \<times> detail) option \<Rightarrow> flight \<Rightarrow> flight" where
  "past_guard g x = (case g of Some (c, d) \<Rightarrow> Answered (Fail c d) | None \<Rightarrow> x)"

fun call_of :: "ctx \<Rightarrow> request \<Rightarrow> flight option" where
  "call_of c (GetPromptRequest uri ref) =
     (if ref \<noteq> [] then None else Some (past_guard (authorize c uri) (Lookup uri)))"
| "call_of c (PublishPromptRequest uri template slots message branch) =
     Some (past_guard (authorize c uri) (past_guard (requireWrite c)
       (past_guard (map_option (\<lambda>v. (InvalidArgument, FmtInvalid ''invalid prompt: %v'' v))
                   (validate_Prompt uri template slots))
         (Judge uri (branchOr branch) template slots (scopeOf c) message))))"
| "call_of c _ = None"

text \<open>\<open>Judge\<close> is the read of the served prompt and what follows from it: only the embedder is asked
  behind it.\<close>

fun call_step :: "'c server \<Rightarrow> env \<Rightarrow> flight \<Rightarrow> 'c world \<Rightarrow> flight \<times> 'c world" where
  "call_step srv e (Lookup uri) w =
     ((case CGet (srv_cache srv) (now e) uri (w_cache w) of
         Some resp \<Rightarrow> Answered (Reply (GetPromptResponse resp)) | None \<Rightarrow> Load uri), w)"
| "call_step srv e (Load uri) w =
     ((case Get (srv_store srv) e (w_db w) uri of
         Inl er \<Rightarrow> Answered (if er = ErrNotFound then Fail NotFound (Fmt ''prompt %q not found'' [uri])
           else Fail Internal (FmtStore ''lookup failed: %v'' er))
       | Inr p \<Rightarrow>
           (case validate_Prompt (URI p) (Template p) (Slots p) of
              Some v \<Rightarrow> Answered (Fail DataLoss (FmtInvalid ''stored prompt invalid: %v'' v))
            | None \<Rightarrow> Fill uri \<lparr>g_Uri = URI p, g_Template = Template p, g_Slots = Slots p,
                g_VersionHash = VersionHash p, g_CommitHash = []\<rparr>)), w)"
| "call_step srv e (Fill uri resp) w =
     (Answered (Reply (GetPromptResponse resp)), w\<lparr>w_cache := CPut (srv_cache srv) (now e) uri resp (w_cache w)\<rparr>)"
| "call_step srv e (Judge uri b template slots author message) w =
     (let hash = Hash (sha (srv_store srv)) template slots;
          onMain = (b = DefaultBranch)
      in case (if onMain then judge_prev srv e uri template hash w else (Publish [], w)) of
           (Unchanged, w1) \<Rightarrow> (Answered (Reply (PublishPromptResponse hash)), w1)
         | (Panicked, w1) \<Rightarrow> (Answered Panic, w1)
         | (Publish class, w1) \<Rightarrow> (Storing uri hash class onMain (CommitTip uri b template slots author message), w1))"
| "call_step srv e (Storing uri hash class onMain t) w =
     (case task_step (srv_store srv) e t (w_db w) of (t', d) \<Rightarrow>
        ((case t' of
            Returned (Some er) \<Rightarrow> Answered (Fail Internal (FmtStore ''store failed: %v'' er))
          | Returned None \<Rightarrow> if onMain then Drop uri hash class else Answered (Reply (PublishPromptResponse hash))
          | _ \<Rightarrow> Storing uri hash class onMain t'), w\<lparr>w_db := d\<rparr>))"
| "call_step srv e (Drop uri hash class) w = (Tell uri hash class, invalidate srv e uri w)"
| "call_step srv e (Tell uri hash class) w = (Answered (Reply (PublishPromptResponse hash)), notify srv uri hash class w)"
| "call_step srv e (Answered x) w = (Answered x, w)"

text \<open>A publish, the longest call, has five steps.\<close>

fun call_run :: "nat \<Rightarrow> 'c server \<Rightarrow> env \<Rightarrow> flight \<Rightarrow> 'c world \<Rightarrow> flight \<times> 'c world" where
  "call_run 0 srv e x w = (x, w)"
| "call_run (Suc n) srv e x w = (case call_step srv e x w of (x', w') \<Rightarrow> call_run n srv e x' w')"

lemma call_run_Answered [simp]: "call_run n srv e (Answered x) w = (Answered x, w)"
  by (induction n) simp_all

lemma call_run_numeral [simp]:
  "call_run (numeral k) srv e x w = (case call_step srv e x w of (x', w') \<Rightarrow> call_run (pred_numeral k) srv e x' w')"
  by (simp add: numeral_eq_Suc)

lemma judge_alone:
  "call_run 5 srv e (Judge uri b t sl a m) w =
     (case (let hash = Hash (sha (srv_store srv)) t sl; onMain = (b = DefaultBranch)
       in case (if onMain then judge_prev srv e uri t hash w else (Publish [], w)) of
          (Unchanged, w1) \<Rightarrow> (Reply hash, w1) | (Panicked, w1) \<Rightarrow> (Panic, w1)
        | (Publish class, w1) \<Rightarrow>
            (case Commit (srv_store srv) e uri b t sl a m (w_db w1) of
               (Inl er, d) \<Rightarrow> (Fail Internal (FmtStore ''store failed: %v'' er), w1\<lparr>w_db := d\<rparr>)
             | (Inr _, d) \<Rightarrow>
                 let w2 = w1\<lparr>w_db := d\<rparr>
                 in (Reply hash, if onMain then notify srv uri hash class (invalidate srv e uri w2) else w2)))
      of (x, w') \<Rightarrow> (Answered (map_reply PublishPromptResponse x), w'))"
proof -
  define hash where "hash = Hash (sha (srv_store srv)) t sl"
  define onMain where "onMain = (b = DefaultBranch)"
  obtain v w1 where j: "(if onMain then judge_prev srv e uri t hash w else (Publish [], w)) = (v, w1)"
    by fastforce
  show ?thesis
  proof (cases v)
    case (Publish cls)
    show ?thesis
      unfolding call_step.simps call_run_numeral hash_def [symmetric] onMain_def [symmetric]
        Let_def j Publish
      by (simp add: Commit_def returned_def err_of_def split: sum.splits prod.splits)
  qed (simp_all add: hash_def [symmetric] onMain_def [symmetric] Let_def j)
qed

lemma guard_passed: "g = None \<Longrightarrow> guard g k w = k w"
  by (simp add: guard_def)

lemma answered_reply:
  "(case reply f y of (x, w') \<Rightarrow> (Answered x, w')) = (case y of (x, w') \<Rightarrow> (Answered (map_reply f x), w'))"
  by (simp add: reply_def split: prod.splits)

lemma call_alone:
  assumes "call_of c r = Some x"
  shows "call_run 5 srv e x w = (case dispatch srv c e r w of (y, w') \<Rightarrow> (Answered y, w'))"
proof (cases r)
  case (GetPromptRequest uri ref)
  with assms show ?thesis
    by (auto simp: GetPrompt_def guard_def past_guard_def reply_def Let_def split: if_splits option.splits sum.splits)
next
  case (PublishPromptRequest uri t sl m branch)
  show ?thesis
  proof (cases "authorize c uri = None \<and> requireWrite c = None \<and> validate_Prompt uri t sl = None")
    case True
    with assms PublishPromptRequest have x: "x = Judge uri (branchOr branch) t sl (scopeOf c) m"
      by (simp add: past_guard_def)
    from True have "authorize c uri = None" "requireWrite c = None"
      "map_option (\<lambda>v. (InvalidArgument, FmtInvalid ''invalid prompt: %v'' v)) (validate_Prompt uri t sl) = None" by simp_all
    note guards = this [THEN guard_passed]
    show ?thesis
      unfolding x PublishPromptRequest dispatch.simps PublishPrompt_def guards judge_alone answered_reply
      by (simp only: Let_def)
  next
    case False
    with assms PublishPromptRequest show ?thesis
      by (auto simp: past_guard_def guard_def PublishPrompt_def answered_reply split: option.splits)
  qed
qed (use assms in simp_all)

subsection \<open>Interleavings\<close>

text \<open>
  \<open>live srv k \<delta> H w cs\<close>: from a cache \<open>k\<close>, the world \<open>w\<close> and the calls \<open>cs\<close>, each with its request and the
  instant it last moved; \<open>H\<close> are the databases there have been, latest first, with their instants. No
  read waits longer than \<open>\<delta>\<close> between its read of the database and the write of the cache.
\<close>

inductive live :: "'c server \<Rightarrow> 'c \<Rightarrow> int \<Rightarrow> (int \<times> db) list \<Rightarrow> 'c world \<Rightarrow> (request \<times> flight \<times> int) list \<Rightarrow> bool"
  for srv k \<delta> where
  live_start: "live srv k \<delta> [(t, d)] (boot d k) []"
| live_call: "live srv k \<delta> ((t, d) # H) w cs \<Longrightarrow> call_of c r = Some x \<Longrightarrow> live srv k \<delta> ((t, d) # H) w (cs @ [(r, x, t)])"
| live_step: "live srv k \<delta> ((t, d) # H) w cs \<Longrightarrow> i < length cs \<Longrightarrow> cs ! i = (r, x, t0) \<Longrightarrow> (\<And>a. x \<noteq> Answered a) \<Longrightarrow> t \<le> now e \<Longrightarrow>
    (\<And>uri y. x = Fill uri y \<Longrightarrow> now e \<le> t0 + \<delta>) \<Longrightarrow> call_step srv e x w = (x', w') \<Longrightarrow>
    live srv k \<delta> ((now e, w_db w') # (t, d) # H) w' (cs[i := (r, x', now e)])"
| live_request: "live srv k \<delta> ((t, d) # H) w cs \<Longrightarrow> t \<le> now e \<Longrightarrow> dispatch srv c e r w = (x, w') \<Longrightarrow>
    live srv k \<delta> ((now e, w_db w') # (t, d) # H) w' cs"
| live_other: "live srv k \<delta> ((t, d) # H) w cs \<Longrightarrow> t \<le> t' \<Longrightarrow>
    live srv k \<delta> ((t', d') # (t, d) # H) (w\<lparr>w_db := d'\<rparr>) cs"
| live_drop: "live srv k \<delta> H w cs \<Longrightarrow> live srv k \<delta> H (w\<lparr>w_cache := CInvalidate (srv_cache srv) t uri (w_cache w)\<rparr>) cs"

inductive_cases live_stepE: "live srv k \<delta> H w cs"

text \<open>\<open>y\<close> is valid and was the head of \<open>uri\<close> at an instant from \<open>a\<close> on.\<close>

definition served_since :: "store \<Rightarrow> (int \<times> db) list \<Rightarrow> int \<Rightarrow> string \<Rightarrow> get_resp \<Rightarrow> bool" where
  "served_since s H a uri y \<longleftrightarrow> valid_resp uri y \<and> (\<exists>(t, d) \<in> set H. a \<le> t \<and> head_resp s d uri = Some y)"

lemma served_since_Cons: "served_since s H a uri y \<Longrightarrow> served_since s (x # H) a uri y"
  by (auto simp: served_since_def)

lemma served_since_earlier: "served_since s H a uri y \<Longrightarrow> b \<le> a \<Longrightarrow> served_since s H b uri y"
  unfolding served_since_def by (auto intro: order_trans)

text \<open>And no later than at \<open>b\<close>.\<close>

definition served_between :: "store \<Rightarrow> (int \<times> db) list \<Rightarrow> int \<Rightarrow> int \<Rightarrow> string \<Rightarrow> get_resp \<Rightarrow> bool" where
  "served_between s H a b uri y \<longleftrightarrow>
     valid_resp uri y \<and> (\<exists>(t, d) \<in> set H. a \<le> t \<and> t \<le> b \<and> head_resp s d uri = Some y)"

lemma served_between_Cons: "served_between s H a b uri y \<Longrightarrow> served_between s (x # H) a b uri y"
  by (auto simp: served_between_def)

lemma served_since_between:
  "served_since s H a uri y \<Longrightarrow> \<forall>q \<in> set H. fst q \<le> b \<Longrightarrow> served_between s (x # H) a b uri y"
  by (fastforce simp: served_since_def served_between_def)

text \<open>What holds of a call that last moved at \<open>t\<close>; \<open>n\<close> is \<open>\<delta> + ttl\<close>.\<close>

fun call_ok :: "store \<Rightarrow> int \<Rightarrow> (int \<times> db) list \<Rightarrow> request \<times> flight \<times> int \<Rightarrow> bool" where
  "call_ok s n H (r, Lookup uri, t) = (uri = uriOf r)"
| "call_ok s n H (r, Load uri, t) = (uri = uriOf r)"
| "call_ok s n H (r, Fill uri y, t) = (uri = uriOf r \<and> served_since s H t uri y)"
| "call_ok s n H (r, Answered (Reply (GetPromptResponse y)), t) = served_between s H (t - n) t (uriOf r) y"
| "call_ok s n H _ = True"

lemma call_ok_Cons: "call_ok s n H q \<Longrightarrow> call_ok s n (x # H) q"
  by (induction s n H q rule: call_ok.induct) (auto intro: served_since_Cons served_between_Cons)

lemma call_of_ok: "call_of c r = Some x \<Longrightarrow> call_ok s n H (r, x, t)"
  by (cases r) (auto simp: past_guard_def split: option.splits if_splits)

lemma Load_fills:
  assumes "call_step srv e (Load uri) w = (Fill u y, w')"
  shows "u = uri \<and> w' = w \<and> head_resp (srv_store srv) (w_db w) uri = Some y \<and> valid_resp uri y"
proof -
  obtain p where p: "Get (srv_store srv) e (w_db w) uri = Inr p"
    using assms by (cases "Get (srv_store srv) e (w_db w) uri") simp_all
  then have v: "validate_Prompt (URI p) (Template p) (Slots p) = None"
    using assms by (cases "validate_Prompt (URI p) (Template p) (Slots p)") simp_all
  with p assms have y: "u = uri" "w' = w" "y = \<lparr>g_Uri = URI p, g_Template = Template p, g_Slots = Slots p,
      g_VersionHash = VersionHash p, g_CommitHash = []\<rparr>" by simp_all
  from Get_head_resp [OF p] v y show ?thesis by (simp add: valid_resp_def validate_None_iff)
qed

context expiring_cache
begin

text \<open>The cached entries.\<close>

definition entries_ok :: "store \<Rightarrow> int \<Rightarrow> (int \<times> db) list \<Rightarrow> 'c \<Rightarrow> bool" where
  "entries_ok s \<delta> H c \<longleftrightarrow> (\<forall>(u, y, x) \<in> timed c. \<exists>z. x = Some z \<and> served_since s H (z - (\<delta> + ttl)) u y)"

lemma entries_ok_Cons: "entries_ok s \<delta> H c \<Longrightarrow> entries_ok s \<delta> (x # H) c"
  unfolding entries_ok_def using served_since_Cons by fast

lemma entries_ok_put:
  assumes "entries_ok s \<delta> H c" and "served_since s H (t - \<delta>) uri y"
  shows "entries_ok s \<delta> H (CPut ops t uri y c)"
  using assms unfolding entries_ok_def by (intro timed_inv_put) simp_all

lemma entries_ok_invalidate: "entries_ok s \<delta> H c \<Longrightarrow> entries_ok s \<delta> H (CInvalidate ops t uri c)"
  unfolding entries_ok_def by (rule timed_inv_invalidate)

lemma entries_ok_hit:
  assumes "entries_ok s \<delta> H c" and "CGet ops t uri c = Some y"
  shows "served_since s H (t - (\<delta> + ttl)) uri y"
proof -
  obtain x where "(uri, y, x) \<in> timed c" "alive t x" using get_timed [OF assms(2)] by blast
  with assms(1) obtain z where "served_since s H (z - (\<delta> + ttl)) uri y" "t \<le> z" unfolding entries_ok_def by fastforce
  then show ?thesis by (simp add: served_since_earlier)
qed

lemma entries_ok_dispatch:
  assumes "entries_ok s \<delta> H (w_cache w)" and "0 \<le> \<delta>" and "srv_cache srv = ops" and "srv_store srv = s"
    and "dispatch srv c e r w = (x, w')"
  shows "entries_ok s \<delta> ((now e, w_db w') # H) (w_cache w')"
proof (cases "writes r")
  case True
  from write_effect [OF assms(5) True] assms(3)
  have "w_cache w' = w_cache w \<or> w_cache w' = CInvalidate ops (now e) (uriOf r) (w_cache w)"
    by (auto simp: idle_def ran_def)
  with entries_ok_Cons [OF assms(1)] entries_ok_invalidate [OF entries_ok_Cons [OF assms(1)]] show ?thesis by metis
next
  case False
  have db: "w_db w' = w_db w" using read_db [OF False] assms(5) by (metis snd_conv)
  from assms(5) False show ?thesis
  proof (cases rule: read_cache_cases)
    case 1
    with entries_ok_Cons [OF assms(1)] show ?thesis by simp
  next
    case (2 u y)
    then have "served_since s ((now e, w_db w') # H) (now e - \<delta>) u y" using assms(2,4) by (simp add: served_since_def db)
    with 2 entries_ok_put [OF entries_ok_Cons [OF assms(1)]] assms(3) show ?thesis by simp
  qed
qed

lemma call_step_ok:
  assumes "entries_ok s \<delta> H (w_cache w)" and "call_ok s (\<delta> + ttl) H (r, x, t0)" and "0 \<le> \<delta>" and "0 \<le> ttl"
    and "srv_cache srv = ops" and "srv_store srv = s" and "\<And>a. x \<noteq> Answered a" and "\<And>uri y. x = Fill uri y \<Longrightarrow> now e \<le> t0 + \<delta>"
    and "call_step srv e x w = (x', w')" and "\<forall>q \<in> set H. fst q \<le> now e"
  shows "entries_ok s \<delta> ((now e, w_db w') # H) (w_cache w') \<and> call_ok s (\<delta> + ttl) ((now e, w_db w') # H) (r, x', now e)"
proof -
  note cache = entries_ok_Cons [OF assms(1)]
  show ?thesis
  proof (cases x)
    case (Lookup uri)
    show ?thesis
    proof (cases "CGet ops (now e) uri (w_cache w)")
      case (Some y)
      with Lookup assms(2,5,9) cache served_since_between [OF entries_ok_hit [OF assms(1) Some] assms(10)] show ?thesis by auto
    qed (use Lookup assms(2,5,9) cache in auto)
  next
    case (Load uri)
    show ?thesis
    proof (cases "\<exists>u y. x' = Fill u y")
      case True
      then obtain u y where y: "x' = Fill u y" by blast
      with Load_fills assms(9) Load
      have "u = uri" "w' = w" "head_resp (srv_store srv) (w_db w) uri = Some y" "valid_resp uri y" by blast+
      with y cache assms(2,6) Load show ?thesis by (auto simp: served_since_def)
    next
      case False
      with assms(9) Load cache show ?thesis by (auto split: sum.splits option.splits)
    qed
  next
    case (Fill uri y)
    with assms(2,8) have y: "served_since s H (now e - \<delta>) uri y" "uri = uriOf r" by (auto intro: served_since_earlier)
    with assms(4) have "served_since s H (now e - (\<delta> + ttl)) uri y" by (auto intro: served_since_earlier)
    with y Fill assms(5,9) entries_ok_put [OF cache served_since_Cons] served_since_between [OF _ assms(10)] show ?thesis by auto
  next
    case (Judge uri b t sl a m)
    with assms(9) have "w_cache w' = w_cache w" using judge_prev_frame
      by (auto simp: Let_def split: prod.splits prev_verdict.splits if_splits)
    with Judge assms(9) cache show ?thesis by (auto simp: Let_def split: prod.splits prev_verdict.splits)
  next
    case (Storing uri hash cls onMain t)
    with assms(9) cache show ?thesis
      by (auto split: prod.splits task.splits option.splits if_splits)
  next
    case (Drop uri hash cls)
    with assms(5,9) cache entries_ok_invalidate show ?thesis by (auto simp: invalidate_def)
  next
    case (Tell uri hash cls)
    with assms(9) cache show ?thesis by (auto simp: notify_def)
  next
    case (Answered y)
    with assms(7) show ?thesis by blast
  qed
qed

lemma live_ok:
  assumes "live srv k \<delta> H w cs" and "srv_cache srv = ops" and "timed k = {}" and "0 \<le> \<delta>" and "0 \<le> ttl"
  shows "entries_ok (srv_store srv) \<delta> H (w_cache w) \<and> list_all (call_ok (srv_store srv) (\<delta> + ttl) H) cs
    \<and> (\<forall>q \<in> set H. fst q \<le> fst (hd H))"
  using assms(1)
proof induction
  case (live_start t d)
  then show ?case using assms(3) by (simp add: entries_ok_def)
next
  case (live_call t d H w cs c r x)
  then show ?case using call_of_ok by simp
next
  case (live_step t d H w cs i r x t0 e x' w')
  have "call_ok (srv_store srv) (\<delta> + ttl) ((t, d) # H) (r, x, t0)"
    using live_step.IH live_step.hyps(2,3) by (metis list_all_length)
  from call_step_ok [OF live_step.IH [THEN conjunct1] this assms(4,5,2) refl live_step.hyps(4,6,7)] live_step.IH live_step.hyps(5)
  have new: "entries_ok (srv_store srv) \<delta> ((now e, w_db w') # (t, d) # H) (w_cache w')"
    "call_ok (srv_store srv) (\<delta> + ttl) ((now e, w_db w') # (t, d) # H) (r, x', now e)" by fastforce+
  have "list_all (call_ok (srv_store srv) (\<delta> + ttl) ((now e, w_db w') # (t, d) # H)) cs"
    using live_step.IH call_ok_Cons by (simp add: list_all_iff)
  with new have "list_all (call_ok (srv_store srv) (\<delta> + ttl) ((now e, w_db w') # (t, d) # H)) (cs[i := (r, x', now e)])"
    by (auto simp: list_all_length nth_list_update live_step.hyps(2))
  with new live_step.IH live_step.hyps(5) show ?case by fastforce
next
  case (live_request t d H w cs e c r x w')
  with entries_ok_dispatch [OF _ assms(4,2) refl live_request.hyps(3)] call_ok_Cons show ?case by (fastforce simp: list_all_iff)
next
  case (live_other t d H w cs t' d')
  with entries_ok_Cons call_ok_Cons show ?case by (fastforce simp: list_all_iff)
next
  case (live_drop H w cs t uri)
  with entries_ok_invalidate assms(2) show ?case by simp
qed

end

subsection \<open>What readers may rely on\<close>

text \<open>C7: bounded staleness under concurrency. However reads and publishes interleave, with each
  other, with other requests and with the writes of other nodes, a read of the head that is answered
  at \<open>t\<close> hands out a valid prompt of the URI asked for that was the served one, as a whole, at an
  instant no later than \<open>t\<close> and no earlier than \<open>t - (\<delta> + ttl)\<close>, where \<open>\<delta>\<close> is the longest time a
  read takes from the database to the cache.\<close>

theorem reads_are_boundedly_stale:
  assumes "expiring_cache ops timed ttl" and "srv_cache srv = ops" and "timed k = {}" and "0 \<le> ttl" and "0 \<le> \<delta>"
    and "live srv k \<delta> H w cs" and "(GetPromptRequest uri [], Answered (Reply (GetPromptResponse y)), t) \<in> set cs"
  shows "g_Uri y = uri \<and> validate_Prompt uri (g_Template y) (g_Slots y) = None
    \<and> (\<exists>(t', d) \<in> set H. t - (\<delta> + ttl) \<le> t' \<and> t' \<le> t \<and> head_resp (srv_store srv) d uri = Some y)"
proof -
  have "list_all (call_ok (srv_store srv) (\<delta> + ttl) H) cs"
    using expiring_cache.live_ok [OF assms(1,6,2,3,5,4)] by blast
  with assms(7) have "served_between (srv_store srv) H (t - (\<delta> + ttl)) t uri y" by (fastforce simp: list_all_iff)
  then show ?thesis by (auto simp: served_between_def valid_resp_def validate_None_iff)
qed

lemma demo_Load: "call_step (demo_srv ops) calm (Load demo_uri) (boot demo_db k) = (Fill demo_uri demo_resp, boot demo_db k)"
  by (simp add: demo_Get demo_valid demo_resp_def)

theorem reads_are_boundedly_stale_witness:
  "\<exists>H w cs. live (demo_srv (ttl_ops 5)) [] 3 H w cs \<and> w_db w = empty_db
    \<and> (GetPromptRequest demo_uri [], Answered (Reply (GetPromptResponse demo_resp)), 2) \<in> set cs
    \<and> (\<exists>(t', d) \<in> set H. - 6 \<le> t' \<and> t' \<le> 2 \<and> head_resp demo d demo_uri = Some demo_resp)"
proof -
  let ?srv = "demo_srv (ttl_ops 5)" and ?r = "GetPromptRequest demo_uri []" and ?e = "calm\<lparr>now := 2\<rparr>"
  have zero: "now calm = 0" by (simp add: calm_def)
  have miss: "call_step ?srv calm (Lookup demo_uri) (boot demo_db []) = (Load demo_uri, boot demo_db [])"
    by (simp add: ttl_ops_def ttl_Get_def)
  have "live ?srv [] 3 [(0, demo_db)] (boot demo_db []) []" by (rule live_start)
  from live_call [OF this, of no_ctx ?r] have "live ?srv [] 3 [(0, demo_db)] (boot demo_db []) [(?r, Lookup demo_uri, 0)]"
    by (simp add: past_guard_def)
  from live_step [OF this, of 0 _ _ _ calm] miss zero
  have "live ?srv [] 3 [(0, demo_db), (0, demo_db)] (boot demo_db []) [(?r, Load demo_uri, 0)]" by simp
  from live_step [OF this, of 0 _ _ _ calm] demo_Load [of "ttl_ops 5" "[]"] zero
  have "live ?srv [] 3 [(0, demo_db), (0, demo_db), (0, demo_db)] (boot demo_db []) [(?r, Fill demo_uri demo_resp, 0)]" by simp
  from live_other [OF this, of 1 empty_db]
  have "live ?srv [] 3 [(1, empty_db), (0, demo_db), (0, demo_db), (0, demo_db)] ((boot demo_db [])\<lparr>w_db := empty_db\<rparr>)
    [(?r, Fill demo_uri demo_resp, 0)]" by simp
  from live_step [OF this, of 0 _ _ _ ?e]
  have l: "live ?srv [] 3 [(2, empty_db), (1, empty_db), (0, demo_db), (0, demo_db), (0, demo_db)]
      ((boot demo_db [])\<lparr>w_db := empty_db, w_cache := CPut (ttl_ops 5) 2 demo_uri demo_resp []\<rparr>)
      [(?r, Answered (Reply (GetPromptResponse demo_resp)), 2)]" by simp
  have "ttl_timed [] = {}" by (simp add: ttl_timed_def)
  from reads_are_boundedly_stale [OF ttl_x.expiring_cache_axioms demo_srv_simps(2) this _ _ l, of demo_uri demo_resp 2]
  have "\<exists>(t', d) \<in> set [(2, empty_db), (1, empty_db), (0, demo_db), (0, demo_db), (0, demo_db)].
      - 6 \<le> (t' :: int) \<and> t' \<le> 2 \<and> head_resp demo d demo_uri = Some demo_resp" by simp
  with l show ?thesis by (intro exI conjI) (assumption | simp)+
qed

subsection \<open>What they may not\<close>

text \<open>C18: a slow read can undo the invalidation of a publish. When a publish is stored and acknowledged
  between a read's look at the database and its write of the cache, every later read on this node
  answers with the version before the publish, for the whole time to live, though the database has the
  new one.\<close>

theorem slow_read_revives_old_version:
  assumes "srv_cache srv = ttl_ops ttl" and "env_ok (srv_store srv) e"
    and "call_step srv e1 (Load uri) w = (Fill uri y, w)"
    and "call_of c (PublishPromptRequest uri t sl m branch) = Some x" and "branchOr branch = ''main''"
    and "call_run 5 srv e x w = (Answered (Reply (PublishPromptResponse h)), w1)" and "g_VersionHash y \<noteq> h"
    and "call_step srv e2 (Fill uri y) w1 = (z, w2)"
    and "authorize c' uri = None" and "now e3 \<le> now e2 + ttl"
  shows "GetPrompt srv c' e3 uri [] w2 = (Reply y, w2)
    \<and> head_resp (srv_store srv) (w_db w2) uri = Some \<lparr>g_Uri = uri, g_Template = t, g_Slots = sl,
        g_VersionHash = h, g_CommitHash = []\<rparr>"
proof -
  have old: "head_resp (srv_store srv) (w_db w) uri = Some y" using Load_fills [OF assms(3)] by simp
  have w2: "w2 = w1\<lparr>w_cache := ttl_Put ttl (now e2) uri y (w_cache w1)\<rparr>" using assms(1,8) by (simp add: ttl_ops_def)
  have "PublishPrompt srv c e uri t sl m branch w = (Reply h, w1)"
    using assms(6) unfolding call_alone [OF assms(4)]
    by (cases "PublishPrompt srv c e uri t sl m branch w"; cases "fst (PublishPrompt srv c e uri t sl m branch w)")
      (simp_all add: reply_def)
  then have "head_resp (srv_store srv) (w_db w1) uri = Some \<lparr>g_Uri = uri, g_Template = t, g_Slots = sl,
        g_VersionHash = h, g_CommitHash = []\<rparr>"
  proof (cases rule: Publish_cases)
    case (same prev)
    with Get_head_resp [OF same(4)] old assms(7) show ?thesis by auto
  next
    case (stored k cls d)
    have "map_of (prompts d) uri = Some (served_row (srv_store srv) e t sl (Hash (sha (srv_store srv)) t sl))"
      using stored(5) by (cases rule: Commit_cases) (simp_all add: assms(5) DefaultBranch_def)
    moreover have "served_content (srv_store srv) (served_row (srv_store srv) e t sl (Hash (sha (srv_store srv)) t sl)) t sl"
      by (rule served_content_new [OF assms(2) slots_utf8 [OF stored(4)] refl])
    ultimately show ?thesis using head_resp_content stored(1,6) by simp
  qed simp_all
  then have "head_resp (srv_store srv) (w_db w2) uri = Some \<lparr>g_Uri = uri, g_Template = t, g_Slots = sl,
        g_VersionHash = h, g_CommitHash = []\<rparr>" by (simp add: w2)
  moreover have "GetPrompt srv c' e3 uri [] w2 = (Reply y, w2)"
    using assms(1,9,10) by (simp add: GetPrompt_def w2 ttl_ops_def ttl_put_get)
  ultimately show ?thesis by blast
qed

theorem slow_read_revives_old_version_witness:
  "\<exists>w1 w2 z. GetPrompt (demo_srv (ttl_ops 5)) no_ctx calm demo_uri [] w2 = (Reply demo_resp, w2)
    \<and> PublishPrompt (demo_srv (ttl_ops 5)) no_ctx calm demo_uri ''Bye'' [] [] [] (boot demo_db []) = (Reply (Hash demo_sha ''Bye'' []), w1)
    \<and> call_step (demo_srv (ttl_ops 5)) calm (Fill demo_uri demo_resp) w1 = (z, w2)"
proof -
  let ?srv = "demo_srv (ttl_ops 5)"
  have ne: "g_VersionHash demo_resp \<noteq> Hash demo_sha ''Bye'' []"
    by (simp add: demo_resp_def Hash_alt EncodeToString_inj hash_input_def demo_sha_def)
  have v: "validate_Prompt demo_uri ''Bye'' [] = None" unfolding demo_uri_def by code_simp
  have x: "call_of no_ctx (PublishPromptRequest demo_uri ''Bye'' [] [] []) = Some (Judge demo_uri ''main'' ''Bye'' [] ''anonymous'' [])"
    by (simp add: past_guard_def v branchOr_def DefaultBranch_def)
  obtain w1 where pub: "PublishPrompt ?srv no_ctx calm demo_uri ''Bye'' [] [] [] (boot demo_db []) = (Reply (Hash demo_sha ''Bye'' []), w1)"
    using ne by (auto simp: PublishPrompt_def v judge_prev_def branchOr_def DefaultBranch_def demo_Get sha_demo demo_resp_def
        classify_edit_def Commit_def tip_def demo_tip commitTx_def transaction_def stmt_def Let_def)
  have run: "call_run 5 ?srv calm (Judge demo_uri ''main'' ''Bye'' [] ''anonymous'' []) (boot demo_db [])
      = (Answered (Reply (PublishPromptResponse (Hash demo_sha ''Bye'' []))), w1)"
    unfolding call_alone [OF x] by (simp add: pub reply_def)
  have b: "branchOr [] = ''main''" by (simp add: branchOr_def DefaultBranch_def)
  obtain z w2 where fill: "call_step ?srv calm (Fill demo_uri demo_resp) w1 = (z, w2)" by fastforce
  have t: "now calm \<le> now calm + 5" by simp
  from slow_read_revives_old_version [OF demo_srv_simps(2) _ demo_Load x b run ne fill authorize_no_ctx(1) t] demo_ok(2) pub fill
  show ?thesis by auto
qed

text \<open>And notifications may arrive in the wrong order: of two publishes the one stored first may be the one
  announced last, and then the last thing a subscriber hears of is not what is served.\<close>

lemma last_notice_names_older_version:
  assumes "srv_notifier srv" and "h2 = Hash (sha (srv_store srv)) t2 sl2"
    and "call_step srv e1 (Storing uri h1 k1 True (WriteTx uri DefaultBranch t1 sl1 p1 [] a1 m1)) w = (Drop uri h1 k1, w1)"
    and "call_step srv e2 (Storing uri h2 k2 True (WriteTx uri DefaultBranch t2 sl2 p2 [] a2 m2)) w1 = (Drop uri h2 k2, w2)"
    and "call_run 2 srv e3 (Drop uri h2 k2) w2 = (z2, w3)" and "call_run 2 srv e4 (Drop uri h1 k1) w3 = (z1, w4)"
  shows "w_notes w4 = w_notes w @ [(uri, h2, k2), (uri, h1, k1)] \<and> head_version (w_db w4) uri = Some h2
    \<and> z1 = Answered (Reply (PublishPromptResponse h1)) \<and> z2 = Answered (Reply (PublishPromptResponse h2))"
proof -
  obtain er d where t: "task_step (srv_store srv) e2 (WriteTx uri DefaultBranch t2 sl2 p2 [] a2 m2) (w_db w1) = (Returned er, d)"
    by (cases "commitTx (srv_store srv) e2 uri DefaultBranch t2 sl2 p2 [] a2 m2 (w_db w1)") (simp add: returned_eq)
  with assms(4) have r: "er = None" "w2 = w1\<lparr>w_db := d\<rparr>" by (auto split: option.splits)
  obtain r where "commitTx (srv_store srv) e2 uri DefaultBranch t2 sl2 p2 [] a2 m2 (w_db w1) = (r, d)" "\<exists>v. r = Inr v"
    using t r(1) by (cases "commitTx (srv_store srv) e2 uri DefaultBranch t2 sl2 p2 [] a2 m2 (w_db w1)")
      (auto simp: returned_eq split: sum.splits)
  then have "head_version d uri = Some h2"
    by (elim commitTx_cases) (auto simp: head_version_def assms(2))
  moreover have "w_notes w1 = w_notes w" using assms(3) by (auto split: prod.splits task.splits option.splits)
  ultimately show ?thesis using assms(1,5,6) r(2) by (auto simp: invalidate_def notify_def)
qed

end
