(* ===== verification/Delivery.thy ===== *)
theory Delivery
  imports Cli
begin

text \<open>
  From a publish to the agents that watch the prompt: the RPC through the interceptors, the handler's
  verdict on the change, the event on the prompt's subject, and what \<open>promptnet watch\<close> does with it.
\<close>

subsection \<open>The verdict\<close>

lemma Worst_text:
  assumes "Analyze emb calls old new = Some (Inr rs, st)"
  shows "\<exists>v. Worst rs = verdict_text v"
  using Worst_verdict Analyze_ok [OF assms] classify_cases by (metis result_ok_def)

text \<open>A class the service announces.\<close>

definition announced_class :: "string \<Rightarrow> bool" where
  "announced_class cls \<longleftrightarrow> cls = ''new'' \<or> (\<exists>v. cls = verdict_text v)"

text \<open>The class of an edit, in terms of the analysis alone.\<close>

definition edit_class :: "embedder option \<Rightarrow> string list list \<Rightarrow> string \<Rightarrow> string \<Rightarrow> string" where
  "edit_class embedding calls oldT newT =
     (case embedding of
        None \<Rightarrow> []
      | Some emb \<Rightarrow>
          if oldT = [] then []
          else (case Analyze emb calls (splitLines oldT) (splitLines newT) of
                  Some (Inr rs, _) \<Rightarrow> Worst rs
                | _ \<Rightarrow> []))"

lemma classify_edit_class:
  assumes "classify_edit srv a b w = (Some cls, w')"
  shows "cls = edit_class (srv_embedder srv) (w_calls w) a b"
proof (cases "srv_embedder srv")
  case None
  with assms show ?thesis by (simp add: classify_edit_def edit_class_def)
next
  case (Some emb)
  obtain x st where "Analyze emb (w_calls w) (splitLines a) (splitLines b) = Some (x, st)"
    using Analyze_returns by blast
  with assms Some show ?thesis
    by (cases x) (auto simp: classify_edit_def edit_class_def run_diff_def split: if_splits diff_err.splits)
qed

lemma classify_edit_text:
  assumes "classify_edit srv a b w = (Some cls, w')"
  shows "\<exists>v. cls = verdict_text v"
proof (cases "srv_embedder srv = None \<or> a = []")
  case True
  with assms have "cls = verdict_text NoVerdict" by (auto simp: classify_edit_def split: option.splits)
  then show ?thesis ..
next
  case False
  then obtain emb where emb: "srv_embedder srv = Some emb" by auto
  obtain x st where an: "Analyze emb (w_calls w) (splitLines a) (splitLines b) = Some (x, st)"
    using Analyze_returns by blast
  show ?thesis
  proof (cases x)
    case (Inl er)
    with assms emb False an have "cls = verdict_text NoVerdict"
      by (cases er) (simp_all add: classify_edit_def run_diff_def)
    then show ?thesis ..
  next
    case (Inr rs)
    with assms emb False an have "cls = Worst rs" by (simp add: classify_edit_def run_diff_def)
    with Worst_text [OF an [unfolded Inr]] show ?thesis by simp
  qed
qed

lemma announced_values:
  assumes "announced_class cls"
  shows "cls \<in> {''new'', [], ''minor edit'', ''localized tweak'', ''structural''}"
proof -
  have "verdict_text v \<in> {''new'', [], ''minor edit'', ''localized tweak'', ''structural''}" for v by (cases v) simp_all
  with assms show ?thesis unfolding announced_class_def by (elim disjE exE) simp_all
qed

lemma verdict_not_new: "verdict_text v \<noteq> ''new''"
  by (cases v) simp_all

lemma judge_prev_class:
  assumes "judge_prev srv e uri t h w = (Publish cls, w')"
  shows "announced_class cls \<and> cls = (case Get (srv_store srv) e (w_db w) uri of
      Inl er \<Rightarrow> if er = ErrNotFound then ''new'' else []
    | Inr prev \<Rightarrow> edit_class (srv_embedder srv) (w_calls w) (Template prev) t)"
proof (cases "Get (srv_store srv) e (w_db w) uri")
  case (Inl er)
  with assms(1) have "cls = (if er = ErrNotFound then ''new'' else verdict_text NoVerdict)" by (auto simp: judge_prev_def)
  moreover have "announced_class (verdict_text NoVerdict)" unfolding announced_class_def by blast
  ultimately show ?thesis using Inl by (auto simp: announced_class_def)
next
  case (Inr prev)
  with assms(1) obtain w1 where c: "classify_edit srv (Template prev) t w = (Some cls, w1)"
    by (auto simp: judge_prev_def split: if_splits prod.splits option.splits)
  from classify_edit_text [OF c] have "announced_class cls" by (auto simp: announced_class_def)
  with Inr classify_edit_class [OF c] show ?thesis by simp
qed

lemma announced_utf8: "announced_class cls \<Longrightarrow> valid_utf8 cls"
proof -
  have "valid_utf8 (verdict_text v)" for v by (cases v) (simp_all add: ascii_valid_utf8 byte_def)
  moreover have "valid_utf8 ''new''" by (simp add: ascii_valid_utf8 byte_def)
  ultimately show "announced_class cls \<Longrightarrow> valid_utf8 cls" by (auto simp: announced_class_def)
qed

lemma digest_utf8: "digest_text h \<Longrightarrow> valid_utf8 h \<and> h \<noteq> []"
proof -
  have "\<forall>c \<in> set hex_digits. byte c < 0x80" by code_simp
  then have "digest_text h \<Longrightarrow> list_all (\<lambda>c. byte c < 0x80) h"
    unfolding digest_text_def list_all_iff by blast
  then show "digest_text h \<Longrightarrow> valid_utf8 h \<and> h \<noteq> []"
    using ascii_valid_utf8 by (auto simp: digest_text_def)
qed

subsection \<open>The notification\<close>

lemma Publish_announces:
  assumes "PublishPrompt srv c e uri t sl m branch w = (Reply h, w')" and "branchOr branch = DefaultBranch"
    and "srv_notifier srv"
  shows "h = Hash (sha (srv_store srv)) t sl
    \<and> ((\<exists>prev. Get (srv_store srv) e (w_db w) uri = Inr prev \<and> VersionHash prev = h) \<and> w' = w
      \<or> \<not> (\<exists>prev. Get (srv_store srv) e (w_db w) uri = Inr prev \<and> VersionHash prev = h)
        \<and> (\<exists>cls w1. judge_prev srv e uri t h w = (Publish cls, w1) \<and> w_notes w' = w_notes w @ [(uri, h, cls)]
             \<and> head_version (w_db w') uri = Some h))"
proof -
  define hash where "hash = Hash (sha (srv_store srv)) t sl"
  obtain v w1 where j: "judge_prev srv e uri t hash w = (v, w1)" by fastforce
  have run: "(case v of
          Unchanged \<Rightarrow> (Reply hash, w1) | Panicked \<Rightarrow> (Panic, w1)
        | Publish class \<Rightarrow>
            (case Commit (srv_store srv) e uri DefaultBranch t sl (scopeOf c) m (w_db w1) of
               (Inl er, d) \<Rightarrow> (Fail Internal (FmtStore ''store failed: %v'' er), w1\<lparr>w_db := d\<rparr>)
             | (Inr _, d) \<Rightarrow>
                 let w2 = w1\<lparr>w_db := d\<rparr>
                 in (Reply hash, if DefaultBranch = DefaultBranch then notify srv uri hash class (invalidate srv e uri w2) else w2)))
      = (Reply h, w')"
    using assms(1,2) j unfolding PublishPrompt_def
    by (auto elim!: guard_cases simp: Let_def hash_def [symmetric] split: prod.splits)
  then have h: "h = hash" by (auto simp: Let_def split: prev_verdict.splits prod.splits sum.splits)
  have same: "v = Unchanged \<longleftrightarrow> (\<exists>prev. Get (srv_store srv) e (w_db w) uri = Inr prev \<and> VersionHash prev = hash)"
    using j by (auto simp: judge_prev_def split: sum.splits if_splits prod.splits option.splits)
  show ?thesis
  proof (cases v)
    case Unchanged
    with j have "w1 = w" by (auto simp: judge_prev_def split: sum.splits if_splits prod.splits option.splits)
    with Unchanged run same h show ?thesis by (simp add: hash_def)
  next
    case Panicked
    with run show ?thesis by simp
  next
    case (Publish cls)
    obtain y d where y: "Commit (srv_store srv) e uri DefaultBranch t sl (scopeOf c) m (w_db w1) = (y, d)" by fastforce
    with run Publish obtain k where k: "y = Inr k" "w' = notify srv uri hash cls (invalidate srv e uri (w1\<lparr>w_db := d\<rparr>))"
      by (auto simp: Let_def split: sum.splits)
    from y [unfolded k(1)] have "head_version d uri = Some hash"
      by (cases rule: Commit_cases) (simp_all add: head_version_def hash_def)
    with judge_prev_frame(3) [OF j] k(2) assms(3) have "w_notes w' = w_notes w @ [(uri, hash, cls)]" "head_version (w_db w') uri = Some hash"
      by (simp_all add: notify_def invalidate_def)
    with same Publish h j show ?thesis by (auto simp: hash_def)
  qed
qed

subsection \<open>The watcher\<close>

lemma watch_new_event:
  assumes "nats deliver" and "digest_text h" and "announced_class cls" and "literal_path path" and "literal_path path'"
    and "uri = ''promptnet://'' @ path" and "uri' = ''promptnet://'' @ path'"
  shows "watch windows environ uri' hook (deliver (map Publish_event [(uri, h, cls)]))
    = Some (if uri' \<noteq> uri then [] else [on_event windows environ uri hook \<lparr>Version = h, Classification = cls\<rparr>])"
proof -
  have "\<forall>(u, v, k) \<in> set [(uri, h, cls)]. (\<exists>p. u = ''promptnet://'' @ p \<and> literal_path p)
      \<and> v \<noteq> [] \<and> valid_utf8 v \<and> valid_utf8 k"
    using digest_utf8 [OF assms(2)] announced_utf8 [OF assms(3)] assms(4,6) by simp
  from watch_acts_per_notification [OF assms(1) this assms(5), folded assms(7), of windows environ hook] show ?thesis
    by (cases "uri = uri'") simp_all
qed

lemma on_event_eq:
  "on_event windows environ uri hook \<lparr>Version = h, Classification = cls\<rparr>
    = (uri @ '' updated -> '' @ h @ '' ['' @ (if cls = [] then ''unknown'' else cls) @ '']'',
       if hook = [] then None
       else Some (if windows then [''cmd'', ''/c'', hook] else [''sh'', ''-c'', hook],
         environ @ [''PROMPTNET_URI='' @ uri, ''PROMPTNET_VERSION='' @ h, ''PROMPTNET_CLASS='' @ cls]))"
  by (simp add: on_event_def runHook_def Let_def)

text \<open>C8: a publish reaches the agents that watch the prompt. If the RPC of a publish on \<open>main\<close> is
  answered with version \<open>h\<close>, then either \<open>h\<close> was served before and no message is sent, or exactly one
  is, \<open>h\<close> is served from then on, and a watcher of the prompt logs it and runs its hook once, with the
  URI, \<open>h\<close> and the class of the change: \<open>new\<close> if there was no such prompt; for an edit the worst class
  of its semantic diff, or nothing if there is no embedder, no text before or the embedder failed; and
  nothing if the prompt could not be read. A watcher of any other prompt does nothing. This is for
  paths whose segments are plain NATS tokens: not empty, without dots and white space, and neither \<open>*\<close>
  nor \<open>>\<close>.\<close>

theorem publish_reaches_watchers:
  assumes "serve_rpc cfg e auth (PublishPromptRequest uri t sl m branch) g = (Reply (PublishPromptResponse h), g')"
    and "branchOr branch = ''main''" and "srv_notifier (cfg_server cfg)" and "sha_ok (srv_store (cfg_server cfg))"
    and "uri = ''promptnet://'' @ path" and "uri' = ''promptnet://'' @ path'"
    and "literal_path path" and "literal_path path'" and "nats deliver"
    and "w_notes (g_world g') = w_notes (g_world g) @ ns"
    and "before = Get (srv_store (cfg_server cfg)) e (w_db (g_world g)) uri"
    and "cls = (case before of
        Inl er \<Rightarrow> if er = ErrNotFound then ''new'' else []
      | Inr prev \<Rightarrow> edit_class (srv_embedder (cfg_server cfg)) (w_calls (g_world g)) (Template prev) t)"
  shows "if \<exists>prev. before = Inr prev \<and> VersionHash prev = h
    then ns = []
    else cls \<in> {''new'', [], ''minor edit'', ''localized tweak'', ''structural''}
      \<and> head_version (w_db (g_world g')) uri = Some h
      \<and> watch windows environ uri' hook (deliver (map Publish_event ns)) =
          Some (if uri' \<noteq> uri then []
           else [(uri @ '' updated -> '' @ h @ '' ['' @ (if cls = [] then ''unknown'' else cls) @ '']'',
                  if hook = [] then None
                  else Some (if windows then [''cmd'', ''/c'', hook] else [''sh'', ''-c'', hook],
                    environ @ [''PROMPTNET_URI='' @ uri, ''PROMPTNET_VERSION='' @ h, ''PROMPTNET_CLASS='' @ cls]))])"
proof -
  let ?srv = "cfg_server cfg"
  from assms(1) obtain c where
      "dispatch ?srv c e (PublishPromptRequest uri t sl m branch) (g_world g) = (Reply (PublishPromptResponse h), g_world g')"
    by (cases rule: serve_rpc_cases) simp_all
  then have "PublishPrompt ?srv c e uri t sl m branch (g_world g) = (Reply h, g_world g')"
    by (auto simp: reply_def map_reply_Reply prod_eq_iff)
  note p = Publish_announces [OF this assms(2) [folded DefaultBranch_def] assms(3), folded assms(11)]
  show ?thesis
  proof (cases "\<exists>prev. before = Inr prev \<and> VersionHash prev = h")
    case True
    with p assms(10) show ?thesis by simp
  next
    case False
    with p obtain k w1 where c: "judge_prev ?srv e uri t h (g_world g) = (Publish k, w1)"
      "w_notes (g_world g') = w_notes (g_world g) @ [(uri, h, k)]" "head_version (w_db (g_world g')) uri = Some h" by blast
    note k = judge_prev_class [OF c(1), folded assms(11)]
    have cls: "k = cls" using k [THEN conjunct2] unfolding assms(12) .
    have ns: "ns = [(uri, h, cls)]" using c(2) assms(10) cls by simp
    note announced = k [THEN conjunct1, unfolded cls]
    note set = announced_values [OF announced]
    have "digest_text h" using p assms(4) digest_text_Hash by blast
    note w = watch_new_event [OF assms(9) this announced assms(7,8,5,6), of windows environ hook, folded ns, unfolded on_event_eq]
    show ?thesis
      unfolding if_not_P [OF False]
      by (intro conjI, rule set, rule c(3), rule w)
  qed
qed

theorem publish_reaches_watchers_witness:
  "\<exists>g'. serve_rpc demo_config calm [''Bearer k''] (PublishPromptRequest demo_uri ''Bye'' [] [] []) demo_gate
      = (Reply (PublishPromptResponse (Hash demo_sha ''Bye'' [])), g')
    \<and> watch False [] demo_uri ''./reload'' (broker (map Publish_event (w_notes (g_world g'))))
      = Some [(demo_uri @ '' updated -> '' @ Hash demo_sha ''Bye'' [] @ '' [unknown]'',
          Some ([''sh'', ''-c'', ''./reload''],
            [''PROMPTNET_URI='' @ demo_uri, ''PROMPTNET_VERSION='' @ Hash demo_sha ''Bye'' [], ''PROMPTNET_CLASS='']))]"
proof -
  let ?c = "\<lparr>scopeKey = Some ''acme'', writeKey = Some True\<rparr>" and ?h = "Hash demo_sha ''Bye'' []"
  have ne: "Hash demo_sha ''Hi {n}'' [''n''] \<noteq> ?h"
    by (simp add: Hash_alt EncodeToString_inj hash_input_def demo_sha_def)
  have v: "validate_Prompt demo_uri ''Bye'' [] = None" unfolding demo_uri_def by code_simp
  obtain w where "PublishPrompt (demo_srv (ttl_ops 5)) ?c calm demo_uri ''Bye'' [] [] [] (boot demo_db []) = (Reply ?h, w)"
    using ne demo_authorized by (auto simp: PublishPrompt_def v judge_prev_def branchOr_def DefaultBranch_def demo_Get sha_demo
        classify_edit_def Commit_def tip_def demo_tip commitTx_def transaction_def stmt_def Let_def requireWrite_def)
  then have "\<exists>g'. serve_rpc demo_config calm [''Bearer k''] (PublishPromptRequest demo_uri ''Bye'' [] [] []) demo_gate
      = (Reply (PublishPromptResponse ?h), g')"
    by (simp add: serve_rpc_def MetricsInterceptor_def AuthInterceptor_def AuditInterceptor_def RateLimitInterceptor_def
        take_token_def handle_def demo_config_def demo_gate_def no_ctx_def reply_def effective_burst_def scope_value_def)
  then obtain g' where g': "serve_rpc demo_config calm [''Bearer k''] (PublishPromptRequest demo_uri ''Bye'' [] [] []) demo_gate
      = (Reply (PublishPromptResponse ?h), g')" by blast
  have b: "branchOr [] = ''main''" and notifier: "srv_notifier (cfg_server demo_config)" and ok: "sha_ok (srv_store (cfg_server demo_config))"
    and path: "demo_uri = ''promptnet://'' @ ''acme/a''" and emb: "srv_embedder (cfg_server demo_config) = None"
    and ns: "w_notes (g_world g') = w_notes (g_world demo_gate) @ w_notes (g_world g')"
    by (simp_all add: branchOr_def DefaultBranch_def demo_config_def demo_gate_def demo_uri_def demo_ok(1))
  have lit: "literal_path ''acme/a''" by (simp add: literal_path_def literal_token_def)
  let ?old = "\<lparr>URI = demo_uri, Template = ''Hi {n}'', Slots = [''n''], VersionHash = Hash demo_sha ''Hi {n}'' [''n'']\<rparr>"
  have old: "Inr ?old = Get (srv_store (cfg_server demo_config)) calm (w_db (g_world demo_gate)) demo_uri"
    by (simp add: demo_config_def demo_gate_def demo_Get)
  have cls: "[] = (case (Inr ?old :: err + prompt) of Inl er \<Rightarrow> if er = ErrNotFound then ''new'' else []
      | Inr prev \<Rightarrow> edit_class (srv_embedder (cfg_server demo_config)) (w_calls (g_world demo_gate)) (Template prev) ''Bye'')"
    unfolding emb by (simp add: edit_class_def)
  have no: "\<not> (\<exists>prev. (Inr ?old :: err + prompt) = Inr prev \<and> VersionHash prev = ?h)" using ne by simp
  note all = publish_reaches_watchers [OF g' b notifier ok path path lit lit broker.nats_axioms ns old cls,
      where windows = False and hook = "''./reload''" and environ = "[]", unfolded if_not_P [OF no]]
  then have "watch False [] demo_uri ''./reload'' (broker (map Publish_event (w_notes (g_world g')))) =
      Some (if demo_uri \<noteq> demo_uri then []
       else [(demo_uri @ '' updated -> '' @ ?h @ '' ['' @ (if ([] :: string) = [] then ''unknown'' else []) @ '']'',
              if ''./reload'' = [] then None
              else Some (if False then [''cmd'', ''/c'', ''./reload''] else [''sh'', ''-c'', ''./reload''],
                [] @ [''PROMPTNET_URI='' @ demo_uri, ''PROMPTNET_VERSION='' @ ?h, ''PROMPTNET_CLASS='' @ []]))])"
    by (elim conjE)
  from this [unfolded simp_thms if_False if_True] g' show ?thesis by (intro exI conjI) simp_all
qed

end
