(* ===== verification/Flags.thy ===== *)
theory Flags
  imports GoNet Float64
begin

text \<open>
  What the commands use of Go's \<^verbatim>\<open>flag\<close>: a flag set is its flags in the order of their definition,
  each with its kind and current value (at first the default), and \<open>flag_Parse\<close> is
  \<open>FlagSet.Parse\<close> under \<open>flag.ExitOnError\<close>. The values are parsed by \<open>strconv.ParseBool\<close>,
  \<open>strconv.ParseInt\<close> with base 0 and \<open>time.ParseDuration\<close>; \<open>strconv.ParseFloat\<close> is a parameter, for
  the numbers \<open>Float64\<close> has.
\<close>

subsection \<open>Values\<close>

definition ParseBool :: "string \<Rightarrow> bool option" where
  "ParseBool s =
     (if s \<in> set [''1'', ''t'', ''T'', ''TRUE'', ''true'', ''True''] then Some True
      else if s \<in> set [''0'', ''f'', ''F'', ''FALSE'', ''false'', ''False''] then Some False
      else None)"

text \<open>A sign, taken off by \<open>ParseInt\<close> and \<open>ParseDuration\<close>.\<close>

fun cut_sign :: "string \<Rightarrow> bool \<times> string" where
  "cut_sign [] = (False, [])"
| "cut_sign (c # s) = (if c = CHR ''-'' then (True, s) else if c = CHR ''+'' then (False, s) else (False, c # s))"

definition lower :: "char \<Rightarrow> char" where
  "lower c = char_of (or 32 (of_char c :: nat))"

text \<open>\<open>underscoreOK\<close>: an underscore stands between digits or behind the base prefix; \<open>saw\<close> is the class
  of the character before.\<close>

fun underscores_ok :: "bool \<Rightarrow> char \<Rightarrow> string \<Rightarrow> bool" where
  "underscores_ok hex saw [] = (saw \<noteq> CHR ''_'')"
| "underscores_ok hex saw (c # s) =
     (if is_digit c \<or> hex \<and> CHR ''a'' \<le> lower c \<and> lower c \<le> CHR ''f'' then underscores_ok hex (CHR ''0'') s
      else if c = CHR ''_'' then saw = CHR ''0'' \<and> underscores_ok hex (CHR ''_'') s
      else saw \<noteq> CHR ''_'' \<and> underscores_ok hex (CHR ''!'') s)"

fun underscoreOK :: "string \<Rightarrow> bool" where
  "underscoreOK (z # b # s) =
     (if z = CHR ''0'' \<and> lower b \<in> set ''box'' then underscores_ok (lower b = CHR ''x'') (CHR ''0'') s
      else underscores_ok False (CHR ''^'') (z # b # s))"
| "underscoreOK s = underscores_ok False (CHR ''^'') s"

definition digit_of :: "char \<Rightarrow> int option" where
  "digit_of c =
     (if is_digit c then Some (digit_val c)
      else if CHR ''a'' \<le> lower c \<and> lower c \<le> CHR ''z'' then Some (of_char (lower c) - 87)
      else None)"

fun digits_in :: "int \<Rightarrow> int \<Rightarrow> string \<Rightarrow> int option" where
  "digits_in base n [] = Some n"
| "digits_in base n (c # s) =
     (if c = CHR ''_'' then digits_in base n s
      else case digit_of c of
        None \<Rightarrow> None
      | Some d \<Rightarrow> if base \<le> d \<or> 2 ^ 64 \<le> n * base + d then None else digits_in base (n * base + d) s)"

text \<open>The base and the digits behind its prefix.\<close>

definition base_prefix :: "string \<Rightarrow> int \<times> string" where
  "base_prefix s =
     (if hd s \<noteq> CHR ''0'' then (10, s)
      else if 3 \<le> length s \<and> lower (s ! 1) = CHR ''b'' then (2, drop 2 s)
      else if 3 \<le> length s \<and> lower (s ! 1) = CHR ''o'' then (8, drop 2 s)
      else if 3 \<le> length s \<and> lower (s ! 1) = CHR ''x'' then (16, drop 2 s)
      else (8, tl s))"

definition ParseUint0 :: "string \<Rightarrow> int option" where
  "ParseUint0 s =
     (if s = [] then None
      else let (base, ds) = base_prefix s
      in if CHR ''_'' \<in> set ds \<and> \<not> underscoreOK s then None else digits_in base 0 ds)"

definition ParseInt0 :: "string \<Rightarrow> int option" where
  "ParseInt0 s =
     (let (neg, r) = cut_sign s
      in case ParseUint0 r of
           None \<Rightarrow> None
         | Some n \<Rightarrow>
             if \<not> neg \<and> 2 ^ 63 \<le> n \<or> neg \<and> 2 ^ 63 < n then None else Some (if neg then - n else n))"

subsection \<open>Durations\<close>

definition unitMap :: "(string \<times> int) list" where
  "unitMap = [(''ns'', 1), (''us'', 1000), ([CHR 0xC2, CHR 0xB5, CHR ''s''], 1000), ([CHR 0xCE, CHR 0xBC, CHR ''s''], 1000),
     (''ms'', 1000000), (''s'', 1000000000), (''m'', 60000000000), (''h'', 3600000000000)]"

text \<open>\<open>leadingInt\<close> fails beyond \<open>2^63\<close>.\<close>

fun leadingInt :: "int \<Rightarrow> string \<Rightarrow> (int \<times> string) option" where
  "leadingInt x [] = Some (x, [])"
| "leadingInt x (c # s) =
     (if \<not> is_digit c then Some (x, c # s)
      else if 2 ^ 63 div 10 < x \<or> 2 ^ 63 < x * 10 + digit_val c then None
      else leadingInt (x * 10 + digit_val c) s)"

text \<open>\<open>leadingFraction\<close> drops the digits that no longer fit.\<close>

fun leadingFraction :: "bool \<Rightarrow> int \<Rightarrow> f64 \<Rightarrow> string \<Rightarrow> int \<times> f64 \<times> string" where
  "leadingFraction overflow x scale [] = (x, scale, [])"
| "leadingFraction overflow x scale (c # s) =
     (if \<not> is_digit c then (x, scale, c # s)
      else if overflow \<or> (2 ^ 63 - 1) div 10 < x \<or> 2 ^ 63 < x * 10 + digit_val c then leadingFraction True x scale s
      else leadingFraction False (x * 10 + digit_val c) (fmul scale 10) s)"

lemma leadingFraction_shorter: "leadingFraction ov x sc s = (f, sc', r) \<Longrightarrow> length r \<le> length s"
  by (induction ov x sc s rule: leadingFraction.induct) (auto split: if_splits)

lemma leadingInt_shorter: "leadingInt x s = Some (v, r) \<Longrightarrow> length r \<le> length s"
  by (induction x s rule: leadingInt.induct) (auto split: if_splits)

definition unit_char :: "char \<Rightarrow> bool" where
  "unit_char c \<longleftrightarrow> c \<noteq> CHR ''.'' \<and> \<not> is_digit c"

text \<open>One number with its unit: the nanoseconds, and the text behind it.\<close>

definition one_duration :: "string \<Rightarrow> (int \<times> string) option" where
  "one_duration s =
     (if s = [] \<or> unit_char (hd s) then None
      else case leadingInt 0 s of
        None \<Rightarrow> None
      | Some (v, r) \<Rightarrow>
          let (f, scale, r') = (if r \<noteq> [] \<and> hd r = CHR ''.'' then leadingFraction False 0 1 (tl r) else (0, 1, r));
              post = (r \<noteq> [] \<and> hd r = CHR ''.'' \<and> length r' < length (tl r));
              u = takeWhile unit_char r'
          in if length r = length s \<and> \<not> post then None
             else if u = [] then None
             else case map_of unitMap u of
               None \<Rightarrow> None
             | Some unit \<Rightarrow>
                 if 2 ^ 63 div unit < v then None
                 else let v' = v * unit + (if 0 < f then \<lfloor>fmul (rnd64 (of_int f)) (fdiv (of_int unit) scale)\<rfloor> else 0)
                 in if 2 ^ 63 < v' then None else Some (v', drop (length u) r'))"

lemma one_duration_shorter: "one_duration s = Some (v, r) \<Longrightarrow> length r < length s"
proof -
  assume d: "one_duration s = Some (v, r)"
  then obtain v0 r0 f sc r1 where a: "leadingInt 0 s = Some (v0, r0)"
    "(if r0 \<noteq> [] \<and> hd r0 = CHR ''.'' then leadingFraction False 0 1 (tl r0) else (0, 1, r0)) = (f, sc, r1)"
    "takeWhile unit_char r1 \<noteq> []" "r = drop (length (takeWhile unit_char r1)) r1"
    by (auto simp: one_duration_def Let_def split: option.splits prod.splits if_splits)
  have "length r0 \<le> length s" using a(1) by (rule leadingInt_shorter)
  moreover have "length r1 \<le> length r0"
    using a(2) leadingFraction_shorter [of False 0 1 "tl r0" f sc r1] by (auto split: if_splits)
  moreover have "length r < length r1" using a(3,4) by (cases r1) auto
  ultimately show ?thesis by simp
qed

text \<open>The sum of the numbers; the addition wraps at \<open>2^64\<close>.\<close>

function sum_durations :: "int \<Rightarrow> string \<Rightarrow> int option" where
  "sum_durations d s =
     (if s = [] then Some d
      else case one_duration s of
        None \<Rightarrow> None
      | Some (v, r) \<Rightarrow>
          let d' = (d + v) mod 2 ^ 64
          in if 2 ^ 63 < d' then None else sum_durations d' r)"
  by pat_completeness auto
termination by (relation "measure (length \<circ> snd)") (auto dest: one_duration_shorter)

declare sum_durations.simps [simp del]

definition ParseDuration :: "string \<Rightarrow> int option" where
  "ParseDuration s =
     (let (neg, r) = cut_sign s
      in if r = ''0'' then Some 0
         else if r = [] then None
         else case sum_durations 0 r of
           None \<Rightarrow> None
         | Some d \<Rightarrow> if neg then Some (- d) else if 2 ^ 63 - 1 < d then None else Some d)"

lemma durations: "ParseDuration ''30s'' = Some 30000000000" "ParseDuration ''-1h2.5m'' = Some (- 3750000000000)"
  "ParseDuration ''30'' = None" "ParseDuration ''.5ms'' = Some 500000" "ParseDuration [] = None"
  by code_simp+

lemma integers: "ParseInt0 ''0x1F'' = Some 31" "ParseInt0 ''-010'' = Some (- 8)" "ParseInt0 ''1_000'' = Some 1000" "ParseInt0 ''1__0'' = None"
  "ParseInt0 ''0x_1F'' = Some 31" "ParseInt0 ''9223372036854775808'' = None" "ParseInt0 ''0'' = Some 0"
  by code_simp+

subsection \<open>Flag sets\<close>

text \<open>\<open>multiFlag\<close> of \<^verbatim>\<open>cmd/promptnet/main.go\<close>: a flag that may be repeated.\<close>

type_synonym multiFlag = "string list"

definition multiFlag_Set :: "multiFlag \<Rightarrow> string \<Rightarrow> multiFlag" where
  "multiFlag_Set m v = m @ [v]"

datatype flag_value =
    FString string
  | FBool bool
  | FDuration int
  | FFloat f64
  | FInt int
  | FVar multiFlag

type_synonym flag_set = "(string \<times> flag_value) list"

text \<open>\<open>Value.Set\<close>.\<close>

fun flag_Set :: "(string \<Rightarrow> f64 option) \<Rightarrow> flag_value \<Rightarrow> string \<Rightarrow> flag_value option" where
  "flag_Set pf (FString x) v = Some (FString v)"
| "flag_Set pf (FBool x) v = map_option FBool (ParseBool v)"
| "flag_Set pf (FDuration x) v = map_option FDuration (ParseDuration v)"
| "flag_Set pf (FFloat x) v = map_option FFloat (pf v)"
| "flag_Set pf (FInt x) v = map_option FInt (ParseInt0 v)"
| "flag_Set pf (FVar m) v = Some (FVar (multiFlag_Set m v))"

fun is_bool_flag :: "flag_value \<Rightarrow> bool" where
  "is_bool_flag (FBool x) = True"
| "is_bool_flag _ = False"

text \<open>What an argument looks like: no flag, \<open>--\<close>, not a flag's syntax, or a name with the value behind \<open>=\<close>.\<close>

datatype arg_shape = Plain | Terminator | Malformed | Named string "string option"

definition shape :: "string \<Rightarrow> arg_shape" where
  "shape s =
     (if length s < 2 \<or> hd s \<noteq> CHR ''-'' then Plain
      else if s = ''--'' then Terminator
      else let name = (if s ! 1 = CHR ''-'' then drop 2 s else tl s)
      in if name = [] \<or> hd name = CHR ''-'' \<or> hd name = CHR ''='' then Malformed
         else let (n, v) = cut (CHR ''='') (tl name)
         in Named (hd name # n) (if contains (CHR ''='') (tl name) then Some v else None))"

text \<open>The flags with the remaining arguments, or the end of the process.\<close>

datatype parsed = Parsed flag_set "string list" | Exited nat

fun flag_Parse :: "(string \<Rightarrow> f64 option) \<Rightarrow> flag_set \<Rightarrow> string list \<Rightarrow> parsed" where
  "flag_Parse pf fs [] = Parsed fs []"
| "flag_Parse pf fs (s # args) =
     (case shape s of
        Plain \<Rightarrow> Parsed fs (s # args)
      | Terminator \<Rightarrow> Parsed fs args
      | Malformed \<Rightarrow> Exited 2
      | Named name given \<Rightarrow>
          (case map_of fs name of
             None \<Rightarrow> Exited (if name = ''help'' \<or> name = ''h'' then 0 else 2)
           | Some x \<Rightarrow>
               if is_bool_flag x
               then (case flag_Set pf x (case given of Some v \<Rightarrow> v | None \<Rightarrow> ''true'') of
                       None \<Rightarrow> Exited 2
                     | Some y \<Rightarrow> flag_Parse pf (AList.update name y fs) args)
               else (case given of
                       Some v \<Rightarrow>
                         (case flag_Set pf x v of
                            None \<Rightarrow> Exited 2
                          | Some y \<Rightarrow> flag_Parse pf (AList.update name y fs) args)
                     | None \<Rightarrow>
                         (case args of
                            [] \<Rightarrow> Exited 2
                          | v # args' \<Rightarrow>
                              (case flag_Set pf x v of
                                 None \<Rightarrow> Exited 2
                               | Some y \<Rightarrow> flag_Parse pf (AList.update name y fs) args')))))"

text \<open>The values, of the kind each was defined with.\<close>

definition string_flag :: "flag_set \<Rightarrow> string \<Rightarrow> string" where
  "string_flag fs n = (case map_of fs n of Some (FString v) \<Rightarrow> v | _ \<Rightarrow> [])"

definition bool_flag :: "flag_set \<Rightarrow> string \<Rightarrow> bool" where
  "bool_flag fs n = (case map_of fs n of Some (FBool v) \<Rightarrow> v | _ \<Rightarrow> False)"

definition int_flag :: "flag_set \<Rightarrow> string \<Rightarrow> int" where
  "int_flag fs n = (case map_of fs n of Some (FInt v) \<Rightarrow> v | Some (FDuration v) \<Rightarrow> v | _ \<Rightarrow> 0)"

definition float_flag :: "flag_set \<Rightarrow> string \<Rightarrow> f64" where
  "float_flag fs n = (case map_of fs n of Some (FFloat v) \<Rightarrow> v | _ \<Rightarrow> 0)"

definition var_flag :: "flag_set \<Rightarrow> string \<Rightarrow> string list" where
  "var_flag fs n = (case map_of fs n of Some (FVar m) \<Rightarrow> m | _ \<Rightarrow> [])"

subsection \<open>Parsing\<close>

text \<open>An argument that is no flag ends the flags: it and what is behind it is left over.\<close>

lemma flag_Parse_more:
  "flag_Parse pf fs args = Parsed fs' left \<Longrightarrow> shape x = Plain \<Longrightarrow>
     flag_Parse pf fs (args @ x # rest) = Parsed fs' (left @ x # rest)"
proof (induction pf fs args rule: flag_Parse.induct)
  case (2 pf fs s args)
  show ?case
  proof (cases "shape s")
    case (Named name given)
    with "2.prems" obtain y where y: "map_of fs name = Some y" by (auto split: option.splits)
    show ?thesis
    proof (cases "is_bool_flag y")
      case True
      with "2.prems" Named y obtain z where z: "flag_Set pf y (case given of Some v \<Rightarrow> v | None \<Rightarrow> ''true'') = Some z"
        "flag_Parse pf (AList.update name z fs) args = Parsed fs' left" by (auto split: option.splits)
      from "2.IH"(1) [OF Named y True z "2.prems"(2)] show ?thesis using Named y True z(1) by simp
    next
      case False
      show ?thesis
      proof (cases given)
        case (Some v)
        with "2.prems" Named y False obtain z where z: "flag_Set pf y v = Some z"
          "flag_Parse pf (AList.update name z fs) args = Parsed fs' left" by (auto split: option.splits)
        from "2.IH"(3) [OF Named y False Some z "2.prems"(2)] show ?thesis using Named y False Some z(1) by simp
      next
        case None
        with "2.prems" Named y False obtain v args' z where z: "args = v # args'" "flag_Set pf y v = Some z"
          "flag_Parse pf (AList.update name z fs) args' = Parsed fs' left" by (auto split: option.splits list.splits)
        from "2.IH"(2) [OF Named y False None z "2.prems"(2)] show ?thesis using Named y False None z(1,2) by simp
      qed
    qed
  qed (use "2.prems" in auto)
qed simp

text \<open>A flag that is not boolean takes the next argument, whatever it is.\<close>

lemma flag_Parse_pair:
  "shape s = Named name None \<Longrightarrow> map_of fs name = Some x \<Longrightarrow> \<not> is_bool_flag x \<Longrightarrow> flag_Set pf x v = Some y \<Longrightarrow>
     flag_Parse pf fs (s # v # args) = flag_Parse pf (AList.update name y fs) args"
  by simp

lemma flag_Parse_repeated:
  assumes "shape s = Named name None" and "map_of fs name = Some (FVar m)"
  shows "\<exists>fs'. flag_Parse pf fs (concat (map (\<lambda>v. [s, v]) vs) @ args) = flag_Parse pf fs' args
    \<and> map_of fs' = (map_of fs)(name \<mapsto> FVar (m @ vs))"
  using assms(2)
proof (induction vs arbitrary: fs m)
  case Nil
  then show ?case by (intro exI [of _ fs]) (simp add: map_upd_triv)
next
  case (Cons v vs)
  have "map_of (AList.update name (FVar (m @ [v])) fs) name = Some (FVar (m @ [v]))" by (simp add: update_conv')
  from Cons.IH [OF this] obtain fs' where fs':
    "flag_Parse pf (AList.update name (FVar (m @ [v])) fs) (concat (map (\<lambda>v. [s, v]) vs) @ args) = flag_Parse pf fs' args"
    "map_of fs' = (map_of fs)(name \<mapsto> FVar (m @ v # vs))"
    by (auto simp: update_conv' fun_upd_upd simp del: fun_upd_apply)
  have "flag_Parse pf fs (s # v # as) = flag_Parse pf (AList.update name (FVar (m @ [v])) fs) as" for as
    by (rule flag_Parse_pair [OF assms(1) Cons.prems]) (simp_all add: multiFlag_Set_def)
  with fs' show ?case by (intro exI [of _ fs']) (simp del: flag_Parse.simps fun_upd_apply)
qed

end
