(* ===== verification/CommandLine.thy ===== *)
theory CommandLine
  imports Flags Serve PromptctlPublish
begin

text \<open>
  The command lines: \<open>main\<close> of \<^verbatim>\<open>cmd/promptnet/main.go\<close> and of \<^verbatim>\<open>cmd/promptctl/main.go\<close>, the flags of
  every command with their defaults, and the commands behind them. \<open>argv\<close> is \<open>os.Args\<close>, \<open>getenv\<close> the
  environment (\<open>""\<close> for what is not set). \<open>promptnet_main\<close> and \<open>promptctl_main\<close> say which
  command runs with which values, or how the process ends instead.
\<close>

subsection \<open>promptnet\<close>

record client_flags =
  cf_addr :: string
  cf_tls :: bool
  cf_ca_cert :: string
  cf_cert :: string
  cf_key :: string

text \<open>\<open>BadEnv\<close> is the fatal end on a \<^verbatim>\<open>PROMPTNET_URL\<close> that does not parse.\<close>

datatype invocation =
    Exits nat
  | BadEnv
  | InitCmd string string bool
  | ServeCmd string flags
  | PutCmd string string string bool string string "string list"
  | DiffCmd client_flags string string
  | ListCmd client_flags string
  | PublishCmd client_flags string string "string list"
  | WatchCmd string string string
  | BackupCmd string string
  | RestoreCmd string string
  | MigrateCmd string
  | GenTokenCmd

definition with_flags :: "(nat \<Rightarrow> 'i) \<Rightarrow> (string \<Rightarrow> f64 option) \<Rightarrow> flag_set \<Rightarrow> string list
    \<Rightarrow> (flag_set \<Rightarrow> string list \<Rightarrow> 'i) \<Rightarrow> 'i" where
  "with_flags ex pf fs args k = (case flag_Parse pf fs args of Exited n \<Rightarrow> ex n | Parsed fs' rest \<Rightarrow> k fs' rest)"

definition serve_flags :: "(string \<Rightarrow> string) \<Rightarrow> flag_set" where
  "serve_flags getenv =
     [(''addr'', FString '':8443''),
      (''db'', FString ''promptnet.db''),
      (''tls-cert'', FString []),
      (''tls-key'', FString []),
      (''client-ca'', FString []),
      (''cache-ttl'', FDuration default_ttl),
      (''redis-url'', FString (getenv ''PROMPTNET_REDIS_URL'')),
      (''embed-url'', FString (getenv ''PROMPTNET_EMBED_URL'')),
      (''embed-model'', FString (getenv ''PROMPTNET_EMBED_MODEL'')),
      (''nats-addr'', FString ''127.0.0.1:4222''),
      (''tokens-file'', FString []),
      (''metrics-addr'', FString '':2112''),
      (''rate-limit'', FFloat 0),
      (''rate-burst'', FInt 0),
      (''seed'', FBool (getenv ''PROMPTNET_SEED'' \<noteq> ''false''))]"

definition serve_args :: "(string \<Rightarrow> string) \<Rightarrow> (string \<Rightarrow> f64 option) \<Rightarrow> string list \<Rightarrow> invocation" where
  "serve_args getenv pf args =
     with_flags Exits pf (serve_flags getenv) args (\<lambda>fs rest.
       ServeCmd (string_flag fs ''db'')
         \<lparr>f_addr = string_flag fs ''addr'', f_tls_cert = string_flag fs ''tls-cert'', f_tls_key = string_flag fs ''tls-key'',
          f_client_ca = string_flag fs ''client-ca'', f_cache_ttl = int_flag fs ''cache-ttl'',
          f_redis_url = string_flag fs ''redis-url'', f_embed_url = string_flag fs ''embed-url'',
          f_embed_model = string_flag fs ''embed-model'', f_nats_addr = string_flag fs ''nats-addr'',
          f_tokens_file = string_flag fs ''tokens-file'', f_rate_limit = float_flag fs ''rate-limit'',
          f_rate_burst = int_flag fs ''rate-burst'', f_seed = bool_flag fs ''seed''\<rparr>)"

definition put_args :: "(string \<Rightarrow> string) \<Rightarrow> (string \<Rightarrow> f64 option) \<Rightarrow> string list \<Rightarrow> invocation" where
  "put_args getenv pf args =
     with_flags Exits pf
       [(''uri'', FString []), (''file'', FString ''-''), (''db'', FString ''promptnet.db''), (''force'', FBool False),
        (''embed-url'', FString (getenv ''PROMPTNET_EMBED_URL'')), (''embed-model'', FString (getenv ''PROMPTNET_EMBED_MODEL'')),
        (''slot'', FVar [])] args
       (\<lambda>fs rest. PutCmd (string_flag fs ''uri'') (string_flag fs ''file'') (string_flag fs ''db'') (bool_flag fs ''force'')
          (string_flag fs ''embed-url'') (string_flag fs ''embed-model'') (var_flag fs ''slot''))"

text \<open>The clients: the address, whose default is looked up first, and the TLS flags.\<close>

definition client_flag_set :: "string \<Rightarrow> flag_set \<Rightarrow> flag_set" where
  "client_flag_set host own =
     (''addr'', FString host) # own
     @ [(''tls'', FBool False), (''ca-cert'', FString []), (''cert'', FString []), (''key'', FString [])]"

definition client_of :: "flag_set \<Rightarrow> client_flags" where
  "client_of fs = \<lparr>cf_addr = string_flag fs ''addr'', cf_tls = bool_flag fs ''tls'', cf_ca_cert = string_flag fs ''ca-cert'',
     cf_cert = string_flag fs ''cert'', cf_key = string_flag fs ''key''\<rparr>"

definition diff_args :: "string \<Rightarrow> (string \<Rightarrow> f64 option) \<Rightarrow> string list \<Rightarrow> invocation" where
  "diff_args host pf args =
     with_flags Exits pf (client_flag_set host [(''uri'', FString []), (''file'', FString ''-'')]) args
       (\<lambda>fs rest. DiffCmd (client_of fs) (string_flag fs ''uri'') (string_flag fs ''file''))"

definition list_args :: "string \<Rightarrow> (string \<Rightarrow> f64 option) \<Rightarrow> string list \<Rightarrow> invocation" where
  "list_args host pf args =
     with_flags Exits pf (client_flag_set host [(''prefix'', FString [])]) args
       (\<lambda>fs rest. ListCmd (client_of fs) (string_flag fs ''prefix''))"

definition publish_args :: "string \<Rightarrow> (string \<Rightarrow> f64 option) \<Rightarrow> string list \<Rightarrow> invocation" where
  "publish_args host pf args =
     with_flags Exits pf (client_flag_set host [(''uri'', FString []), (''file'', FString ''-''), (''slot'', FVar [])]) args
       (\<lambda>fs rest. PublishCmd (client_of fs) (string_flag fs ''uri'') (string_flag fs ''file'') (var_flag fs ''slot''))"

definition watch_args :: "(string \<Rightarrow> f64 option) \<Rightarrow> string list \<Rightarrow> invocation" where
  "watch_args pf args =
     with_flags Exits pf [(''uri'', FString []), (''nats-url'', FString ''nats://127.0.0.1:4222''), (''exec'', FString [])] args
       (\<lambda>fs rest. WatchCmd (string_flag fs ''uri'') (string_flag fs ''nats-url'') (string_flag fs ''exec''))"

definition backup_args :: "(string \<Rightarrow> f64 option) \<Rightarrow> string list \<Rightarrow> invocation" where
  "backup_args pf args =
     with_flags Exits pf [(''db'', FString ''promptnet.db''), (''out'', FString ''-'')] args
       (\<lambda>fs rest. BackupCmd (string_flag fs ''db'') (string_flag fs ''out''))"

definition restore_args :: "(string \<Rightarrow> f64 option) \<Rightarrow> string list \<Rightarrow> invocation" where
  "restore_args pf args =
     with_flags Exits pf [(''db'', FString ''promptnet.db''), (''in'', FString ''-'')] args
       (\<lambda>fs rest. RestoreCmd (string_flag fs ''db'') (string_flag fs ''in''))"

definition migrate_args :: "(string \<Rightarrow> f64 option) \<Rightarrow> string list \<Rightarrow> invocation" where
  "migrate_args pf args =
     with_flags Exits pf [(''db'', FString ''promptnet.db'')] args (\<lambda>fs rest. MigrateCmd (string_flag fs ''db''))"

definition init_args :: "(string \<Rightarrow> f64 option) \<Rightarrow> string list \<Rightarrow> invocation" where
  "init_args pf args =
     with_flags Exits pf [(''tokens-file'', FString ''tokens.txt''), (''addr'', FString ''localhost:8443''), (''force'', FBool False)] args
       (\<lambda>fs rest. InitCmd (string_flag fs ''tokens-file'') (string_flag fs ''addr'') (bool_flag fs ''force''))"

text \<open>\<open>usage\<close> exits with 2.\<close>

definition promptnet_main :: "(string \<Rightarrow> string option) \<Rightarrow> (string \<Rightarrow> string) \<Rightarrow> (string \<Rightarrow> f64 option) \<Rightarrow> string list \<Rightarrow> invocation" where
  "promptnet_main lit getenv pf argv =
     (let client = (\<lambda>k. case envHost lit (getenv ''PROMPTNET_URL'') of None \<Rightarrow> BadEnv | Some host \<Rightarrow> k host)
      in case argv of
           p # cmd # args \<Rightarrow>
             if cmd = ''init'' then init_args pf args
             else if cmd = ''serve'' then serve_args getenv pf args
             else if cmd = ''put'' then put_args getenv pf args
             else if cmd = ''diff'' then client (\<lambda>host. diff_args host pf args)
             else if cmd = ''list'' then client (\<lambda>host. list_args host pf args)
             else if cmd = ''publish'' then client (\<lambda>host. publish_args host pf args)
             else if cmd = ''watch'' then watch_args pf args
             else if cmd = ''backup'' then backup_args pf args
             else if cmd = ''restore'' then restore_args pf args
             else if cmd = ''migrate'' then migrate_args pf args
             else if cmd = ''gen-token'' then GenTokenCmd
             else Exits 2
         | _ \<Rightarrow> Exits 2)"

subsection \<open>The commands behind their flags\<close>

text \<open>\<open>backup\<close> and \<open>restore\<close> with their files; what they say on the standard error is left out.\<close>

definition backup_cmd :: "(string \<Rightarrow> bool) \<Rightarrow> (open_err + store) \<Rightarrow> env \<Rightarrow> string \<Rightarrow> db \<Rightarrow> files \<Rightarrow> exit \<times> files" where
  "backup_cmd writable st e out d fs =
     (case st of
        Inl er \<Rightarrow> ((Some (OpenFailed er), []), fs)
      | Inr s \<Rightarrow>
          (case backup s e d of
             Inl er \<Rightarrow> ((Some (StoreFailed er), []), fs)
           | Inr text \<Rightarrow>
               if out = ''-'' then ((None, text), fs)
               else if \<not> writable out then ((Some Unwritable, []), fs)
               else ((None, []), fs(out \<mapsto> text))))"

definition restore_cmd :: "files \<Rightarrow> string option \<Rightarrow> (open_err + store) \<Rightarrow> (nat \<Rightarrow> env) \<Rightarrow> string \<Rightarrow> db \<Rightarrow> exit \<times> db" where
  "restore_cmd fs stdin st es src d =
     (case readTemplate fs stdin src of
        None \<Rightarrow> ((Some Unreadable, []), d)
      | Some txt \<Rightarrow>
          (case st of
             Inl er \<Rightarrow> ((Some (OpenFailed er), []), d)
           | Inr s \<Rightarrow>
               (case restore_loop s es 0 txt d of
                  (Restored n, d') \<Rightarrow> ((None, ''restored '' @ decimal n @ '' prompts'' @ newline), d')
                | (r, d') \<Rightarrow> ((Some (RestoreFailed r), []), d'))))"

text \<open>
  What a client command has of the world: the files, the standard input, how it dials, and what is at
  an address over a transport.
\<close>

record 'g client_world =
  cw_files :: files
  cw_stdin :: "string option"
  cw_has_certs :: "string \<Rightarrow> bool"
  cw_key_pair :: "string \<Rightarrow> string \<Rightarrow> bool"
  cw_new_client :: "string \<Rightarrow> bool"
  cw_server :: "string \<Rightarrow> client_tls option \<Rightarrow> 'g rpc"

definition connected :: "'g client_world \<Rightarrow> client_flags \<Rightarrow> ('g rpc \<Rightarrow> 'g \<Rightarrow> exit \<times> 'g) \<Rightarrow> 'g \<Rightarrow> exit \<times> 'g" where
  "connected cw cf k g =
     (case dial (cw_files cw) (cw_has_certs cw) (cw_key_pair cw) (cw_new_client cw) (cf_addr cf) (cf_tls cf)
         (cf_ca_cert cf) (cf_cert cf) (cf_key cf) of
        None \<Rightarrow> ((Some NotConnected, []), g)
      | Some t \<Rightarrow> k (cw_server cw (cf_addr cf) t) g)"

text \<open>\<open>uri\<close> and file are looked at before the client dials. \<open>None\<close>: not a command of a client.\<close>

fun run_client :: "'g client_world \<Rightarrow> (string \<Rightarrow> string option) \<Rightarrow> (string \<Rightarrow> string) \<Rightarrow> invocation \<Rightarrow> 'g \<Rightarrow> (exit \<times> 'g) option" where
  "run_client cw lit getenv (DiffCmd cf uri file) g =
     (let auth = authCtx lit (getenv ''PROMPTNET_TOKEN'') (getenv ''PROMPTNET_URL'');
          edited = readTemplate (cw_files cw) (cw_stdin cw) file
      in Some (if uri = [] then ((Some Usage, []), g)
               else if edited = None then ((Some Unreadable, []), g)
               else connected cw cf (\<lambda>rpc. diff_cmd rpc auth uri edited) g))"
| "run_client cw lit getenv (ListCmd cf pre) g =
     (let auth = authCtx lit (getenv ''PROMPTNET_TOKEN'') (getenv ''PROMPTNET_URL'')
      in Some (connected cw cf (\<lambda>rpc. list_cmd rpc auth pre) g))"
| "run_client cw lit getenv (PublishCmd cf uri file slots) g =
     (let auth = authCtx lit (getenv ''PROMPTNET_TOKEN'') (getenv ''PROMPTNET_URL'');
          template = readTemplate (cw_files cw) (cw_stdin cw) file
      in Some (if uri = [] then ((Some Usage, []), g)
               else if template = None then ((Some Unreadable, []), g)
               else connected cw cf (\<lambda>rpc. publish_cmd rpc auth uri template slots) g))"
| "run_client cw lit getenv _ g = None"

text \<open>\<open>watch\<close>: \<open>natsConnect\<close> gives the connection to a URL, \<open>None\<close> if there is none.\<close>

definition watch_cmd :: "(string \<Rightarrow> connection option) \<Rightarrow> bool \<Rightarrow> string list \<Rightarrow> string \<Rightarrow> string \<Rightarrow> string
    \<Rightarrow> cli_err + (string \<times> (string list \<times> string list) option) list" where
  "watch_cmd natsConnect windows environ uri natsURL hook =
     (if uri = [] then Inl Usage
      else case natsConnect natsURL of
        None \<Rightarrow> Inl NotConnected
      | Some conn \<Rightarrow>
          (case watch windows environ uri hook conn of
             None \<Rightarrow> Inl NotSubscribed
           | Some actions \<Rightarrow> Inr actions))"

subsection \<open>promptctl\<close>

datatype ctl_invocation =
    CtlExits nat
  | CtlCommit string
  | CtlDiff "string list"
  | CtlLog "string list"
  | CtlPromote "string list"
  | CtlPush string bool string
  | CtlPull
  | CtlPublish string bool string "string list"

definition commit_args :: "(string \<Rightarrow> f64 option) \<Rightarrow> string list \<Rightarrow> ctl_invocation" where
  "commit_args pf args = with_flags CtlExits pf [(''m'', FString [])] args (\<lambda>fs rest. CtlCommit (string_flag fs ''m''))"

definition server_flag_set :: flag_set where
  "server_flag_set = [(''server'', FString []), (''tls'', FBool False), (''ca-cert'', FString [])]"

definition push_args :: "(string \<Rightarrow> f64 option) \<Rightarrow> string list \<Rightarrow> ctl_invocation" where
  "push_args pf args = with_flags CtlExits pf server_flag_set args
     (\<lambda>fs rest. CtlPush (string_flag fs ''server'') (bool_flag fs ''tls'') (string_flag fs ''ca-cert''))"

definition publish_ctl_args :: "(string \<Rightarrow> f64 option) \<Rightarrow> string list \<Rightarrow> ctl_invocation" where
  "publish_ctl_args pf args = with_flags CtlExits pf server_flag_set args
     (\<lambda>fs rest. CtlPublish (string_flag fs ''server'') (bool_flag fs ''tls'') (string_flag fs ''ca-cert'') rest)"

definition promptctl_main :: "(string \<Rightarrow> f64 option) \<Rightarrow> string list \<Rightarrow> ctl_invocation" where
  "promptctl_main pf argv =
     (case argv of
        p # cmd # args \<Rightarrow>
          if cmd = ''commit'' then commit_args pf args
          else if cmd = ''diff'' then CtlDiff args
          else if cmd = ''log'' then CtlLog args
          else if cmd = ''promote'' then CtlPromote args
          else if cmd = ''push'' then push_args pf args
          else if cmd = ''pull'' then CtlPull
          else if cmd = ''publish'' then publish_ctl_args pf args
          else CtlExits 2
      | _ \<Rightarrow> CtlExits 2)"

text \<open>\<open>promote\<close> behind its three arguments.\<close>

definition promote_args :: "'g git_ops \<Rightarrow> string list \<Rightarrow> 'g \<times> tree \<Rightarrow> ctl_exit \<times> ('g \<times> tree)" where
  "promote_args git args gd =
     (case args of [path, src, dst] \<Rightarrow> promote git path src dst gd | _ \<Rightarrow> ((Some CtlUsage, []), gd))"

subsection \<open>What is parsed\<close>

lemma with_flags_more:
  assumes "shape x = Plain" and "\<And>fs left left'. k fs left = k fs left'"
    and "\<And>n. with_flags ex pf fs args k \<noteq> ex n"
  shows "with_flags ex pf fs (args @ x # rest) k = with_flags ex pf fs args k"
proof (cases "flag_Parse pf fs args")
  case (Parsed fs' left)
  from flag_Parse_more [OF this assms(1)] assms(2) Parsed show ?thesis
    unfolding with_flags_def by (simp only: parsed.case)
next
  case (Exited n)
  with assms(3) [of n] show ?thesis by (simp add: with_flags_def)
qed

lemma args_more:
  assumes "shape x = Plain"
  shows "\<forall>n. init_args pf args \<noteq> Exits n \<Longrightarrow> init_args pf (args @ x # rest) = init_args pf args"
    and "\<forall>n. serve_args getenv pf args \<noteq> Exits n \<Longrightarrow> serve_args getenv pf (args @ x # rest) = serve_args getenv pf args"
    and "\<forall>n. put_args getenv pf args \<noteq> Exits n \<Longrightarrow> put_args getenv pf (args @ x # rest) = put_args getenv pf args"
    and "\<forall>n. diff_args host pf args \<noteq> Exits n \<Longrightarrow> diff_args host pf (args @ x # rest) = diff_args host pf args"
    and "\<forall>n. list_args host pf args \<noteq> Exits n \<Longrightarrow> list_args host pf (args @ x # rest) = list_args host pf args"
    and "\<forall>n. publish_args host pf args \<noteq> Exits n \<Longrightarrow> publish_args host pf (args @ x # rest) = publish_args host pf args"
    and "\<forall>n. watch_args pf args \<noteq> Exits n \<Longrightarrow> watch_args pf (args @ x # rest) = watch_args pf args"
    and "\<forall>n. backup_args pf args \<noteq> Exits n \<Longrightarrow> backup_args pf (args @ x # rest) = backup_args pf args"
    and "\<forall>n. restore_args pf args \<noteq> Exits n \<Longrightarrow> restore_args pf (args @ x # rest) = restore_args pf args"
    and "\<forall>n. migrate_args pf args \<noteq> Exits n \<Longrightarrow> migrate_args pf (args @ x # rest) = migrate_args pf args"
  unfolding init_args_def serve_args_def put_args_def diff_args_def list_args_def publish_args_def
    watch_args_def backup_args_def restore_args_def migrate_args_def
  by (rule with_flags_more [OF assms]; blast)+

lemma if_more:
  "\<forall>n. (if b then x else y) \<noteq> Exits n \<Longrightarrow> (\<forall>n. x \<noteq> Exits n \<Longrightarrow> x' = x) \<Longrightarrow> (\<forall>n. y \<noteq> Exits n \<Longrightarrow> y' = y) \<Longrightarrow>
     (if b then x' else y') = (if b then x else y)"
  by (cases b) simp_all

lemma client_more:
  "\<forall>n. (case h of None \<Rightarrow> BadEnv | Some host \<Rightarrow> f host) \<noteq> Exits n \<Longrightarrow> (\<And>host. \<forall>n. f host \<noteq> Exits n \<Longrightarrow> f' host = f host) \<Longrightarrow>
     (case h of None \<Rightarrow> BadEnv | Some host \<Rightarrow> f' host) = (case h of None \<Rightarrow> BadEnv | Some host \<Rightarrow> f host)"
  by (cases h) simp_all

text \<open>Arguments that are no flags are ignored, with everything behind them. If a command line of
  \<open>promptnet\<close> runs a command, then with a word that is no flag and any arguments appended, flags
  among them, it runs the same command with the same values.\<close>

theorem leftover_arguments_ignored:
  assumes "promptnet_main lit getenv pf (p # cmd # args) = x0" and "\<forall>n. x0 \<noteq> Exits n" and "shape x = Plain"
  shows "promptnet_main lit getenv pf (p # cmd # args @ x # rest) = x0"
  using assms(2) unfolding assms(1) [symmetric] promptnet_main_def Let_def list.case
  apply (intro if_more)
  apply (assumption | erule args_more [OF assms(3)] | erule client_more, erule args_more [OF assms(3)] | rule refl | blast)+
  done

theorem leftover_arguments_ignored_witness:
  "\<exists>fl. promptnet_main (\<lambda>_. None) (\<lambda>_. []) (\<lambda>_. None) [''promptnet'', ''serve'', ''-seed'', ''false'', ''-tokens-file'', ''t'', ''-tls-cert'', ''c'', ''-tls-key'', ''k'']
      = ServeCmd ''promptnet.db'' fl
    \<and> f_seed fl \<and> f_tokens_file fl = [] \<and> f_tls_cert fl = [] \<and> f_client_ca fl = []"
proof -
  define fl where "fl = \<lparr>f_addr = '':8443'', f_tls_cert = [], f_tls_key = [], f_client_ca = [], f_cache_ttl = default_ttl,
    f_redis_url = [], f_embed_url = [], f_embed_model = [], f_nats_addr = ''127.0.0.1:4222'', f_tokens_file = [],
    f_rate_limit = 0, f_rate_burst = 0, f_seed = True\<rparr>"
  have s: "promptnet_main (\<lambda>_. None) (\<lambda>_. []) (\<lambda>_. None) [''promptnet'', ''serve'', ''-seed''] = ServeCmd ''promptnet.db'' fl"
    unfolding fl_def by code_simp
  have "shape ''false'' = Plain" by code_simp
  from leftover_arguments_ignored [OF s _ this, of "[''-tokens-file'', ''t'', ''-tls-cert'', ''c'', ''-tls-key'', ''k'']"]
  show ?thesis by (intro exI [of _ fl] conjI) (simp_all add: fl_def)
qed

text \<open>A space for an equals sign: \<^verbatim>\<open>serve -seed false\<close> does not switch the demo prompt off, and whatever
  tokens and certificates come behind it are ignored: the server runs in plaintext and admits
  everyone.\<close>

definition run_serve :: "('r, 'l) platform \<Rightarrow> env \<Rightarrow> (string \<Rightarrow> open_err + store) \<Rightarrow> invocation \<Rightarrow> db
    \<Rightarrow> ((serve_err + ('r, 'l) running) \<times> db) option" where
  "run_serve os e open_db i d = (case i of ServeCmd dsn fl \<Rightarrow> Some (serve os fl e (open_db dsn) d) | _ \<Rightarrow> None)"

lemma spaced_seed_opens_server:
  assumes "run_serve os e open_db (promptnet_main lit getenv pf ([p, ''serve'', ''-seed'', ''false''] @ rest)) d = Some (Inr r, d')"
    and "os_token os = []"
  shows "cfg_tokens (run_config r) = [] \<and> run_transport r = Plaintext
    \<and> (\<exists>s. open_db ''promptnet.db'' = Inr s \<and> d' = seedDemo s e d)"
proof -
  have sh: "shape ''-seed'' = Named ''seed'' None" "shape ''false'' = Plain" by code_simp+
  have "map_of (serve_flags getenv) ''seed'' = Some (FBool (getenv ''PROMPTNET_SEED'' \<noteq> ''false''))"
    by (simp add: serve_flags_def)
  then have "flag_Parse pf (serve_flags getenv) (''-seed'' # ''false'' # rest)
      = Parsed (AList.update ''seed'' (FBool True) (serve_flags getenv)) (''false'' # rest)"
    using sh by (simp add: ParseBool_def)
  then obtain fl where fl: "promptnet_main lit getenv pf ([p, ''serve'', ''-seed'', ''false''] @ rest) = ServeCmd ''promptnet.db'' fl"
    "f_seed fl" "f_tokens_file fl = []" "f_tls_cert fl = []" "f_client_ca fl = []"
    by (simp add: promptnet_main_def serve_args_def with_flags_def string_flag_def bool_flag_def int_flag_def float_flag_def
        serve_flags_def)
  then have "serve os fl e (open_db ''promptnet.db'') d = (Inr r, d')" using assms(1) by (simp add: run_serve_def)
  then show ?thesis
    by (cases rule: serve_running) (use fl(2-) assms(2) in \<open>auto simp: loadTokens_def start_transport_def\<close>)
qed

subsection \<open>What a command line means\<close>

text \<open>C20: the publish command does what its command line says. With any URI, file and slots, whatever
  characters they are made of, it sends one request, for exactly this URI, the text of this file and
  these slots in this order, to the server and with the credentials of \<^verbatim>\<open>PROMPTNET_URL\<close> and
  \<^verbatim>\<open>PROMPTNET_TOKEN\<close>, and prints the version it is answered with.\<close>

theorem publish_command_line:
  assumes "envHost lit (getenv ''PROMPTNET_URL'') = Some host"
    and "authCtx lit (getenv ''PROMPTNET_TOKEN'') (getenv ''PROMPTNET_URL'') = Some vals"
    and "uri \<noteq> []" and "readTemplate (cw_files cw) (cw_stdin cw) file = Some template" and "cw_new_client cw host"
    and "cw_server cw host None vals (PublishPromptRequest uri template slots [] []) g = (Reply x, g')"
  shows "run_client cw lit getenv (promptnet_main lit getenv pf
      ([p, ''publish'', ''-uri'', uri, ''-file'', file] @ concat (map (\<lambda>v. [''-slot'', v]) slots))) g
    = Some (print_published uri x, g')"
proof -
  let ?fs = "client_flag_set host [(''uri'', FString []), (''file'', FString ''-''), (''slot'', FVar [])]"
  let ?fs2 = "AList.update ''file'' (FString file) (AList.update ''uri'' (FString uri) ?fs)"
  have sh: "shape ''-uri'' = Named ''uri'' None" "shape ''-file'' = Named ''file'' None" "shape ''-slot'' = Named ''slot'' None"
    by code_simp+
  have fs: "flag_Parse pf ?fs (''-uri'' # uri # ''-file'' # file # as) = flag_Parse pf ?fs2 as" for as
    using sh by (simp add: client_flag_set_def)
  have "map_of ?fs2 ''slot'' = Some (FVar [])" by (simp add: client_flag_set_def)
  from flag_Parse_repeated [OF sh(3) this, of pf slots "[]"] obtain fs' where
    fs': "flag_Parse pf ?fs2 (concat (map (\<lambda>v. [''-slot'', v]) slots)) = Parsed fs' []"
      "map_of fs' = (map_of ?fs2)(''slot'' \<mapsto> FVar slots)" by auto
  have "publish_args host pf ([''-uri'', uri, ''-file'', file] @ concat (map (\<lambda>v. [''-slot'', v]) slots))
      = PublishCmd \<lparr>cf_addr = host, cf_tls = False, cf_ca_cert = [], cf_cert = [], cf_key = []\<rparr> uri file slots"
    unfolding publish_args_def with_flags_def append_Cons append_Nil fs fs'(1) parsed.case client_of_def
      string_flag_def bool_flag_def var_flag_def fs'(2)
    by (simp add: client_flag_set_def)
  then show ?thesis
    using assms by (simp add: promptnet_main_def connected_def dial_def publish_cmd_def call_def Let_def)
qed

theorem publish_command_line_witness:
  "\<exists>g' out. run_client \<lparr>cw_files = (\<lambda>_. None), cw_stdin = Some ''Hi {n}'', cw_has_certs = \<lambda>_. False, cw_key_pair = \<lambda>_ _. False,
        cw_new_client = \<lambda>_. True, cw_server = \<lambda>_ _. serve_rpc demo_config calm\<rparr>
      (\<lambda>_. None) (\<lambda>n. if n = ''PROMPTNET_TOKEN'' then ''k'' else [])
      (promptnet_main (\<lambda>_. None) (\<lambda>n. if n = ''PROMPTNET_TOKEN'' then ''k'' else []) (\<lambda>_. None)
        [''promptnet'', ''publish'', ''-uri'', demo_uri, ''-file'', ''-'', ''-slot'', ''n'']) demo_gate
    = Some ((None, out), g')"
proof -
  let ?cw = "\<lparr>cw_files = (\<lambda>_. None), cw_stdin = Some ''Hi {n}'', cw_has_certs = \<lambda>_. False, cw_key_pair = \<lambda>_ _. False,
        cw_new_client = \<lambda>_. True, cw_server = \<lambda>_ _. serve_rpc demo_config calm\<rparr>"
  let ?env = "\<lambda>n. if n = ''PROMPTNET_TOKEN'' then ''k'' else []"
  obtain g' where r: "serve_rpc demo_config calm [''Bearer k''] (PublishPromptRequest demo_uri ''Hi {n}'' [''n''] [] []) demo_gate
      = (Reply (PublishPromptResponse (Hash demo_sha ''Hi {n}'' [''n''])), g')" using demo_republish by blast
  have host: "envHost (\<lambda>_. None) (?env ''PROMPTNET_URL'') = Some ''localhost:8443''"
    and auth: "authCtx (\<lambda>_. None) (?env ''PROMPTNET_TOKEN'') (?env ''PROMPTNET_URL'') = Some [''Bearer k'']"
    by (simp_all add: envHost_def connURL_def authCtx_def)
  have uri: "demo_uri \<noteq> []" and stdin: "readTemplate (cw_files ?cw) (cw_stdin ?cw) ''-'' = Some ''Hi {n}''"
    and new: "cw_new_client ?cw ''localhost:8443''"
    and server: "cw_server ?cw ''localhost:8443'' None [''Bearer k''] (PublishPromptRequest demo_uri ''Hi {n}'' [''n''] [] []) demo_gate
      = (Reply (PublishPromptResponse (Hash demo_sha ''Hi {n}'' [''n''])), g')"
    by (simp_all add: demo_uri_def readTemplate_def r [unfolded demo_uri_def])
  have "slice12 (Hash demo_sha ''Hi {n}'' [''n'']) = Some (take 12 (Hash demo_sha ''Hi {n}'' [''n'']))"
    using slice12_digest [OF digest_text_Hash [OF demo_ok(1)]] by (simp add: sha_demo)
  then obtain out where "print_published demo_uri (PublishPromptResponse (Hash demo_sha ''Hi {n}'' [''n''])) = (None, out)"
    by (simp add: print_published_def)
  with publish_command_line [OF host auth uri stdin new server, of "\<lambda>_. None" "''promptnet''"] show ?thesis by simp
qed

end
