(* ===== verification/Spec2Isabelle.thy ===== *)
theory Spec2Isabelle
  imports Validate StoreBranches Embedders Server Interceptors Pubsub Backup Connect Migrate
    Render Cli Serve PromptctlProps PromptctlPublish StoreConc ServerConc Delivery CommandLine
begin

text \<open>
  Verification of promptnet, a server that stores prompts with their history, serves the current
  version of each, diffs versions by how far an edit ripples, and tells subscribers of changes; and of
  its two command lines. Everything is a shallow embedding of the Go code: a Go function is a HOL
  function of the same name, a struct a record, an error a value of a sum or option type. A handler
  takes the state and returns it updated; what the environment decides (which statement fails, the
  time, a nonce, an embedder's answer) is an argument.

  \<^bold>\<open>How the program is put together.\<close> \<^verbatim>\<open>cmd/promptnet\<close> starts the server: interceptors around the
  handlers of \<^verbatim>\<open>internal/server\<close>, which work on \<^verbatim>\<open>internal/store\<close> (tables \<^verbatim>\<open>prompts\<close>, \<^verbatim>\<open>commits\<close>,
  \<^verbatim>\<open>refs\<close> behind SQL, columns encrypted by \<^verbatim>\<open>crypt.go\<close>), through an L2 cache, with the diff of
  \<^verbatim>\<open>internal/semdiff\<close> as the judge of a change and \<^verbatim>\<open>internal/pubsub\<close> as the notifier. Every write is
  checked by \<^verbatim>\<open>internal/validate\<close> first. \<^verbatim>\<open>cmd/promptctl\<close> keeps prompts in a git repository and
  publishes them to a server.

  \<^bold>\<open>Foundations.\<close>
  \<^item> \<open>Prelude\<close>: results, association lists, \<open>find\<close>; \<open>GoStrings\<close>: the functions of \<^verbatim>\<open>strings\<close> and
    \<^verbatim>\<open>encoding/hex\<close> the program calls, on byte strings; \<open>GoTime\<close>: \<^verbatim>\<open>time.Parse\<close> for the two layouts
    of an expiry; \<open>GoNet\<close>: the parts of \<^verbatim>\<open>net\<close>, \<^verbatim>\<open>net/url\<close> and \<^verbatim>\<open>strconv\<close>.
  \<^item> \<open>Json\<close>: encoder and parser for the JSON the program exchanges. \<open>parse_value\<close> has fuel twice the
    length of its input, which is enough (\<open>jvalue_fuel\<close>, \<open>parse_value_any\<close>), and encoded values are
    read back.
  \<^item> \<open>Sha256\<close>, \<open>AesGcm\<close>, \<open>Codec\<close>: executable SHA-256, AES-256-GCM, base64 and UTF-8, so that the columns
    and hashes of the examples can be computed; theorems use only the laws they prove of them.
  \<^item> \<open>Float64\<close>: binary64 as rationals rounded to 53 bits, half to even.

  \<^bold>\<open>Components.\<close>
  \<^item> \<open>Validate\<close> (\<^verbatim>\<open>validate.go\<close>): the placeholder scanner and \<open>validate_Prompt\<close>; it accepts exactly the
    well-formed prompts and reports complete, sorted lists.
  \<^item> \<open>Crypt\<close> (\<^verbatim>\<open>crypt.go\<close>): \<open>seal\<close> and \<open>open_column\<close> over the locale \<open>aead_scheme\<close> for the
    cipher, interpreted on AES-GCM.
  \<^item> \<open>Store\<close> (\<^verbatim>\<open>store.go\<close>): the three tables as the record \<open>db\<close>, each statement a function that an
    environment can make fail, transactions that roll back, and every method. \<open>StoreInv\<close> has one case
    rule per write and the invariants every write keeps; \<open>StoreLog\<close> shows that \<open>Log\<close>, a
    \<open>partial_function\<close>, returns on every reachable database because parents are older; \<open>StoreContent\<close>
    says what the columns decode to, \<open>StoreHashes\<close> that hashes are hex digests, \<open>StoreHead\<close> that the
    served row agrees with the tip of \<open>main\<close> along every run of commits, merges, branches and
    rollbacks (a branch created as \<open>main\<close> is the one way to a \<open>main\<close> that is not served). \<open>StoreProps\<close> and \<open>StoreBranches\<close> state the properties. \<open>StoreConc\<close> takes the methods apart
    into their statements: any interleaving of them keeps the served row and the histories intact, and
    \<open>Log\<close> is a snapshot, but one of two commits on the same tip is lost.
  \<^item> \<open>Migrate\<close>: \<open>migrate\<close> and \<open>Open\<close>, with every statement able to fail and later openings resuming.
  \<^item> \<open>LineDiff\<close>, \<open>Semdiff\<close>, \<open>Embedders\<close>, \<open>Render\<close> (\<^verbatim>\<open>semdiff.go\<close>): the LCS table and the hunks read off
    it (minimal, and a patch), the windows and curves of the propagation analysis (the loop returns
    because windows grow to the edges), the classification, the two embedders, and the text of a diff.
  \<^item> \<open>Cache\<close> (\<^verbatim>\<open>cache.go\<close>, \<^verbatim>\<open>redis_cache.go\<close>): locales \<open>coherent_cache\<close> and \<open>expiring_cache\<close> for what the
    service relies on, interpreted on no cache, on the in-process cache (also as a started
    server holds it, in \<open>Serve\<close>) and, over \<open>redis_backend\<close>, on Redis.
  \<^item> \<open>Rpc\<close>, \<open>Server\<close> (\<^verbatim>\<open>server.go\<close>): requests, answers and every handler with its guards in order.
    \<open>ServerInv\<close>: what each handler may change. \<open>ServerCache\<close> and \<open>ServerProps\<close>: with a cache the service
    refines the one without. \<open>ServerSafe\<close>: no panics, and what is notified. \<open>ServerOrgs\<close>: listing, and
    where organizations are not separated.
  \<^item> \<open>Interceptors\<close> (\<^verbatim>\<open>server.go\<close>, \<^verbatim>\<open>observability.go\<close>): authentication, metrics, audit and rate limits, as
    \<open>serve_rpc\<close> chains them around the handlers.
  \<^item> \<open>Pubsub\<close> (\<^verbatim>\<open>pubsub.go\<close>): subjects, bodies, and, over the locale \<open>nats\<close> with the documented rules
    of subjects and their wildcards, what a subscriber reads back. \<open>Delivery\<close>:
    from the RPC of a publish to the hook of \<open>promptnet watch\<close>.
  \<^item> \<open>Tokens\<close>, \<open>Connect\<close>, \<open>Backup\<close>, \<open>Cli\<close>, \<open>Serve\<close> (\<^verbatim>\<open>cmd/promptnet\<close>): the tokens file, \<open>init\<close> and the
    client's connection string, backup and restore, the commands, and \<open>serve\<close> from its flags to a
    running configuration.
  \<^item> \<open>Promptctl\<close>, \<open>PromptctlGit\<close>, \<open>PromptctlProps\<close>, \<open>PromptctlPublish\<close> (\<^verbatim>\<open>cmd/promptctl\<close>): the authoring
    commands over the locale \<open>git_repo\<close> (in which staging everything passes over \<open>.git\<close> and ignored
    paths), with walks of the working tree that may end early, and a pushed tree arriving at the server
    through the interceptors.
  \<^item> \<open>Flags\<close>, \<open>CommandLine\<close>: Go's flag package, and both \<open>main\<close> functions: which command runs with which
    values for a command line and an environment.

  \<^bold>\<open>What is assumed.\<close> The digest has 32 bytes; where a theorem needs it, it does not collide on the
  inputs of a run (named hypotheses \<open>sha_ok\<close>, \<open>inj_on\<close>). Nonces have their length (\<open>env_ok\<close>), and the
  random source they come from does not fail (Go 1.25 ends the program where it would). A
  transaction and a single statement are atomic; a commit of a transaction that reports an error has
  not happened. Templates of a run have no NUL byte (\<open>server_op\<close>), since two prompts whose texts
  differ only in where one stands may have the same version hash (\<open>nul_bytes_confuse_versions\<close>). \<open>StoreConc\<close> and \<open>ServerConc\<close> cover interleavings inside
  a handler (of reads of the head, publishes, and the statements of the other writes); elsewhere a
  handler runs without another in between, and interleavings of whole requests, of other nodes'
  writes and of restarts are covered. The
  embedder is any sequence of answers. NATS delivers to a connected subscriber in order, by the rules of the locale \<open>nats\<close>.
  go-git behaves as \<open>git_repo\<close> says. The rate of the limiter is a finite number below \<open>2 ^ 63\<close>, which
  Go converts to an integer by dropping its fraction.

  \<^bold>\<open>Not modelled.\<close> TLS handshakes and sockets (a transport is which certificates it requires or
  trusts), the inside of NATS, Redis, gRPC, Prometheus and go-git, the metrics endpoint, latencies and
  log lines (except the audit line), the parsing of floating-point flags (a parameter), the
  nesting limit of the JSON decoder, bracketed IPv6 literals (a parameter), and generated protobuf
  code.
\<close>

end
